(* ===== verification/Prelude.thy ===== *)
theory Prelude
  imports Main "HOL-Library.Word"
begin

text \<open>
  Shared vocabulary of the development: Rust's \<open>Result\<close> as a sum type with its sequencing
  operations, \<open>Duration\<close> and \<open>Instant\<close> as natural numbers of nanoseconds with Rust's saturating
  arithmetic, the \<open>u32\<close> operations the code uses, and the generic list and option lemmas the
  component theories rely on.
\<close>

named_theorems result_simps "sequencing of fallible steps"
named_theorems policy_defs "definitions that build firewall policies"
named_theorems state_defs "definitions of the tunnel state machine's handlers"

section \<open>Results\<close>

type_synonym ('e, 'a) result = "'e + 'a"

abbreviation Err :: "'e \<Rightarrow> ('e, 'a) result" where
  "Err \<equiv> Inl"

abbreviation Ok :: "'a \<Rightarrow> ('e, 'a) result" where
  "Ok \<equiv> Inr"

text \<open>The \<open>?\<close> operator.\<close>

definition rbind :: "('e, 'a) result \<Rightarrow> ('a \<Rightarrow> ('e, 'b) result) \<Rightarrow> ('e, 'b) result" where
  "rbind r f = (case r of Inl e \<Rightarrow> Inl e | Inr a \<Rightarrow> f a)"

text \<open>A batch of messages under construction: each step appends its messages or fails.\<close>

definition rappend :: "('e, 'a list) result \<Rightarrow> ('e, 'a list) result \<Rightarrow> ('e, 'a list) result" where
  "rappend r s = rbind r (\<lambda>xs. rbind s (\<lambda>ys. Inr (xs @ ys)))"

primrec rconcat :: "('e, 'a list) result list \<Rightarrow> ('e, 'a list) result" where
  "rconcat [] = Inr []"
| "rconcat (r # rs) = rappend r (rconcat rs)"

definition is_ok :: "('e, 'a) result \<Rightarrow> bool" where
  "is_ok r = (case r of Inl _ \<Rightarrow> False | Inr _ \<Rightarrow> True)"

definition err_of :: "('e, 'a) result \<Rightarrow> 'e option" where
  "err_of r = (case r of Inl e \<Rightarrow> Some e | Inr _ \<Rightarrow> None)"

lemma rbind_simps [simp, result_simps]:
  "rbind (Inl e) f = Inl e"
  "rbind (Inr a) f = f a"
  by (simp_all add: rbind_def)

lemma rbind_Inr_iff [result_simps]:
  "rbind r f = Inr b \<longleftrightarrow> (\<exists>a. r = Inr a \<and> f a = Inr b)"
  by (cases r) auto

lemma rappend_simps [simp, result_simps]:
  "rappend (Inl e) s = Inl e"
  "rappend (Inr xs) (Inl e) = Inl e"
  "rappend (Inr xs) (Inr ys) = Inr (xs @ ys)"
  by (simp_all add: rappend_def)

lemma rappend_Inr_iff [result_simps]:
  "rappend r s = Inr zs \<longleftrightarrow> (\<exists>xs ys. r = Inr xs \<and> s = Inr ys \<and> zs = xs @ ys)"
  by (auto simp: rappend_def rbind_Inr_iff)

lemma is_ok_simps [simp]: "is_ok (Inl e) = False" "is_ok (Inr a) = True"
  by (simp_all add: is_ok_def)

lemma err_of_simps [simp]: "err_of (Inl e) = Some e" "err_of (Inr a) = None"
  by (simp_all add: err_of_def)

lemma err_of_None_iff: "err_of r = None \<longleftrightarrow> is_ok r"
  by (cases r) simp_all

section \<open>Time\<close>

text \<open>
  A \<open>Duration\<close> is a whole number of nanoseconds, at most \<open>u64::MAX\<close> seconds and 999999999
  nanoseconds. An \<open>Instant\<close> is a number of nanoseconds on the monotonic clock;
  \<open>duration_since\<close> and \<open>saturating_duration_since\<close> return zero for a later argument, which is
  subtraction on \<^typ>\<open>nat\<close>.
\<close>

type_synonym duration = nat
type_synonym instant = nat

definition duration_max :: duration where
  "duration_max = (2 ^ 64 - 1) * 1000000000 + 999999999"

definition from_secs :: "nat \<Rightarrow> duration" where
  "from_secs s = s * 1000000000"

definition from_millis :: "nat \<Rightarrow> duration" where
  "from_millis ms = ms * 1000000"

definition duration_saturating_mul :: "duration \<Rightarrow> 32 word \<Rightarrow> duration" where
  "duration_saturating_mul d k = min duration_max (d * unat k)"

definition duration_since :: "instant \<Rightarrow> instant \<Rightarrow> duration" where
  "duration_since now earlier = now - earlier"

section \<open>Machine integers\<close>

definition u32_max :: "32 word" where
  "u32_max = 4294967295"

definition u32_saturating_sub :: "32 word \<Rightarrow> 32 word \<Rightarrow> 32 word" where
  "u32_saturating_sub a b = (if a < b then 0 else a - b)"

text \<open>\<open>1u32.checked_shl(n)\<close>: \<open>None\<close> when the shift amount is at least the width.\<close>

definition u32_checked_shl :: "32 word \<Rightarrow> 32 word \<Rightarrow> 32 word option" where
  "u32_checked_shl x n = (if unat n < 32 then Some (push_bit (unat n) x) else None)"

lemma unat_u32_max: "unat u32_max = 2 ^ 32 - 1"
  by (simp add: u32_max_def)

lemma unat_u32_saturating_sub: "unat (u32_saturating_sub a b) = unat a - unat b"
proof (cases "a < b")
  case True
  then show ?thesis by (simp add: u32_saturating_sub_def word_less_nat_alt)
next
  case False
  then have "b \<le> a" by simp
  then show ?thesis using False by (simp add: u32_saturating_sub_def unat_sub)
qed

section \<open>Options and lists\<close>

definition opt_or :: "'a option \<Rightarrow> 'a option \<Rightarrow> 'a option" where
  "opt_or a b = (case a of Some _ \<Rightarrow> a | None \<Rightarrow> b)"

definition unwrap_or :: "'a option \<Rightarrow> 'a \<Rightarrow> 'a" where
  "unwrap_or a d = (case a of Some x \<Rightarrow> x | None \<Rightarrow> d)"

definition list_first :: "'a list \<Rightarrow> 'a option" where
  "list_first xs = (case xs of [] \<Rightarrow> None | x # _ \<Rightarrow> Some x)"

lemma opt_simps [simp]:
  "opt_or (Some x) b = Some x" "opt_or None b = b"
  "unwrap_or (Some x) d = x" "unwrap_or None d = d"
  "list_first [] = None" "list_first (x # xs) = Some x"
  by (simp_all add: opt_or_def unwrap_or_def list_first_def)

lemma partition_all_first:
  "(case List.partition P xs of (yes, no) \<Rightarrow> yes \<noteq> [] \<and> no = []) \<longleftrightarrow> xs \<noteq> [] \<and> (\<forall>x \<in> set xs. P x)"
  by (cases xs) (auto simp: filter_empty_conv)

end
