(* ===== verification/Net_Types.thy ===== *)
theory Net_Types
  imports Prelude
begin

text \<open>
  The data the components exchange: addresses, endpoints, allowed clients and connectivity
  (\<open>talpid-types/src/net/mod.rs\<close>), the events, transitions and error causes of the tunnel
  (\<open>talpid-types/src/tunnel.rs\<close>, \<open>talpid-tunnel/src/lib.rs\<close>), the split tunnel mode
  (\<open>talpid-types/src/split_tunnel.rs\<close>) and the LAN networks
  (\<open>talpid-types/src/net/allowed_nets.rs\<close>). Variants and fields compiled only on other platforms
  than Linux are left out, as they are of the Linux build.
\<close>

section \<open>Addresses and endpoints\<close>

text \<open>\<open>std::net\<close>: an IPv6 socket address also carries its flow label and scope.\<close>

datatype IpAddr = V4 "32 word" | V6 "128 word"

datatype SocketAddr =
    SocketV4 "32 word" "16 word"
  | SocketV6 "128 word" "16 word" "32 word" "32 word"

fun sock_ip :: "SocketAddr \<Rightarrow> IpAddr" where
  "sock_ip (SocketV4 a _) = V4 a"
| "sock_ip (SocketV6 a _ _ _) = V6 a"

fun sock_port :: "SocketAddr \<Rightarrow> 16 word" where
  "sock_port (SocketV4 _ p) = p"
| "sock_port (SocketV6 _ p _ _) = p"

definition socket_new :: "IpAddr \<Rightarrow> 16 word \<Rightarrow> SocketAddr" where
  "socket_new ip port = (case ip of V4 a \<Rightarrow> SocketV4 a port | V6 a \<Rightarrow> SocketV6 a port 0 0)"

definition is_ipv4 :: "IpAddr \<Rightarrow> bool" where
  "is_ipv4 ip = (case ip of V4 _ \<Rightarrow> True | V6 _ \<Rightarrow> False)"

text \<open>
  A network of the \<open>ipnetwork\<close> crate: an address and a prefix length. Its mask is computed by the
  crate and enters the model as a parameter where a rule needs it.
\<close>

datatype IpNetwork = NetV4 "32 word" "8 word" | NetV6 "128 word" "8 word"

fun net_ip :: "IpNetwork \<Rightarrow> IpAddr" where
  "net_ip (NetV4 a _) = V4 a"
| "net_ip (NetV6 a _) = V6 a"

datatype TransportProtocol = Udp | Tcp

record Endpoint =
  ep_address :: SocketAddr
  ep_protocol :: TransportProtocol

definition endpoint_new :: "IpAddr \<Rightarrow> 16 word \<Rightarrow> TransportProtocol \<Rightarrow> Endpoint" where
  "endpoint_new ip port proto = \<lparr>ep_address = socket_new ip port, ep_protocol = proto\<rparr>"

definition from_socket_address :: "SocketAddr \<Rightarrow> TransportProtocol \<Rightarrow> Endpoint" where
  "from_socket_address addr proto = \<lparr>ep_address = addr, ep_protocol = proto\<rparr>"

datatype AllowedClients = ClientsRoot | ClientsAll

definition clients_allow_all :: "AllowedClients \<Rightarrow> bool" where
  "clients_allow_all c = (case c of ClientsAll \<Rightarrow> True | ClientsRoot \<Rightarrow> False)"

record AllowedEndpoint =
  ae_endpoint :: Endpoint
  ae_clients :: AllowedClients

datatype AllowedTunnelTraffic =
    TrafficNone
  | TrafficAll
  | TrafficOne Endpoint
  | TrafficTwo Endpoint Endpoint

datatype TunnelType = WireGuard | Warren

datatype ObfuscationType = Udp2Tcp | Shadowsocks | Quic | Lwo

record ObfuscationEndpoint =
  oe_endpoint :: Endpoint
  oe_type :: ObfuscationType

datatype ObfuscationInfo =
    ObfsSingle ObfuscationEndpoint
  | ObfsMultiplexer "Endpoint option" "ObfuscationEndpoint list"

fun obfs_get_endpoints :: "ObfuscationInfo \<Rightarrow> Endpoint list" where
  "obfs_get_endpoints (ObfsSingle e) = [oe_endpoint e]"
| "obfs_get_endpoints (ObfsMultiplexer direct obfuscators) =
     (case direct of Some d \<Rightarrow> [d] | None \<Rightarrow> []) @ map oe_endpoint obfuscators"

record TunnelEndpoint =
  te_endpoint :: Endpoint
  te_quantum_resistant :: bool
  te_obfuscation :: "ObfuscationInfo option"
  te_entry_endpoint :: "Endpoint option"
  te_tunnel_interface :: "string option"
  te_daita :: bool
  te_effective_mtu :: "16 word option"
  te_legs_bonded :: "8 word"
  te_legs_not_delivering :: "8 word"
  te_tunnel_type :: TunnelType

section \<open>Connectivity\<close>

datatype IpVersion = IpV4 | IpV6

datatype IpAvailability = AvailIpv4 | AvailIpv6 | AvailIpv4AndIpv6

definition avail_has_ipv4 :: "IpAvailability \<Rightarrow> bool" where
  "avail_has_ipv4 a = (case a of AvailIpv4 \<Rightarrow> True | AvailIpv4AndIpv6 \<Rightarrow> True | AvailIpv6 \<Rightarrow> False)"

definition avail_has_ipv6 :: "IpAvailability \<Rightarrow> bool" where
  "avail_has_ipv6 a = (case a of AvailIpv6 \<Rightarrow> True | AvailIpv4AndIpv6 \<Rightarrow> True | AvailIpv4 \<Rightarrow> False)"

datatype Connectivity = Offline | PresumeOnline | Online IpAvailability

definition is_offline :: "Connectivity \<Rightarrow> bool" where
  "is_offline c \<longleftrightarrow> c = Offline"

definition is_online :: "Connectivity \<Rightarrow> bool" where
  "is_online c \<longleftrightarrow> \<not> is_offline c"

fun availability :: "Connectivity \<Rightarrow> IpAvailability option" where
  "availability (Online a) = Some a"
| "availability PresumeOnline = Some AvailIpv4"
| "availability Offline = None"

definition conn_has_ipv4 :: "Connectivity \<Rightarrow> bool" where
  "conn_has_ipv4 c = unwrap_or (map_option avail_has_ipv4 (availability c)) False"

definition conn_has_ipv6 :: "Connectivity \<Rightarrow> bool" where
  "conn_has_ipv6 c = unwrap_or (map_option avail_has_ipv6 (availability c)) False"

fun conn_has_family :: "Connectivity \<Rightarrow> IpVersion \<Rightarrow> bool" where
  "conn_has_family c IpV4 = conn_has_ipv4 c"
| "conn_has_family c IpV6 = conn_has_ipv6 c"

fun connectivity_new :: "bool \<Rightarrow> bool \<Rightarrow> Connectivity" where
  "connectivity_new True True = Online AvailIpv4AndIpv6"
| "connectivity_new True False = Online AvailIpv4"
| "connectivity_new False True = Online AvailIpv6"
| "connectivity_new False False = Offline"

lemma connectivity_new_families:
  "conn_has_ipv4 (connectivity_new v4 v6) = v4"
  "conn_has_ipv6 (connectivity_new v4 v6) = v6"
  "is_offline (connectivity_new v4 v6) \<longleftrightarrow> \<not> v4 \<and> \<not> v6"
  by (cases v4; cases v6;
      simp add: conn_has_ipv4_def conn_has_ipv6_def avail_has_ipv4_def avail_has_ipv6_def is_offline_def)+

lemma offline_has_no_family: "is_offline c \<Longrightarrow> \<not> conn_has_family c v"
  by (cases v) (simp_all add: is_offline_def conn_has_ipv4_def conn_has_ipv6_def)

section \<open>Tunnel events, transitions and causes\<close>

record TunnelMetadata =
  tm_interface :: string
  tm_ips :: "IpAddr list"
  tm_ipv4_gateway :: "32 word"
  tm_ipv6_gateway :: "128 word option"
  tm_daita_active :: bool
  tm_effective_mtu :: "16 word option"
  tm_legs_bonded :: "8 word"
  tm_legs_not_delivering :: "8 word"

definition gateways :: "TunnelMetadata \<Rightarrow> IpAddr list" where
  "gateways m = V4 (tm_ipv4_gateway m) #
     (case tm_ipv6_gateway m of Some g \<Rightarrow> [V6 g] | None \<Rightarrow> [])"

datatype TunnelEvent =
    EvAuthFailed "string option"
  | EvInterfaceUp TunnelMetadata AllowedTunnelTraffic
  | EvUp TunnelMetadata
  | EvDown
  | EvPeerEndpoints "Endpoint list"

datatype FirewallPolicyError = Generic

datatype ParameterGenerationError =
    NoMatchingRelayEntry
  | NoMatchingRelayExit
  | NoMatchingRelay
  | NoMatchingBridgeRelay
  | CustomTunnelHostResolutionError
  | IpVersionUnavailable IpVersion
  | PGWarrenPubkeyMismatch string string string

datatype ErrorStateCause =
    AuthFailed "string option"
  | Ipv6Unavailable
  | SetFirewallPolicyError FirewallPolicyError
  | SetDnsError
  | StartTunnelError
  | WarrenTunnelFlapping
  | TunnelParameterError ParameterGenerationError
  | IsOffline
  | WarrenPubkeyMismatch string string string

record ErrorStateInfo =
  es_cause :: ErrorStateCause
  es_block_failure :: "FirewallPolicyError option"

definition es_is_blocking :: "ErrorStateInfo \<Rightarrow> bool" where
  "es_is_blocking e \<longleftrightarrow> es_block_failure e = None"

datatype ActionAfterDisconnect = ActNothing | ActBlock | ActReconnect

datatype TunnelStateTransition =
    TrDisconnected bool
  | TrConnecting TunnelEndpoint
  | TrConnected TunnelEndpoint
  | TrDisconnecting ActionAfterDisconnect
  | TrError ErrorStateInfo

section \<open>Split tunnel mode\<close>

datatype SplitTunnelMode = Exclude | IncludeOnly

record SplitApps =
  sa_mode :: SplitTunnelMode
  sa_apps :: "string list"

definition engages_split_tunnel :: "SplitApps \<Rightarrow> bool" where
  "engages_split_tunnel a \<longleftrightarrow> sa_mode a = IncludeOnly \<or> sa_apps a \<noteq> []"

section \<open>LAN networks\<close>

definition ipv4_new :: "nat \<Rightarrow> nat \<Rightarrow> nat \<Rightarrow> nat \<Rightarrow> 32 word" where
  "ipv4_new a b c d = of_nat (((a * 256 + b) * 256 + c) * 256 + d)"

primrec ipv6_segments :: "nat list \<Rightarrow> nat \<Rightarrow> nat" where
  "ipv6_segments [] acc = acc"
| "ipv6_segments (s # ss) acc = ipv6_segments ss (acc * 65536 + s)"

definition ipv6_new :: "nat \<Rightarrow> nat \<Rightarrow> nat \<Rightarrow> nat \<Rightarrow> nat \<Rightarrow> nat \<Rightarrow> nat \<Rightarrow> nat \<Rightarrow> 128 word" where
  "ipv6_new a b c d e f g h = of_nat (ipv6_segments [a, b, c, d, e, f, g, h] 0)"

definition ALLOWED_LAN_NETS :: "IpNetwork list" where
  "ALLOWED_LAN_NETS =
    [NetV4 (ipv4_new 10 0 0 0) 8,
     NetV4 (ipv4_new 172 16 0 0) 12,
     NetV4 (ipv4_new 192 168 0 0) 16,
     NetV4 (ipv4_new 169 254 0 0) 16,
     NetV6 (ipv6_new 0xfe80 0 0 0 0 0 0 0) 10,
     NetV6 (ipv6_new 0xfc00 0 0 0 0 0 0 0) 7]"

definition ALLOWED_LAN_MULTICAST_NETS :: "IpNetwork list" where
  "ALLOWED_LAN_MULTICAST_NETS =
    [NetV4 (ipv4_new 255 255 255 255) 32,
     NetV4 (ipv4_new 224 0 0 0) 24,
     NetV4 (ipv4_new 239 0 0 0) 8,
     NetV6 (ipv6_new 0xff01 0 0 0 0 0 0 0) 16,
     NetV6 (ipv6_new 0xff02 0 0 0 0 0 0 0) 16,
     NetV6 (ipv6_new 0xff03 0 0 0 0 0 0 0) 16,
     NetV6 (ipv6_new 0xff04 0 0 0 0 0 0 0) 16,
     NetV6 (ipv6_new 0xff05 0 0 0 0 0 0 0) 16]"

end
