(* ===== verification/Dns_Config.thy ===== *)
theory Dns_Config
  imports Net_Types
begin

text \<open>
  The DNS configuration of \<open>talpid-dns/src/lib.rs\<close>: what the user configured, and what it
  resolves to for the tunnel that is up.
\<close>

datatype InnerDnsConfig =
    DnsDefault
  | DnsOverride "IpAddr list" "IpAddr list"

record DnsConfig =
  dc_config :: InnerDnsConfig
  dc_allow_external_dns :: bool

definition dns_config_default :: DnsConfig where
  "dns_config_default = \<lparr>dc_config = DnsDefault, dc_allow_external_dns = False\<rparr>"

definition dns_from_addresses :: "IpAddr list \<Rightarrow> IpAddr list \<Rightarrow> DnsConfig" where
  "dns_from_addresses tunnel_config non_tunnel_config =
     \<lparr>dc_config = DnsOverride tunnel_config non_tunnel_config, dc_allow_external_dns = False\<rparr>"

definition dns_allow_external :: "DnsConfig \<Rightarrow> bool \<Rightarrow> DnsConfig" where
  "dns_allow_external c allow = c\<lparr>dc_allow_external_dns := allow\<rparr>"

record ResolvedDnsConfig =
  rd_tunnel_config :: "IpAddr list"
  rd_non_tunnel_config :: "IpAddr list"
  rd_allow_external_dns :: bool

definition dns_resolve :: "DnsConfig \<Rightarrow> IpAddr list \<Rightarrow> ResolvedDnsConfig" where
  "dns_resolve c default_tun_config =
     (case dc_config c of
        DnsDefault \<Rightarrow>
          \<lparr>rd_tunnel_config = default_tun_config, rd_non_tunnel_config = [],
           rd_allow_external_dns = dc_allow_external_dns c\<rparr>
      | DnsOverride tunnel_config non_tunnel_config \<Rightarrow>
          \<lparr>rd_tunnel_config = tunnel_config, rd_non_tunnel_config = non_tunnel_config,
           rd_allow_external_dns = dc_allow_external_dns c\<rparr>)"

definition rd_addresses :: "ResolvedDnsConfig \<Rightarrow> IpAddr list" where
  "rd_addresses c = rd_non_tunnel_config c @ rd_tunnel_config c"

text \<open>\<open>IpAddr::is_loopback\<close>: 127.0.0.0/8, and ::1.\<close>

definition ip_is_loopback :: "IpAddr \<Rightarrow> bool" where
  "ip_is_loopback ip = (case ip of V4 a \<Rightarrow> drop_bit 24 a = 127 | V6 a \<Rightarrow> a = 1)"

definition rd_is_loopback :: "ResolvedDnsConfig \<Rightarrow> bool" where
  "rd_is_loopback c =
     (let (loopback_addrs, non_loopback_addrs) =
        List.partition ip_is_loopback (rd_tunnel_config c @ rd_non_tunnel_config c)
      in loopback_addrs \<noteq> [] \<and> non_loopback_addrs = [])"

lemma rd_is_loopback_iff:
  "rd_is_loopback c \<longleftrightarrow>
     rd_addresses c \<noteq> [] \<and> (\<forall>ip \<in> set (rd_addresses c). ip_is_loopback ip)"
  unfolding rd_is_loopback_def Let_def partition_all_first
  by (auto simp: rd_addresses_def)

end
