(* ===== verification/Firewall_Policy.thy ===== *)
theory Firewall_Policy
  imports Dns_Config
begin

text \<open>
  The policies of \<open>talpid-core/src/firewall/mod.rs\<close>: what each state of the tunnel asks the
  firewall for, the accessors the backends read them with, and the address constants the rules use.
\<close>

datatype FirewallPolicy =
    Connecting "AllowedEndpoint list" "TunnelMetadata option" bool "IpNetwork list"
      AllowedEndpoint AllowedTunnelTraffic
  | Connected "AllowedEndpoint list" TunnelMetadata bool "IpNetwork list" ResolvedDnsConfig
  | Blocked bool "IpNetwork list" "AllowedEndpoint option"

fun fp_peer_endpoints :: "FirewallPolicy \<Rightarrow> AllowedEndpoint list option" where
  "fp_peer_endpoints (Connecting peers _ _ _ _ _) = Some peers"
| "fp_peer_endpoints (Connected peers _ _ _ _) = Some peers"
| "fp_peer_endpoints (Blocked _ _ _) = None"

fun fp_allowed_endpoint :: "FirewallPolicy \<Rightarrow> AllowedEndpoint option" where
  "fp_allowed_endpoint (Connecting _ _ _ _ ep _) = Some ep"
| "fp_allowed_endpoint (Blocked _ _ (Some ep)) = Some ep"
| "fp_allowed_endpoint _ = None"

fun fp_tunnel :: "FirewallPolicy \<Rightarrow> TunnelMetadata option" where
  "fp_tunnel (Connecting _ (Some t) _ _ _ _) = Some t"
| "fp_tunnel (Connected _ t _ _ _) = Some t"
| "fp_tunnel _ = None"

fun fp_allowed_tunnel_traffic :: "FirewallPolicy \<Rightarrow> AllowedTunnelTraffic" where
  "fp_allowed_tunnel_traffic (Connecting _ _ _ _ _ traffic) = traffic"
| "fp_allowed_tunnel_traffic (Connected _ _ _ _ _) = TrafficAll"
| "fp_allowed_tunnel_traffic _ = TrafficNone"

fun fp_allow_lan :: "FirewallPolicy \<Rightarrow> bool" where
  "fp_allow_lan (Connecting _ _ lan _ _ _) = lan"
| "fp_allow_lan (Connected _ _ lan _ _) = lan"
| "fp_allow_lan (Blocked lan _ _) = lan"

fun fp_lan_networks :: "FirewallPolicy \<Rightarrow> IpNetwork list" where
  "fp_lan_networks (Connecting _ _ _ nets _ _) = nets"
| "fp_lan_networks (Connected _ _ _ nets _) = nets"
| "fp_lan_networks (Blocked _ nets _) = nets"

text \<open>Constants of the rules every policy carries.\<close>

definition IPV6_LINK_LOCAL :: IpNetwork where
  "IPV6_LINK_LOCAL = NetV6 (ipv6_new 0xfe80 0 0 0 0 0 0 0) 10"

definition DHCPV6_SERVER_ADDRS :: "IpAddr list" where
  "DHCPV6_SERVER_ADDRS =
     [V6 (ipv6_new 0xff02 0 0 0 0 0 1 2), V6 (ipv6_new 0xff05 0 0 0 0 0 1 3)]"

definition ROUTER_SOLICITATION_OUT_DST_ADDR :: IpAddr where
  "ROUTER_SOLICITATION_OUT_DST_ADDR = V6 (ipv6_new 0xff02 0 0 0 0 0 0 2)"

definition SOLICITED_NODE_MULTICAST :: IpNetwork where
  "SOLICITED_NODE_MULTICAST = NetV6 (ipv6_new 0xff02 0 0 0 0 1 0xFF00 0) 104"

definition LOOPBACK_NETS :: "IpNetwork list" where
  "LOOPBACK_NETS = [NetV4 (ipv4_new 127 0 0 0) 8, NetV6 (ipv6_new 0 0 0 0 0 0 0 1) 128]"

definition DHCPV4_SERVER_PORT :: "16 word" where "DHCPV4_SERVER_PORT = 67"
definition DHCPV4_CLIENT_PORT :: "16 word" where "DHCPV4_CLIENT_PORT = 68"
definition DHCPV6_SERVER_PORT :: "16 word" where "DHCPV6_SERVER_PORT = 547"
definition DHCPV6_CLIENT_PORT :: "16 word" where "DHCPV6_CLIENT_PORT = 546"
definition ROOT_UID :: "32 word" where "ROOT_UID = 0"

text \<open>\<open>contains\<close> is the network crate's membership test.\<close>

definition is_local_address :: "(IpNetwork \<Rightarrow> IpAddr \<Rightarrow> bool) \<Rightarrow> IpAddr \<Rightarrow> bool" where
  "is_local_address contains address =
     list_ex (\<lambda>net. contains net address) (ALLOWED_LAN_NETS @ LOOPBACK_NETS)"

text \<open>
  The in-tunnel resolvers the connected policy permits on port 53. \<open>gateway\<close> is the tunnel
  gateway's address, a constant of the tunnel engine's configuration crate.
\<close>

definition allowed_tunnel_dns :: "IpAddr \<Rightarrow> ResolvedDnsConfig \<Rightarrow> IpAddr list" where
  "allowed_tunnel_dns gateway dns_config =
     (let servers = rd_tunnel_config dns_config
      in if gateway \<in> set servers then servers else servers @ [gateway])"

lemma set_allowed_tunnel_dns:
  "set (allowed_tunnel_dns gateway c) = insert gateway (set (rd_tunnel_config c))"
  by (auto simp: allowed_tunnel_dns_def Let_def)

lemma distinct_allowed_tunnel_dns:
  "distinct (rd_tunnel_config c) \<Longrightarrow> distinct (allowed_tunnel_dns gateway c)"
  by (auto simp: allowed_tunnel_dns_def Let_def)

end
