(* ===== verification/Tailnet.thy ===== *)
theory Tailnet
  imports Firewall_Policy "HOL-Library.List_Lexorder" "HOL-Library.Char_ord"
begin

text \<open>
  The Tailscale interfaces that coexist with the tunnel
  (\<open>talpid-core/src/firewall/tailnet.rs\<close>): which interfaces of the host qualify, which passes they
  get and when the set of them changed. A \<open>BTreeSet<String>\<close> is the list of its elements in
  ascending order.
\<close>

definition TAILNET_V4 :: IpNetwork where
  "TAILNET_V4 = NetV4 (ipv4_new 100 64 0 0) 10"

definition TAILNET_V6 :: IpNetwork where
  "TAILNET_V6 = NetV6 (ipv6_new 0xfd7a 0x115c 0xa1e0 0 0 0 0 0) 48"

record HostInterface =
  hi_name :: string
  hi_up :: bool
  hi_tunnel :: bool
  hi_addresses :: "IpAddr list"

datatype PassDirection = PassOut | PassIn

record TailnetPass =
  tp_interface :: string
  tp_direction :: PassDirection
  tp_net :: IpNetwork

definition btree_set :: "string list \<Rightarrow> string list" where
  "btree_set xs = sort (remdups xs)"

definition is_tailscale_ula :: "(IpNetwork \<Rightarrow> IpAddr \<Rightarrow> bool) \<Rightarrow> IpAddr \<Rightarrow> bool" where
  "is_tailscale_ula contains address = contains TAILNET_V6 address"

definition coexisting_tailnet_interfaces ::
    "(IpNetwork \<Rightarrow> IpAddr \<Rightarrow> bool) \<Rightarrow> HostInterface list \<Rightarrow> string option \<Rightarrow> string list" where
  "coexisting_tailnet_interfaces contains interfaces own_interface =
     btree_set (map hi_name (filter (\<lambda>i. hi_tunnel i \<and> Some (hi_name i) \<noteq> own_interface \<and> hi_up i \<and>
       list_ex (is_tailscale_ula contains) (hi_addresses i)) interfaces))"

definition tailnet_passes :: "string list \<Rightarrow> TailnetPass list" where
  "tailnet_passes interfaces =
     concat (map (\<lambda>interface.
       concat (map (\<lambda>net.
         map (\<lambda>direction.
           \<lparr>tp_interface = interface, tp_direction = direction, tp_net = net\<rparr>)
         [PassOut, PassIn])
       [TAILNET_V4, TAILNET_V6]))
     interfaces)"

record SetTracker =
  st_last :: "string list"

definition set_tracker_new :: "string list \<Rightarrow> SetTracker" where
  "set_tracker_new initial = \<lparr>st_last = initial\<rparr>"

definition set_tracker_observe :: "SetTracker \<Rightarrow> string list \<Rightarrow> SetTracker \<times> bool" where
  "set_tracker_observe t current =
     (if st_last t = current then (t, False) else (t\<lparr>st_last := current\<rparr>, True))"

text \<open>\<open>read\<close> is the host's interfaces, or the failure to read them.\<close>

definition current_coexisting_tailnet_interfaces ::
    "(IpNetwork \<Rightarrow> IpAddr \<Rightarrow> bool) \<Rightarrow> HostInterface list option \<Rightarrow> string option \<Rightarrow> string list" where
  "current_coexisting_tailnet_interfaces contains read own_interface =
     (case read of
        Some interfaces \<Rightarrow> coexisting_tailnet_interfaces contains interfaces own_interface
      | None \<Rightarrow> [])"

lemma set_btree_set [simp]: "set (btree_set xs) = set xs"
  by (simp add: btree_set_def)

lemma btree_set_ordered: "sorted (btree_set xs)" "distinct (btree_set xs)"
  by (simp_all add: btree_set_def)

lemma btree_set_eq_iff: "btree_set xs = btree_set ys \<longleftrightarrow> set xs = set ys"
  by (metis btree_set_ordered set_btree_set sorted_distinct_set_unique)

lemma coexisting_never_own:
  "own \<notin> set (coexisting_tailnet_interfaces contains interfaces (Some own))"
  by (auto simp: coexisting_tailnet_interfaces_def)

lemma current_coexisting_never_own:
  "own \<notin> set (current_coexisting_tailnet_interfaces contains read (Some own))"
  by (cases read) (auto simp: current_coexisting_tailnet_interfaces_def coexisting_never_own)

lemma coexisting_qualified:
  "name \<in> set (coexisting_tailnet_interfaces contains interfaces own) \<longleftrightarrow>
     (\<exists>i \<in> set interfaces. hi_name i = name \<and> hi_tunnel i \<and> hi_up i \<and> Some name \<noteq> own \<and>
        (\<exists>a \<in> set (hi_addresses i). contains TAILNET_V6 a))"
  by (auto simp: coexisting_tailnet_interfaces_def is_tailscale_ula_def list_ex_iff)

lemma set_tailnet_passes:
  "pass \<in> set (tailnet_passes interfaces) \<longleftrightarrow>
     tp_interface pass \<in> set interfaces \<and> tp_net pass \<in> {TAILNET_V4, TAILNET_V6}"
proof (cases "tp_direction pass")
  case PassOut
  then show ?thesis by (cases pass) (auto simp: tailnet_passes_def)
next
  case PassIn
  then show ?thesis by (cases pass) (auto simp: tailnet_passes_def)
qed

text \<open>
  A run of the watcher: the commands sent are exactly the changes of the observed set.
\<close>

primrec observe_all :: "SetTracker \<Rightarrow> string list list \<Rightarrow> bool list" where
  "observe_all t [] = []"
| "observe_all t (s # ss) =
     (case set_tracker_observe t s of (t', changed) \<Rightarrow> changed # observe_all t' ss)"

lemma observe_all_changes:
  "observe_all t ss = map (\<lambda>(a, b). a \<noteq> b) (zip (st_last t # ss) ss)"
  by (induction ss arbitrary: t) (auto simp: set_tracker_observe_def)

end
