(* ===== verification/Nft_Semantics.thy ===== *)
theory Nft_Semantics
  imports Main
begin

text \<open>
  The meaning of the netfilter expressions the Linux firewall emits, as \<open>nft(8)\<close> documents them:
  the expressions of a rule run in order over one register, a load that has nothing to read and a
  comparison that fails end the rule, a verdict ends the chain, and a packet that no rule decides
  gets the chain's policy. This theory is the specification the emitted rules are judged against,
  it models no code of the repository.
\<close>

unbundle bit_operations_syntax

datatype nft_key =
    MetaIif | MetaOif | MetaNfproto | MetaL4proto | MetaMark | MetaSkuid | MetaCgroup
  | CtState | CtMark
  | Ipv4Saddr | Ipv4Daddr | Ipv6Saddr | Ipv6Daddr
  | UdpSport | UdpDport | TcpSport | TcpDport
  | Icmpv6Type | Icmpv6Code
  | SocketCgroupv2 nat

datatype cmp_op = CmpEq | CmpNeq

datatype rejection_type = IcmpPortUnreach | TcpRst

datatype nft_verdict = Accept | Drop | Reject rejection_type

datatype nft_expr =
    Load nft_key
  | Cmp cmp_op nat
  | BitwiseMask nat
  | Immediate nat
  | CtMarkSet
  | MetaMarkSet
  | Masquerade
  | Counter
  | VerdictE nft_verdict

type_synonym nft_rule = "nft_expr list"

text \<open>
  A packet as the hooks see it. The receiving or sending socket may be unknown, and then has
  neither a user nor a control group. The address fields hold the addresses of the packet's own
  protocol family and the port fields those of its own transport protocol.
\<close>

record packet =
  pk_iif :: nat
  pk_oif :: nat
  pk_nfproto :: nat
  pk_saddr :: nat
  pk_daddr :: nat
  pk_l4proto :: nat
  pk_sport :: nat
  pk_dport :: nat
  pk_icmp_type :: nat
  pk_icmp_code :: nat
  pk_ct_state :: nat
  pk_ct_mark :: nat
  pk_mark :: nat
  pk_skuid :: "nat option"
  pk_classid :: nat
  pk_cgroup :: "nat \<Rightarrow> nat option"
  pk_masqueraded :: bool

definition nfproto_ipv4 :: nat where "nfproto_ipv4 = 2"
definition nfproto_ipv6 :: nat where "nfproto_ipv6 = 10"
definition ipproto_tcp :: nat where "ipproto_tcp = 6"
definition ipproto_udp :: nat where "ipproto_udp = 17"
definition ipproto_icmpv6 :: nat where "ipproto_icmpv6 = 58"
definition ct_established_bit :: nat where "ct_established_bit = 2"

lemmas proto_defs = nfproto_ipv4_def nfproto_ipv6_def ipproto_tcp_def ipproto_udp_def
  ipproto_icmpv6_def ct_established_bit_def

fun load_key :: "nft_key \<Rightarrow> packet \<Rightarrow> nat option" where
  "load_key MetaIif p = Some (pk_iif p)"
| "load_key MetaOif p = Some (pk_oif p)"
| "load_key MetaNfproto p = Some (pk_nfproto p)"
| "load_key MetaL4proto p = Some (pk_l4proto p)"
| "load_key MetaMark p = Some (pk_mark p)"
| "load_key MetaSkuid p = pk_skuid p"
| "load_key MetaCgroup p = Some (pk_classid p)"
| "load_key CtState p = Some (pk_ct_state p)"
| "load_key CtMark p = Some (pk_ct_mark p)"
| "load_key Ipv4Saddr p = (if pk_nfproto p = nfproto_ipv4 then Some (pk_saddr p) else None)"
| "load_key Ipv4Daddr p = (if pk_nfproto p = nfproto_ipv4 then Some (pk_daddr p) else None)"
| "load_key Ipv6Saddr p = (if pk_nfproto p = nfproto_ipv6 then Some (pk_saddr p) else None)"
| "load_key Ipv6Daddr p = (if pk_nfproto p = nfproto_ipv6 then Some (pk_daddr p) else None)"
| "load_key UdpSport p = (if pk_l4proto p = ipproto_udp then Some (pk_sport p) else None)"
| "load_key UdpDport p = (if pk_l4proto p = ipproto_udp then Some (pk_dport p) else None)"
| "load_key TcpSport p = (if pk_l4proto p = ipproto_tcp then Some (pk_sport p) else None)"
| "load_key TcpDport p = (if pk_l4proto p = ipproto_tcp then Some (pk_dport p) else None)"
| "load_key Icmpv6Type p = (if pk_l4proto p = ipproto_icmpv6 then Some (pk_icmp_type p) else None)"
| "load_key Icmpv6Code p = (if pk_l4proto p = ipproto_icmpv6 then Some (pk_icmp_code p) else None)"
| "load_key (SocketCgroupv2 level) p = pk_cgroup p level"

fun cmp_holds :: "cmp_op \<Rightarrow> nat \<Rightarrow> nat \<Rightarrow> bool" where
  "cmp_holds CmpEq a b = (a = b)"
| "cmp_holds CmpNeq a b = (a \<noteq> b)"

fun eval_exprs :: "nft_rule \<Rightarrow> nat \<Rightarrow> packet \<Rightarrow> packet \<times> nft_verdict option" where
  "eval_exprs [] reg p = (p, None)"
| "eval_exprs (Load k # es) reg p =
     (case load_key k p of None \<Rightarrow> (p, None) | Some v \<Rightarrow> eval_exprs es v p)"
| "eval_exprs (Cmp c v # es) reg p = (if cmp_holds c reg v then eval_exprs es reg p else (p, None))"
| "eval_exprs (BitwiseMask m # es) reg p = eval_exprs es (reg AND m) p"
| "eval_exprs (Immediate d # es) reg p = eval_exprs es d p"
| "eval_exprs (CtMarkSet # es) reg p = eval_exprs es reg (p\<lparr>pk_ct_mark := reg\<rparr>)"
| "eval_exprs (MetaMarkSet # es) reg p = eval_exprs es reg (p\<lparr>pk_mark := reg\<rparr>)"
| "eval_exprs (Masquerade # es) reg p = (p\<lparr>pk_masqueraded := True\<rparr>, Some Accept)"
| "eval_exprs (Counter # es) reg p = eval_exprs es reg p"
| "eval_exprs (VerdictE v # es) reg p = (p, Some v)"

text \<open>The rules of a chain: the first verdict ends it.\<close>

fun run_rules :: "nft_rule list \<Rightarrow> packet \<Rightarrow> packet \<times> nft_verdict option" where
  "run_rules [] p = (p, None)"
| "run_rules (r # rs) p =
     (case eval_exprs r 0 p of
        (p', Some v) \<Rightarrow> (p', Some v)
      | (p', None) \<Rightarrow> run_rules rs p')"

definition run_chain :: "nft_verdict \<Rightarrow> nft_rule list \<Rightarrow> packet \<Rightarrow> packet \<times> nft_verdict" where
  "run_chain policy rules p =
     (case run_rules rules p of (p', Some v) \<Rightarrow> (p', v) | (p', None) \<Rightarrow> (p', policy))"

lemma run_rules_append [simp]:
  "run_rules (xs @ ys) p =
     (case run_rules xs p of (p', Some v) \<Rightarrow> (p', Some v) | (p', None) \<Rightarrow> run_rules ys p')"
  by (induction xs arbitrary: p) (auto split: prod.splits option.splits)

text \<open>
  A filter rule tests the packet and decides: \<open>decides r P v\<close> says the rule \<open>r\<close> gives verdict
  \<open>v\<close> exactly on the packets of \<open>P\<close> and never changes one. A block of rules of this kind behaves
  as the cascade of its tests.
\<close>

definition decides :: "nft_rule \<Rightarrow> (packet \<Rightarrow> bool) \<Rightarrow> nft_verdict \<Rightarrow> bool" where
  "decides r P v \<longleftrightarrow> (\<forall>p. eval_exprs r 0 p = (p, if P p then Some v else None))"

lemma run_rules_decides:
  "decides r P v \<Longrightarrow> run_rules (r # rs) p = (if P p then (p, Some v) else run_rules rs p)"
  by (simp add: decides_def)

lemma run_rules_all_accept:
  assumes "\<And>x. x \<in> set xs \<Longrightarrow> decides (f x) (P x) v"
  shows "run_rules (map f xs) p = (p, if \<exists>x \<in> set xs. P x p then Some v else None)"
  using assms
proof (induction xs)
  case Nil
  then show ?case by simp
next
  case (Cons x xs)
  have "decides (f x) (P x) v" using Cons.prems by simp
  moreover have "run_rules (map f xs) p = (p, if \<exists>y \<in> set xs. P y p then Some v else None)"
    using Cons by simp
  ultimately show ?case by (simp add: run_rules_decides del: run_rules.simps)
qed

text \<open>
  Blocks that leave packets alone compose: \<open>block rs d\<close> says the rules \<open>rs\<close> decide each packet
  as \<open>d\<close> says and change none.
\<close>

definition block :: "nft_rule list \<Rightarrow> (packet \<Rightarrow> nft_verdict option) \<Rightarrow> bool" where
  "block rs d \<longleftrightarrow> (\<forall>p. run_rules rs p = (p, d p))"

lemma block_run: "block rs d \<Longrightarrow> run_rules rs p = (p, d p)"
  by (simp add: block_def)

lemma block_Nil: "block [] (\<lambda>_. None)"
  by (simp add: block_def)

lemma block_append:
  "block xs d \<Longrightarrow> block ys e \<Longrightarrow> block (xs @ ys) (\<lambda>p. case d p of Some v \<Rightarrow> Some v | None \<Rightarrow> e p)"
  by (auto simp: block_def split: option.splits)

lemma block_decides: "decides r P v \<Longrightarrow> block [r] (\<lambda>p. if P p then Some v else None)"
  by (simp add: block_def decides_def)

lemma block_map:
  "(\<And>x. x \<in> set xs \<Longrightarrow> decides (f x) (P x) v) \<Longrightarrow>
     block (map f xs) (\<lambda>p. if \<exists>x \<in> set xs. P x p then Some v else None)"
  unfolding block_def by (intro allI run_rules_all_accept)

end
