(* ===== verification/Nft_Rules.thy ===== *)
theory Nft_Rules
  imports Tailnet Nft_Semantics
begin

text \<open>
  The rules the Linux firewall emits for a policy
  (\<open>talpid-core/src/firewall/linux.rs\<close>, \<open>PolicyBatch\<close> and the free functions below it). A rule is
  the list of the expressions added to it, a batch the list of the rules in the order they are
  added, each with its chain. What the code asks the machine or a library for comes with the
  \<open>host\<close> record: interface indexes, network masks and membership, the host's interfaces, the
  tunnel gateway's address, and the build's and the process's switches.
\<close>

record host =
  h_iface_index :: "string \<Rightarrow> nat option"
  h_net_mask :: "IpNetwork \<Rightarrow> nat"
  h_net_contains :: "IpNetwork \<Rightarrow> IpAddr \<Rightarrow> bool"
  h_interfaces :: "HostInterface list option"
  h_gateway :: IpAddr
  h_add_counters :: bool
  h_feature_cgroup2 :: bool

datatype fw_error =
    NetlinkOpenError
  | NetlinkSendError
  | NetlinkRecvError
  | ProcessNetlinkError
  | NetfilterTableNotSetError
  | NetfilterTableStillPresentError
  | LookupIfaceIndexError string

datatype Direction = In | Out

datatype End = Src | Dst

datatype nft_chain =
    InChain | OutChain | ForwardChain | PreroutingChain | MangleChain | NatChain | PostroutingChain

type_synonym nft_msg = "nft_chain \<times> nft_rule"

text \<open>The control groups are known to the rules by their inode alone.\<close>

record Firewall =
  fw_fwmark :: "32 word"
  fw_excluded_cgroup2 :: "nat option"
  fw_net_cls :: "32 word option"
  fw_included_cgroup2 :: "nat option"
  fw_include_only :: bool
  fw_reset_on_drop :: bool

text \<open>The policies of the chains, set when the batch is created.\<close>

fun chain_policy :: "nft_chain \<Rightarrow> nft_verdict" where
  "chain_policy PreroutingChain = Accept"
| "chain_policy OutChain = Drop"
| "chain_policy InChain = Drop"
| "chain_policy ForwardChain = Drop"
| "chain_policy MangleChain = Accept"
| "chain_policy NatChain = Accept"
| "chain_policy PostroutingChain = Accept"

definition split_tunnel_MARK :: "32 word" where "split_tunnel_MARK = 0xf41"
definition INCLUDE_FWMARK :: "32 word" where "INCLUDE_FWMARK = 0x696e636c"
definition INCLUDE_CT_MARK :: "32 word" where "INCLUDE_CT_MARK = 0xf42"

section \<open>Expressions\<close>

definition add_verdict :: "host \<Rightarrow> nft_verdict \<Rightarrow> nft_rule" where
  "add_verdict h v = (if h_add_counters h then [Counter] else []) @ [VerdictE v]"

definition counter :: "host \<Rightarrow> nft_rule" where
  "counter h = (if h_add_counters h then [Counter] else [])"

definition iface_index :: "host \<Rightarrow> string \<Rightarrow> (fw_error, nat) result" where
  "iface_index h iface =
     (case h_iface_index h iface of
        Some i \<Rightarrow> Ok i
      | None \<Rightarrow> Err (LookupIfaceIndexError iface))"

definition iface_key :: "Direction \<Rightarrow> nft_key" where
  "iface_key d = (case d of In \<Rightarrow> MetaIif | Out \<Rightarrow> MetaOif)"

definition check_iface :: "host \<Rightarrow> Direction \<Rightarrow> string \<Rightarrow> (fw_error, nft_rule) result" where
  "check_iface h d iface =
     rbind (iface_index h iface) (\<lambda>i. Ok [Load (iface_key d), Cmp CmpEq i])"

definition check_not_iface :: "host \<Rightarrow> Direction \<Rightarrow> string \<Rightarrow> (fw_error, nft_rule) result" where
  "check_not_iface h d iface =
     rbind (iface_index h iface) (\<lambda>i. Ok [Load (iface_key d), Cmp CmpNeq i])"

definition ip_nat :: "IpAddr \<Rightarrow> nat" where
  "ip_nat ip = (case ip of V4 a \<Rightarrow> unat a | V6 a \<Rightarrow> unat a)"

definition l3proto :: "IpAddr \<Rightarrow> nat" where
  "l3proto ip = (case ip of V4 _ \<Rightarrow> nfproto_ipv4 | V6 _ \<Rightarrow> nfproto_ipv6)"

definition l4proto :: "TransportProtocol \<Rightarrow> nat" where
  "l4proto proto = (case proto of Udp \<Rightarrow> ipproto_udp | Tcp \<Rightarrow> ipproto_tcp)"

definition check_l3proto :: "IpAddr \<Rightarrow> nft_rule" where
  "check_l3proto ip = [Load MetaNfproto, Cmp CmpEq (l3proto ip)]"

definition check_l4proto :: "TransportProtocol \<Rightarrow> nft_rule" where
  "check_l4proto proto = [Load MetaL4proto, Cmp CmpEq (l4proto proto)]"

definition addr_key :: "IpAddr \<Rightarrow> End \<Rightarrow> nft_key" where
  "addr_key ip e =
     (case (ip, e) of
        (V4 _, Src) \<Rightarrow> Ipv4Saddr
      | (V4 _, Dst) \<Rightarrow> Ipv4Daddr
      | (V6 _, Src) \<Rightarrow> Ipv6Saddr
      | (V6 _, Dst) \<Rightarrow> Ipv6Daddr)"

definition check_net :: "host \<Rightarrow> End \<Rightarrow> IpNetwork \<Rightarrow> nft_rule" where
  "check_net h e net =
     check_l3proto (net_ip net) @ [Load (addr_key (net_ip net) e)] @
     [BitwiseMask (h_net_mask h net)] @ [Cmp CmpEq (ip_nat (net_ip net))]"

definition check_icmpv6 :: "nat \<Rightarrow> nat \<Rightarrow> nft_rule" where
  "check_icmpv6 ty code =
     [Load MetaL4proto, Cmp CmpEq ipproto_icmpv6, Load Icmpv6Type, Cmp CmpEq ty,
      Load Icmpv6Code, Cmp CmpEq code]"

definition check_ip :: "End \<Rightarrow> IpAddr \<Rightarrow> nft_rule" where
  "check_ip e ip = check_l3proto ip @ [Load (addr_key ip e)] @ [Cmp CmpEq (ip_nat ip)]"

definition port_key :: "TransportProtocol \<Rightarrow> End \<Rightarrow> nft_key" where
  "port_key proto e =
     (case (proto, e) of
        (Udp, Src) \<Rightarrow> UdpSport
      | (Udp, Dst) \<Rightarrow> UdpDport
      | (Tcp, Src) \<Rightarrow> TcpSport
      | (Tcp, Dst) \<Rightarrow> TcpDport)"

definition check_port :: "TransportProtocol \<Rightarrow> End \<Rightarrow> 16 word \<Rightarrow> nft_rule" where
  "check_port proto e port =
     check_l4proto proto @ [Load (port_key proto e)] @ [Cmp CmpEq (unat port)]"

definition check_endpoint :: "End \<Rightarrow> Endpoint \<Rightarrow> nft_rule" where
  "check_endpoint e endpoint =
     check_ip e (sock_ip (ep_address endpoint)) @
     check_port (ep_protocol endpoint) e (sock_port (ep_address endpoint))"

definition check_ct_established :: nft_rule where
  "check_ct_established = [Load CtState, BitwiseMask ct_established_bit, Cmp CmpNeq 0]"

definition check_ct_included :: nft_rule where
  "check_ct_included = [Load CtMark, Cmp CmpEq (unat INCLUDE_CT_MARK)]"

definition set_include_marks :: "host \<Rightarrow> nft_rule" where
  "set_include_marks h =
     [Immediate (unat INCLUDE_CT_MARK), CtMarkSet, Immediate (unat INCLUDE_FWMARK), MetaMarkSet] @
     counter h"

definition check_skuid_root :: nft_rule where
  "check_skuid_root = [Load MetaSkuid, Cmp CmpEq (unat ROOT_UID)]"

definition check_ct_mark :: "32 word \<Rightarrow> nft_rule" where
  "check_ct_mark m = [Load CtMark, Cmp CmpEq (unat m)]"

definition rmsg :: "nft_chain \<Rightarrow> (fw_error, nft_rule) result \<Rightarrow> (fw_error, nft_msg list) result" where
  "rmsg c r = rbind r (\<lambda>x. Ok [(c, x)])"

definition allow_interface_rule :: "host \<Rightarrow> Direction \<Rightarrow> string \<Rightarrow> (fw_error, nft_rule) result" where
  "allow_interface_rule h d iface = rbind (check_iface h d iface) (\<lambda>e. Ok (e @ add_verdict h Accept))"

definition allow_tunnel_dns_rule ::
    "host \<Rightarrow> string \<Rightarrow> TransportProtocol \<Rightarrow> IpAddr \<Rightarrow> (fw_error, nft_rule) result" where
  "allow_tunnel_dns_rule h iface proto host_ip =
     rbind (check_iface h Out iface) (\<lambda>e.
       Ok (e @ check_port proto Dst 53 @ check_l3proto host_ip @
           [Load (addr_key host_ip Dst), Cmp CmpEq (ip_nat host_ip)] @ add_verdict h Accept))"

section \<open>Rules every policy carries\<close>

definition add_loopback_rules :: "host \<Rightarrow> (fw_error, nft_msg list) result" where
  "add_loopback_rules h =
     rappend (rmsg OutChain (allow_interface_rule h Out ''lo''))
             (rmsg InChain (allow_interface_rule h In ''lo''))"

definition for_chains :: "nft_chain list \<Rightarrow> nft_rule \<Rightarrow> nft_msg list" where
  "for_chains cs r = map (\<lambda>c. (c, r)) cs"

definition add_dhcp_client_rules :: "host \<Rightarrow> nft_msg list" where
  "add_dhcp_client_rules h =
     for_chains [OutChain, ForwardChain]
       (check_port Udp Src DHCPV4_CLIENT_PORT @ check_ip Dst (V4 (ipv4_new 255 255 255 255)) @
        check_port Udp Dst DHCPV4_SERVER_PORT @ add_verdict h Accept) @
     for_chains [InChain, ForwardChain]
       (check_port Udp Src DHCPV4_SERVER_PORT @ check_port Udp Dst DHCPV4_CLIENT_PORT @
        add_verdict h Accept) @
     concat (map (\<lambda>c. map (\<lambda>dhcpv6_server.
       (c, check_net h Src IPV6_LINK_LOCAL @ check_port Udp Src DHCPV6_CLIENT_PORT @
           check_ip Dst dhcpv6_server @ check_port Udp Dst DHCPV6_SERVER_PORT @
           add_verdict h Accept)) DHCPV6_SERVER_ADDRS) [OutChain, ForwardChain]) @
     for_chains [InChain, ForwardChain]
       (check_net h Src IPV6_LINK_LOCAL @ check_port Udp Src DHCPV6_SERVER_PORT @
        check_net h Dst IPV6_LINK_LOCAL @ check_port Udp Dst DHCPV6_CLIENT_PORT @
        add_verdict h Accept)"

definition add_ndp_rules :: "host \<Rightarrow> nft_msg list" where
  "add_ndp_rules h =
     for_chains [OutChain, ForwardChain]
       (check_ip Dst ROUTER_SOLICITATION_OUT_DST_ADDR @ check_icmpv6 133 0 @ add_verdict h Accept) @
     for_chains [InChain, ForwardChain]
       (check_net h Src IPV6_LINK_LOCAL @ check_icmpv6 134 0 @ add_verdict h Accept) @
     for_chains [InChain, ForwardChain]
       (check_net h Src IPV6_LINK_LOCAL @ check_icmpv6 137 0 @ add_verdict h Accept) @
     for_chains [OutChain, ForwardChain]
       (check_net h Dst SOLICITED_NODE_MULTICAST @ check_icmpv6 135 0 @ add_verdict h Accept) @
     for_chains [OutChain, ForwardChain]
       (check_net h Dst IPV6_LINK_LOCAL @ check_icmpv6 135 0 @ add_verdict h Accept) @
     for_chains [InChain, ForwardChain]
       (check_net h Src IPV6_LINK_LOCAL @ check_icmpv6 135 0 @ add_verdict h Accept) @
     for_chains [OutChain, ForwardChain]
       (check_net h Dst IPV6_LINK_LOCAL @ check_icmpv6 136 0 @ add_verdict h Accept) @
     for_chains [InChain, ForwardChain]
       (check_icmpv6 136 0 @ add_verdict h Accept)"

section \<open>Split tunneling (exclusion)\<close>

definition add_actual_split_tunneling_rules ::
    "host \<Rightarrow> FirewallPolicy \<Rightarrow> 32 word \<Rightarrow> nft_rule \<Rightarrow> (fw_error, nft_msg list) result" where
  "add_actual_split_tunneling_rules h policy fwmark selector =
     rconcat
      [case policy of
         Connected _ tunnel _ _ dns_config \<Rightarrow>
           rconcat (map (\<lambda>server.
             rappend (rmsg MangleChain (allow_tunnel_dns_rule h (tm_interface tunnel) Udp server))
                     (rmsg MangleChain (allow_tunnel_dns_rule h (tm_interface tunnel) Tcp server)))
             (allowed_tunnel_dns (h_gateway h) dns_config))
       | _ \<Rightarrow> Ok [],
       Ok [(MangleChain,
            selector @ [Immediate (unat split_tunnel_MARK), CtMarkSet, Immediate (unat fwmark),
                        MetaMarkSet] @ counter h)],
       Ok (for_chains [InChain, OutChain, ForwardChain]
             (check_ct_mark split_tunnel_MARK @ add_verdict h Accept)),
       (case policy of
          Connected _ tunnel _ _ _ \<Rightarrow>
            rmsg NatChain (rbind (check_iface h Out (tm_interface tunnel)) (\<lambda>e.
              Ok (e @ check_ct_mark split_tunnel_MARK @ add_verdict h Drop)))
        | _ \<Rightarrow> Ok []),
       rmsg NatChain (rbind (iface_index h ''lo'') (\<lambda>i.
         Ok ([Load MetaOif, Cmp CmpNeq i] @ check_ct_mark split_tunnel_MARK @ [Masquerade] @
             counter h))),
       (case policy of
          Connected _ tunnel _ _ _ \<Rightarrow>
            rmsg PreroutingChain (rbind (check_not_iface h In (tm_interface tunnel)) (\<lambda>e.
              Ok (e @ check_ct_mark split_tunnel_MARK @ [Immediate (unat fwmark), MetaMarkSet] @
                  counter h)))
        | _ \<Rightarrow> Ok [])]"

definition add_split_tunneling_rules ::
    "host \<Rightarrow> FirewallPolicy \<Rightarrow> Firewall \<Rightarrow> (fw_error, nft_msg list) result" where
  "add_split_tunneling_rules h policy fw =
     (case (h_feature_cgroup2 h, fw_excluded_cgroup2 fw) of
        (True, Some inode) \<Rightarrow>
          add_actual_split_tunneling_rules h policy (fw_fwmark fw)
            [Load (SocketCgroupv2 1), Cmp CmpEq inode]
      | _ \<Rightarrow>
          (case fw_net_cls fw of
             Some net_cls \<Rightarrow>
               add_actual_split_tunneling_rules h policy (fw_fwmark fw)
                 [Load MetaCgroup, Cmp CmpEq (unat net_cls)]
           | None \<Rightarrow> Ok []))"

section \<open>Rules of one policy\<close>

definition add_allow_tunnel_endpoint_rules :: "host \<Rightarrow> AllowedEndpoint \<Rightarrow> 32 word \<Rightarrow> nft_msg list" where
  "add_allow_tunnel_endpoint_rules h endpoint fwmark =
     [(PreroutingChain,
       check_endpoint Src (ae_endpoint endpoint) @ [Immediate (unat fwmark), MetaMarkSet] @ counter h),
      (InChain,
       check_endpoint Src (ae_endpoint endpoint) @ check_ct_established @ add_verdict h Accept),
      (OutChain,
       check_endpoint Dst (ae_endpoint endpoint) @ [Load MetaMark, Cmp CmpEq (unat fwmark)] @
       add_verdict h Accept),
      (OutChain,
       check_endpoint Dst (ae_endpoint endpoint) @ check_skuid_root @ add_verdict h Accept)] @
     (if clients_allow_all (ae_clients endpoint)
      then [(MangleChain,
             check_endpoint Dst (ae_endpoint endpoint) @
             [Immediate (unat split_tunnel_MARK), CtMarkSet, Immediate (unat fwmark), MetaMarkSet])]
      else [])"

definition add_allow_endpoint_rules :: "host \<Rightarrow> AllowedEndpoint \<Rightarrow> nft_msg list" where
  "add_allow_endpoint_rules h endpoint =
     [(InChain,
       check_endpoint Src (ae_endpoint endpoint) @ check_ct_established @
       (if clients_allow_all (ae_clients endpoint) then [] else check_skuid_root) @
       add_verdict h Accept),
      (OutChain,
       check_endpoint Dst (ae_endpoint endpoint) @
       (if clients_allow_all (ae_clients endpoint) then [] else check_skuid_root) @
       add_verdict h Accept)]"

definition add_allow_tunnel_dns_rule ::
    "host \<Rightarrow> string \<Rightarrow> TransportProtocol \<Rightarrow> IpAddr \<Rightarrow> (fw_error, nft_msg list) result" where
  "add_allow_tunnel_dns_rule h interface proto host_ip =
     rconcat (map (\<lambda>c. rmsg c (allow_tunnel_dns_rule h interface proto host_ip))
       [OutChain, ForwardChain])"

definition add_allow_local_dns_rule ::
    "host \<Rightarrow> string \<Rightarrow> TransportProtocol \<Rightarrow> IpAddr \<Rightarrow> (fw_error, nft_msg list) result" where
  "add_allow_local_dns_rule h tunnel_interface proto host_ip =
     rconcat (map (\<lambda>(c, direction).
       let e = (case direction of In \<Rightarrow> Src | Out \<Rightarrow> Dst) in
       rmsg c (rbind (check_not_iface h direction tunnel_interface) (\<lambda>es.
         Ok (es @ check_port proto e 53 @ check_l3proto host_ip @
             [Load (addr_key host_ip e), Cmp CmpEq (ip_nat host_ip)] @
             (case direction of In \<Rightarrow> check_ct_established | Out \<Rightarrow> []) @
             add_verdict h Accept))))
       [(OutChain, Out), (ForwardChain, Out), (InChain, In), (ForwardChain, In)])"

definition add_drop_dns_rule :: "host \<Rightarrow> nft_msg list" where
  "add_drop_dns_rule h =
     concat (map (\<lambda>c.
       [(c, check_port Udp Dst 53 @ add_verdict h (Reject IcmpPortUnreach)),
        (c, check_port Tcp Dst 53 @ add_verdict h (Reject TcpRst))])
       [OutChain, ForwardChain])"

definition add_allow_in_tunnel_endpoint_rules ::
    "host \<Rightarrow> string \<Rightarrow> Endpoint \<Rightarrow> (fw_error, nft_msg list) result" where
  "add_allow_in_tunnel_endpoint_rules h tunnel_interface endpoint =
     rconcat (map (\<lambda>(c, dir, e).
       rmsg c (rbind (check_iface h dir tunnel_interface) (\<lambda>es.
         Ok (es @ check_ip e (sock_ip (ep_address endpoint)) @
             check_port (ep_protocol endpoint) e (sock_port (ep_address endpoint)) @
             add_verdict h Accept))))
       [(OutChain, Out, Dst), (InChain, In, Src)])"

definition tailnet_interfaces :: "host \<Rightarrow> FirewallPolicy \<Rightarrow> string list" where
  "tailnet_interfaces h policy =
     (case policy of
        Connected _ tunnel _ _ _ \<Rightarrow>
          current_coexisting_tailnet_interfaces (h_net_contains h) (h_interfaces h)
            (Some (tm_interface tunnel))
      | Connecting _ (Some tunnel) _ _ _ _ \<Rightarrow>
          current_coexisting_tailnet_interfaces (h_net_contains h) (h_interfaces h)
            (Some (tm_interface tunnel))
      | _ \<Rightarrow> [])"

definition add_allow_tailnet_rules :: "host \<Rightarrow> string list \<Rightarrow> (fw_error, nft_msg list) result" where
  "add_allow_tailnet_rules h interfaces =
     (let set = btree_set (filter (\<lambda>name. h_iface_index h name \<noteq> None) interfaces) in
      rconcat (map (\<lambda>pass.
        let (c, direction, e) =
          (case tp_direction pass of PassOut \<Rightarrow> (OutChain, Out, Dst) | PassIn \<Rightarrow> (InChain, In, Src)) in
        rmsg c (rbind (check_iface h direction (tp_interface pass)) (\<lambda>es.
          Ok (es @ check_net h e (tp_net pass) @ add_verdict h Accept))))
        (tailnet_passes set)))"

definition add_allow_tunnel_rules :: "host \<Rightarrow> string \<Rightarrow> (fw_error, nft_msg list) result" where
  "add_allow_tunnel_rules h tunnel_interface =
     rconcat
      [rmsg OutChain (allow_interface_rule h Out tunnel_interface),
       rmsg ForwardChain (allow_interface_rule h Out tunnel_interface),
       rmsg InChain (allow_interface_rule h In tunnel_interface),
       rmsg ForwardChain (rbind (check_iface h In tunnel_interface) (\<lambda>es.
         Ok (es @ check_ct_established @ add_verdict h Accept)))]"

definition add_block_cve_2019_14899 :: "host \<Rightarrow> TunnelMetadata \<Rightarrow> nft_msg list" where
  "add_block_cve_2019_14899 h tunnel =
     map (\<lambda>tunnel_ip. (InChain, check_ip Dst tunnel_ip @ add_verdict h Drop)) (tm_ips tunnel)"

definition add_dhcp_server_rules :: "host \<Rightarrow> nft_msg list" where
  "add_dhcp_server_rules h =
     [(OutChain,
       check_port Udp Src DHCPV4_SERVER_PORT @ check_port Udp Dst DHCPV4_CLIENT_PORT @
       add_verdict h Accept),
      (InChain,
       check_port Udp Src DHCPV4_CLIENT_PORT @
       check_endpoint Dst (endpoint_new (V4 (ipv4_new 255 255 255 255)) DHCPV4_SERVER_PORT Udp) @
       add_verdict h Accept)]"

definition add_allow_lan_rules :: "host \<Rightarrow> IpNetwork list \<Rightarrow> nft_msg list" where
  "add_allow_lan_rules h lan_networks =
     concat (map (\<lambda>c.
       map (\<lambda>net. (c, check_net h Dst net @ add_verdict h Accept)) lan_networks @
       map (\<lambda>net. (c, check_net h Dst net @ add_verdict h Accept)) ALLOWED_LAN_MULTICAST_NETS)
       [OutChain, ForwardChain]) @
     map (\<lambda>net. (InChain, check_net h Src net @ add_verdict h Accept)) lan_networks @
     add_dhcp_server_rules h"

section \<open>Include-only\<close>

datatype IncludeRule =
    TunnelDnsAsIncluded IpAddr
  | MarkIncludedSockets
  | RemarkIncludedConnections
  | RejectIncluded
  | AcceptIncludedDns IpAddr
  | RejectIncludedOtherDns
  | AcceptIncluded
  | DropIncludedOffTunnel "string option"
  | DropIncludedArrivingOffTunnel "string option"
  | DropArrivalsForIncludedSockets "string option"
  | RemarkIncludedReplies string
  | MasqueradeIncludedIntoTunnel string
  | BlockTunnelAddressProbes TunnelMetadata
  | AcceptNotIncluded

fun policy_tunnel :: "FirewallPolicy \<Rightarrow> TunnelMetadata option" where
  "policy_tunnel (Connecting _ tunnel _ _ _ _) = tunnel"
| "policy_tunnel (Connected _ tunnel _ _ _) = Some tunnel"
| "policy_tunnel (Blocked _ _ _) = None"

definition include_only_head :: "host \<Rightarrow> FirewallPolicy \<Rightarrow> IncludeRule list" where
  "include_only_head h policy =
     (let connected = (case policy of
            Connected _ tunnel _ _ dns_config \<Rightarrow> Some (tm_interface tunnel, dns_config)
          | _ \<Rightarrow> None);
          tunnel = map_option fst connected
      in
      (case connected of
         Some (_, dns_config) \<Rightarrow>
           map TunnelDnsAsIncluded (allowed_tunnel_dns (h_gateway h) dns_config)
       | None \<Rightarrow> []) @
      [MarkIncludedSockets, RemarkIncludedConnections] @
      (case connected of
         Some (_, dns_config) \<Rightarrow>
           (if \<not> rd_allow_external_dns dns_config
            then map AcceptIncludedDns (allowed_tunnel_dns (h_gateway h) dns_config) @
                 [RejectIncludedOtherDns]
            else []) @
           [AcceptIncluded]
       | None \<Rightarrow> [RejectIncluded]) @
      [DropIncludedOffTunnel tunnel, DropIncludedArrivingOffTunnel tunnel,
       DropArrivalsForIncludedSockets tunnel] @
      (case tunnel of
         Some t \<Rightarrow> [RemarkIncludedReplies t, MasqueradeIncludedIntoTunnel t]
       | None \<Rightarrow> []))"

definition include_only_tail :: "FirewallPolicy \<Rightarrow> IncludeRule list" where
  "include_only_tail policy =
     (case policy_tunnel policy of Some tunnel \<Rightarrow> [BlockTunnelAddressProbes tunnel] | None \<Rightarrow> []) @
     [AcceptNotIncluded]"

text \<open>\<open>check_not_iface\<close> for an optional tunnel interface.\<close>

definition check_not_tunnel :: "host \<Rightarrow> Direction \<Rightarrow> string option \<Rightarrow> (fw_error, nft_rule) result" where
  "check_not_tunnel h d tunnel =
     (case tunnel of Some t \<Rightarrow> check_not_iface h d t | None \<Rightarrow> Ok [])"

fun add_include_only_rule ::
    "host \<Rightarrow> IncludeRule \<Rightarrow> nat option \<Rightarrow> (fw_error, nft_msg list) result" where
  "add_include_only_rule h (TunnelDnsAsIncluded server) _ =
     Ok [(MangleChain, check_ip Dst server @ set_include_marks h)]"
| "add_include_only_rule h MarkIncludedSockets cgroup =
     (case cgroup of
        None \<Rightarrow> Ok []
      | Some inode \<Rightarrow>
          Ok [(MangleChain, [Load (SocketCgroupv2 1), Cmp CmpEq inode] @ set_include_marks h)])"
| "add_include_only_rule h RemarkIncludedConnections _ =
     Ok [(MangleChain, check_ct_included @ [Immediate (unat INCLUDE_FWMARK), MetaMarkSet])]"
| "add_include_only_rule h RejectIncluded _ =
     Ok [(OutChain, check_ct_included @ add_verdict h (Reject IcmpPortUnreach))]"
| "add_include_only_rule h (AcceptIncludedDns server) _ =
     Ok (map (\<lambda>proto. (OutChain, check_ct_included @ check_port proto Dst 53 @ check_ip Dst server @
           add_verdict h Accept)) [Udp, Tcp])"
| "add_include_only_rule h RejectIncludedOtherDns _ =
     Ok (map (\<lambda>proto. (OutChain, check_ct_included @ check_port proto Dst 53 @
           add_verdict h (Reject IcmpPortUnreach))) [Udp, Tcp])"
| "add_include_only_rule h AcceptIncluded _ =
     Ok [(OutChain, check_ct_included @ add_verdict h Accept)]"
| "add_include_only_rule h (DropIncludedOffTunnel tunnel) _ =
     rmsg PostroutingChain (rbind (check_not_iface h Out ''lo'') (\<lambda>lo.
       rbind (check_not_tunnel h Out tunnel) (\<lambda>es.
         Ok (lo @ es @ check_ct_included @ add_verdict h Drop))))"
| "add_include_only_rule h (DropIncludedArrivingOffTunnel tunnel) _ =
     rmsg InChain (rbind (check_not_tunnel h In tunnel) (\<lambda>es.
       Ok (es @ check_ct_included @ add_verdict h Drop)))"
| "add_include_only_rule h (DropArrivalsForIncludedSockets tunnel) cgroup =
     (case cgroup of
        None \<Rightarrow> Ok []
      | Some inode \<Rightarrow>
          rmsg InChain (rbind (check_not_tunnel h In tunnel) (\<lambda>es.
            Ok (es @ [Load (SocketCgroupv2 1), Cmp CmpEq inode] @ add_verdict h Drop))))"
| "add_include_only_rule h (RemarkIncludedReplies tunnel) _ =
     rmsg PreroutingChain (rbind (check_iface h In tunnel) (\<lambda>es.
       Ok (es @ check_ct_included @ [Immediate (unat INCLUDE_FWMARK), MetaMarkSet])))"
| "add_include_only_rule h (MasqueradeIncludedIntoTunnel tunnel) _ =
     rmsg NatChain (rbind (check_iface h Out tunnel) (\<lambda>es.
       Ok (es @ check_ct_included @ [Masquerade])))"
| "add_include_only_rule h (BlockTunnelAddressProbes tunnel) _ =
     Ok (add_block_cve_2019_14899 h tunnel)"
| "add_include_only_rule h AcceptNotIncluded _ =
     Ok (for_chains [OutChain, ForwardChain, InChain]
           ([Load CtMark, Cmp CmpNeq (unat INCLUDE_CT_MARK)] @ add_verdict h Accept))"

section \<open>The whole batch\<close>

definition policy_rules ::
    "host \<Rightarrow> FirewallPolicy \<Rightarrow> 32 word \<Rightarrow> (fw_error, nft_msg list) result" where
  "policy_rules h policy fwmark =
     (case policy of
        Connecting peer_endpoints tunnel allow_lan _ allowed_endpoint allowed_tunnel_traffic \<Rightarrow>
          rconcat
           [Ok (concat (map (\<lambda>e. add_allow_tunnel_endpoint_rules h e fwmark) peer_endpoints)),
            Ok (add_allow_endpoint_rules h allowed_endpoint),
            add_allow_tailnet_rules h (tailnet_interfaces h policy),
            Ok (add_drop_dns_rule h),
            (case tunnel of
               Some t \<Rightarrow>
                 rappend
                  (case allowed_tunnel_traffic of
                     TrafficAll \<Rightarrow> add_allow_tunnel_rules h (tm_interface t)
                   | TrafficNone \<Rightarrow> Ok []
                   | TrafficOne e \<Rightarrow> add_allow_in_tunnel_endpoint_rules h (tm_interface t) e
                   | TrafficTwo e1 e2 \<Rightarrow>
                       rappend (add_allow_in_tunnel_endpoint_rules h (tm_interface t) e1)
                               (add_allow_in_tunnel_endpoint_rules h (tm_interface t) e2))
                  (Ok (if allow_lan then add_block_cve_2019_14899 h t else []))
             | None \<Rightarrow> Ok [])]
      | Connected peer_endpoints tunnel allow_lan _ dns_config \<Rightarrow>
          rconcat
           [Ok (concat (map (\<lambda>e. add_allow_tunnel_endpoint_rules h e fwmark) peer_endpoints)),
            rconcat (map (\<lambda>server.
              rappend (add_allow_tunnel_dns_rule h (tm_interface tunnel) Udp server)
                      (add_allow_tunnel_dns_rule h (tm_interface tunnel) Tcp server))
              (allowed_tunnel_dns (h_gateway h) dns_config)),
            rconcat (map (\<lambda>server.
              rappend (add_allow_local_dns_rule h (tm_interface tunnel) Udp server)
                      (add_allow_local_dns_rule h (tm_interface tunnel) Tcp server))
              (rd_non_tunnel_config dns_config)),
            add_allow_tailnet_rules h (tailnet_interfaces h policy),
            Ok (if \<not> rd_allow_external_dns dns_config then add_drop_dns_rule h else []),
            add_allow_tunnel_rules h (tm_interface tunnel),
            Ok (if allow_lan then add_block_cve_2019_14899 h tunnel else [])]
      | Blocked _ _ allowed_endpoint \<Rightarrow>
          rconcat
           [Ok (case allowed_endpoint of Some e \<Rightarrow> add_allow_endpoint_rules h e | None \<Rightarrow> []),
            Ok (add_drop_dns_rule h)])"

definition add_policy_specific_rules ::
    "host \<Rightarrow> FirewallPolicy \<Rightarrow> 32 word \<Rightarrow> bool \<Rightarrow> (fw_error, nft_msg list) result" where
  "add_policy_specific_rules h policy fwmark include_only =
     rconcat
      [policy_rules h policy fwmark,
       Ok (if fp_allow_lan policy then add_allow_lan_rules h (fp_lan_networks policy) else []),
       (if include_only
        then rconcat (map (\<lambda>r. add_include_only_rule h r None) (include_only_tail policy))
        else Ok []),
       Ok (for_chains [OutChain, ForwardChain] (add_verdict h (Reject IcmpPortUnreach)))]"

definition finalize :: "host \<Rightarrow> FirewallPolicy \<Rightarrow> Firewall \<Rightarrow> (fw_error, nft_msg list) result" where
  "finalize h policy fw =
     rconcat
      [add_loopback_rules h,
       (if fw_include_only fw
        then rconcat (map (\<lambda>r. add_include_only_rule h r (fw_included_cgroup2 fw))
               (include_only_head h policy))
        else add_split_tunneling_rules h policy fw),
       Ok (add_dhcp_client_rules h),
       Ok (add_ndp_rules h),
       add_policy_specific_rules h policy (fw_fwmark fw) (fw_include_only fw)]"

text \<open>The rules of one chain, in order.\<close>

definition chain_rules :: "nft_chain \<Rightarrow> nft_msg list \<Rightarrow> nft_rule list" where
  "chain_rules c msgs = map snd (filter (\<lambda>m. fst m = c) msgs)"

end
