(* ===== verification/Nft_Filter.thy ===== *)
theory Nft_Filter
  imports Nft_Rules
begin

text \<open>
  What the emitted rules do to packets. Each group of rules of \<open>Nft_Rules\<close> is shown to be a
  cascade of tests on the output chain; the cascades compose to the verdict of the whole chain
  (\<open>out_verdict\<close>), characterised per policy.
\<close>

unbundle bit_operations_syntax

section \<open>Packet tests\<close>

definition pk_addr :: "End \<Rightarrow> packet \<Rightarrow> nat" where
  "pk_addr e p = (case e of Src \<Rightarrow> pk_saddr p | Dst \<Rightarrow> pk_daddr p)"

definition pk_port :: "End \<Rightarrow> packet \<Rightarrow> nat" where
  "pk_port e p = (case e of Src \<Rightarrow> pk_sport p | Dst \<Rightarrow> pk_dport p)"

definition pk_if :: "Direction \<Rightarrow> packet \<Rightarrow> nat" where
  "pk_if d p = (case d of In \<Rightarrow> pk_iif p | Out \<Rightarrow> pk_oif p)"

definition on_iface :: "host \<Rightarrow> Direction \<Rightarrow> string \<Rightarrow> packet \<Rightarrow> bool" where
  "on_iface h d iface p \<longleftrightarrow> h_iface_index h iface = Some (pk_if d p)"

definition at_ip :: "End \<Rightarrow> IpAddr \<Rightarrow> packet \<Rightarrow> bool" where
  "at_ip e ip p \<longleftrightarrow> pk_nfproto p = l3proto ip \<and> pk_addr e p = ip_nat ip"

definition in_net :: "host \<Rightarrow> End \<Rightarrow> IpNetwork \<Rightarrow> packet \<Rightarrow> bool" where
  "in_net h e net p \<longleftrightarrow>
     pk_nfproto p = l3proto (net_ip net) \<and> pk_addr e p AND h_net_mask h net = ip_nat (net_ip net)"

definition at_port :: "TransportProtocol \<Rightarrow> End \<Rightarrow> 16 word \<Rightarrow> packet \<Rightarrow> bool" where
  "at_port proto e port p \<longleftrightarrow> pk_l4proto p = l4proto proto \<and> pk_port e p = unat port"

definition at_endpoint :: "End \<Rightarrow> Endpoint \<Rightarrow> packet \<Rightarrow> bool" where
  "at_endpoint e ep p \<longleftrightarrow>
     at_ip e (sock_ip (ep_address ep)) p \<and> at_port (ep_protocol ep) e (sock_port (ep_address ep)) p"

definition is_icmpv6 :: "nat \<Rightarrow> packet \<Rightarrow> bool" where
  "is_icmpv6 ty p \<longleftrightarrow>
     pk_l4proto p = ipproto_icmpv6 \<and> pk_icmp_type p = ty \<and> pk_icmp_code p = 0"

definition established :: "packet \<Rightarrow> bool" where
  "established p \<longleftrightarrow> pk_ct_state p AND ct_established_bit \<noteq> 0"

definition from_root :: "packet \<Rightarrow> bool" where
  "from_root p \<longleftrightarrow> pk_skuid p = Some 0"

definition has_ct_mark :: "32 word \<Rightarrow> packet \<Rightarrow> bool" where
  "has_ct_mark m p \<longleftrightarrow> pk_ct_mark p = unat m"

definition is_dns :: "packet \<Rightarrow> bool" where
  "is_dns p \<longleftrightarrow> at_port Udp Dst 53 p \<or> at_port Tcp Dst 53 p"

section \<open>Expressions as tests\<close>

lemma eval_add_verdict [simp]: "eval_exprs (add_verdict h v) reg p = (p, Some v)"
  by (simp add: add_verdict_def)

lemma eval_check_l3proto [simp]:
  "eval_exprs (check_l3proto ip @ es) reg p =
     (if pk_nfproto p = l3proto ip then eval_exprs es (l3proto ip) p else (p, None))"
  by (simp add: check_l3proto_def)

lemma load_addr_key:
  "pk_nfproto p = l3proto ip \<Longrightarrow> load_key (addr_key ip e) p = Some (pk_addr e p)"
  by (cases ip; cases e) (simp_all add: addr_key_def l3proto_def pk_addr_def)

lemma eval_check_ip [simp]:
  "eval_exprs (check_ip e ip @ es) reg p =
     (if at_ip e ip p then eval_exprs es (ip_nat ip) p else (p, None))"
  by (simp add: check_ip_def at_ip_def load_addr_key)

lemma eval_check_net [simp]:
  "eval_exprs (check_net h e net @ es) reg p =
     (if in_net h e net p then eval_exprs es (ip_nat (net_ip net)) p else (p, None))"
  by (simp add: check_net_def in_net_def load_addr_key)

lemma load_port_key:
  "pk_l4proto p = l4proto proto \<Longrightarrow> load_key (port_key proto e) p = Some (pk_port e p)"
  by (cases proto; cases e) (simp_all add: port_key_def l4proto_def pk_port_def)

lemma eval_check_port [simp]:
  "eval_exprs (check_port proto e port @ es) reg p =
     (if at_port proto e port p then eval_exprs es (unat port) p else (p, None))"
  by (simp add: check_port_def check_l4proto_def at_port_def load_port_key)

lemma eval_check_endpoint [simp]:
  "eval_exprs (check_endpoint e ep @ es) reg p =
     (if at_endpoint e ep p then eval_exprs es (unat (sock_port (ep_address ep))) p else (p, None))"
  by (simp add: check_endpoint_def at_endpoint_def)

lemma eval_check_icmpv6 [simp]:
  "eval_exprs (check_icmpv6 ty 0 @ es) reg p =
     (if is_icmpv6 ty p then eval_exprs es 0 p else (p, None))"
  by (simp add: check_icmpv6_def is_icmpv6_def)

lemma eval_check_ct_established [simp]:
  "eval_exprs (check_ct_established @ es) reg p =
     (if established p then eval_exprs es (pk_ct_state p AND ct_established_bit) p else (p, None))"
  by (simp add: check_ct_established_def established_def)

lemma eval_check_ct_mark [simp]:
  "eval_exprs (check_ct_mark m @ es) reg p =
     (if has_ct_mark m p then eval_exprs es (unat m) p else (p, None))"
  by (simp add: check_ct_mark_def has_ct_mark_def)

lemma eval_check_ct_included [simp]:
  "eval_exprs (check_ct_included @ es) reg p =
     (if has_ct_mark INCLUDE_CT_MARK p then eval_exprs es (unat INCLUDE_CT_MARK) p else (p, None))"
  by (simp add: check_ct_included_def has_ct_mark_def)

lemma eval_check_skuid_root [simp]:
  "eval_exprs (check_skuid_root @ es) reg p =
     (if from_root p then eval_exprs es 0 p else (p, None))"
  by (auto simp: check_skuid_root_def from_root_def ROOT_UID_def split: option.splits)

lemma load_iface_key [simp]: "load_key (iface_key d) p = Some (pk_if d p)"
  by (cases d) (simp_all add: iface_key_def pk_if_def)

lemma check_iface_Inr:
  "check_iface h d iface = Inr es \<longleftrightarrow>
     (\<exists>i. h_iface_index h iface = Some i \<and> es = [Load (iface_key d), Cmp CmpEq i])"
  by (auto simp: check_iface_def iface_index_def split: option.splits)

lemma check_not_iface_Inr:
  "check_not_iface h d iface = Inr es \<longleftrightarrow>
     (\<exists>i. h_iface_index h iface = Some i \<and> es = [Load (iface_key d), Cmp CmpNeq i])"
  by (auto simp: check_not_iface_def iface_index_def split: option.splits)

section \<open>Cascades\<close>

type_synonym decision = "packet \<Rightarrow> nft_verdict option"

definition verdict_if :: "nft_verdict \<Rightarrow> (packet \<Rightarrow> bool) \<Rightarrow> decision" where
  "verdict_if v P = (\<lambda>p. if P p then Some v else None)"

primrec first_of :: "decision list \<Rightarrow> decision" where
  "first_of [] p = None"
| "first_of (d # ds) p = (case d p of Some v \<Rightarrow> Some v | None \<Rightarrow> first_of ds p)"

text \<open>The rules of a chain in a batch decide as \<open>d\<close> says.\<close>

definition behaves :: "nft_chain \<Rightarrow> nft_msg list \<Rightarrow> decision \<Rightarrow> bool" where
  "behaves c msgs d \<longleftrightarrow> block (chain_rules c msgs) d"

lemma chain_rules_simps [simp]:
  "chain_rules c [] = []"
  "chain_rules c ((c', r) # ms) = (if c' = c then r # chain_rules c ms else chain_rules c ms)"
  "chain_rules c (xs @ ys) = chain_rules c xs @ chain_rules c ys"
  by (simp_all add: chain_rules_def)

lemma chain_rules_for_chains [simp]:
  "chain_rules c (for_chains [] r) = []"
  "chain_rules c (for_chains (c' # cs) r) =
     (if c' = c then r # chain_rules c (for_chains cs r) else chain_rules c (for_chains cs r))"
  by (simp_all add: for_chains_def)

lemma chain_rules_map_same: "chain_rules c (map (\<lambda>x. (c, f x)) xs) = map f xs"
  by (induction xs) auto

lemma chain_rules_map_other: "c \<noteq> c' \<Longrightarrow> chain_rules c (map (\<lambda>x. (c', f x)) xs) = []"
  by (induction xs) auto

lemma chain_rules_concat: "chain_rules c (concat xss) = concat (map (chain_rules c) xss)"
  by (induction xss) auto

lemma behaves_Nil: "behaves c [] (first_of [])"
  by (auto simp: behaves_def block_def)

lemma behaves_Cons:
  "behaves c xs d \<Longrightarrow> behaves c ys (first_of ds) \<Longrightarrow> behaves c (xs @ ys) (first_of (d # ds))"
  by (auto simp: behaves_def block_def split: option.splits)

lemma behaves_none: "chain_rules c xs = [] \<Longrightarrow> behaves c xs (verdict_if v (\<lambda>_. False))"
  by (simp add: behaves_def block_def verdict_if_def)

lemma behaves_weaken: "behaves c xs d \<Longrightarrow> (\<And>p. d p = e p) \<Longrightarrow> behaves c xs e"
  by (simp add: behaves_def block_def)

text \<open>Blocks that all give the same verdict add up to one test.\<close>

lemma behaves_append_same:
  "behaves c xs (verdict_if v P) \<Longrightarrow> behaves c ys (verdict_if v Q) \<Longrightarrow>
     behaves c (xs @ ys) (verdict_if v (\<lambda>p. P p \<or> Q p))"
  by (auto simp: behaves_def block_def verdict_if_def)

lemma behaves_concat_same:
  assumes "\<And>x. x \<in> set xs \<Longrightarrow> behaves c (f x) (verdict_if v (P x))"
  shows "behaves c (concat (map f xs)) (verdict_if v (\<lambda>p. \<exists>x \<in> set xs. P x p))"
  using assms
proof (induction xs)
  case Nil
  then show ?case by (simp add: behaves_def block_def verdict_if_def)
next
  case (Cons x xs)
  have "behaves c (f x @ concat (map f xs))
     (verdict_if v (\<lambda>p. P x p \<or> (\<exists>y \<in> set xs. P y p)))"
    using Cons by (intro behaves_append_same) simp_all
  then show ?case by simp
qed

lemma behaves_rconcat_same:
  assumes "rconcat (map f xs) = Inr ms"
    and "\<And>x m. x \<in> set xs \<Longrightarrow> f x = Inr m \<Longrightarrow> behaves c m (verdict_if v (P x))"
  shows "behaves c ms (verdict_if v (\<lambda>p. \<exists>x \<in> set xs. P x p))"
  using assms
proof (induction xs arbitrary: ms)
  case Nil
  then show ?case by (simp add: behaves_def block_def verdict_if_def)
next
  case (Cons x xs)
  from Cons.prems(1) obtain m ms' where
    m: "f x = Inr m" and ms': "rconcat (map f xs) = Inr ms'" and ms: "ms = m @ ms'"
    by (auto simp: rappend_Inr_iff)
  have "behaves c (m @ ms') (verdict_if v (\<lambda>p. P x p \<or> (\<exists>y \<in> set xs. P y p)))"
    using Cons.IH [OF ms'] Cons.prems(2) m by (intro behaves_append_same) auto
  then show ?case by (simp add: ms)
qed

lemma behaves_single:
  "decides r P v \<Longrightarrow> behaves c [(c, r)] (verdict_if v P)"
  by (simp add: behaves_def block_decides verdict_if_def)

lemma behaves_map:
  assumes "\<And>x. x \<in> set xs \<Longrightarrow> decides (f x) (P x) v"
  shows "behaves c (map (\<lambda>x. (c, f x)) xs) (verdict_if v (\<lambda>p. \<exists>x \<in> set xs. P x p))"
  using assms by (simp add: behaves_def chain_rules_map_same verdict_if_def block_map)

end
