(* ===== verification/Nft_Out.thy ===== *)
theory Nft_Out
  imports Nft_Filter
begin

text \<open>
  The output chain, group by group: which packets each group of rules decides, and the verdict of
  the whole chain for the three policies.
\<close>

section \<open>The groups\<close>

definition split_active :: "host \<Rightarrow> Firewall \<Rightarrow> bool" where
  "split_active h fw \<longleftrightarrow>
     h_feature_cgroup2 h \<and> fw_excluded_cgroup2 fw \<noteq> None \<or> fw_net_cls fw \<noteq> None"

definition excluded :: "host \<Rightarrow> Firewall \<Rightarrow> packet \<Rightarrow> bool" where
  "excluded h fw p \<longleftrightarrow> split_active h fw \<and> has_ct_mark split_tunnel_MARK p"

definition dhcp_request :: "host \<Rightarrow> packet \<Rightarrow> bool" where
  "dhcp_request h p \<longleftrightarrow>
     at_port Udp Src DHCPV4_CLIENT_PORT p \<and> at_ip Dst (V4 (ipv4_new 255 255 255 255)) p \<and>
       at_port Udp Dst DHCPV4_SERVER_PORT p \<or>
     (\<exists>server \<in> set DHCPV6_SERVER_ADDRS.
       in_net h Src IPV6_LINK_LOCAL p \<and> at_port Udp Src DHCPV6_CLIENT_PORT p \<and>
       at_ip Dst server p \<and> at_port Udp Dst DHCPV6_SERVER_PORT p)"

definition ndp_out :: "host \<Rightarrow> packet \<Rightarrow> bool" where
  "ndp_out h p \<longleftrightarrow>
     at_ip Dst ROUTER_SOLICITATION_OUT_DST_ADDR p \<and> is_icmpv6 133 p \<or>
     in_net h Dst SOLICITED_NODE_MULTICAST p \<and> is_icmpv6 135 p \<or>
     in_net h Dst IPV6_LINK_LOCAL p \<and> is_icmpv6 135 p \<or>
     in_net h Dst IPV6_LINK_LOCAL p \<and> is_icmpv6 136 p"

definition to_peer :: "32 word \<Rightarrow> AllowedEndpoint \<Rightarrow> packet \<Rightarrow> bool" where
  "to_peer fwmark e p \<longleftrightarrow>
     at_endpoint Dst (ae_endpoint e) p \<and> (pk_mark p = unat fwmark \<or> from_root p)"

definition to_allowed :: "AllowedEndpoint \<Rightarrow> packet \<Rightarrow> bool" where
  "to_allowed e p \<longleftrightarrow>
     at_endpoint Dst (ae_endpoint e) p \<and> (clients_allow_all (ae_clients e) \<or> from_root p)"

definition to_tailnet :: "host \<Rightarrow> string list \<Rightarrow> packet \<Rightarrow> bool" where
  "to_tailnet h interfaces p \<longleftrightarrow>
     (\<exists>i \<in> set interfaces. on_iface h Out i p \<and>
        (in_net h Dst TAILNET_V4 p \<or> in_net h Dst TAILNET_V6 p))"

definition dns_to :: "IpAddr \<Rightarrow> packet \<Rightarrow> bool" where
  "dns_to server p \<longleftrightarrow> is_dns p \<and> at_ip Dst server p"

definition off_iface :: "host \<Rightarrow> Direction \<Rightarrow> string \<Rightarrow> packet \<Rightarrow> bool" where
  "off_iface h d iface p \<longleftrightarrow> (\<exists>i. h_iface_index h iface = Some i \<and> pk_if d p \<noteq> i)"

definition to_lan :: "host \<Rightarrow> IpNetwork list \<Rightarrow> packet \<Rightarrow> bool" where
  "to_lan h nets p \<longleftrightarrow>
     (\<exists>net \<in> set nets \<union> set ALLOWED_LAN_MULTICAST_NETS. in_net h Dst net p) \<or>
     at_port Udp Src DHCPV4_SERVER_PORT p \<and> at_port Udp Dst DHCPV4_CLIENT_PORT p"

definition reject_dns :: decision where
  "reject_dns p =
     (if at_port Udp Dst 53 p then Some (Reject IcmpPortUnreach)
      else if at_port Tcp Dst 53 p then Some (Reject TcpRst) else None)"

lemmas msg_simps = rmsg_def rappend_Inr_iff rbind_Inr_iff check_iface_Inr check_not_iface_Inr

lemma out_loopback:
  "add_loopback_rules h = Inr ms \<Longrightarrow> behaves OutChain ms (verdict_if Accept (on_iface h Out ''lo''))"
  by (auto simp: add_loopback_rules_def allow_interface_rule_def msg_simps behaves_def block_def
      verdict_if_def on_iface_def)

lemma out_dhcp: "behaves OutChain (add_dhcp_client_rules h) (verdict_if Accept (dhcp_request h))"
  by (simp add: behaves_def block_def verdict_if_def add_dhcp_client_rules_def DHCPV6_SERVER_ADDRS_def
      dhcp_request_def)

lemma out_ndp: "behaves OutChain (add_ndp_rules h) (verdict_if Accept (ndp_out h))"
  by (simp add: behaves_def block_def verdict_if_def add_ndp_rules_def ndp_out_def)

lemma out_peer:
  "behaves OutChain (add_allow_tunnel_endpoint_rules h e fwmark) (verdict_if Accept (to_peer fwmark e))"
  by (simp add: behaves_def block_def verdict_if_def add_allow_tunnel_endpoint_rules_def to_peer_def)

lemma out_peers:
  "behaves OutChain (concat (map (\<lambda>e. add_allow_tunnel_endpoint_rules h e fwmark) peers))
     (verdict_if Accept (\<lambda>p. \<exists>e \<in> set peers. to_peer fwmark e p))"
  by (intro behaves_concat_same out_peer)

lemma out_allowed_endpoint:
  "behaves OutChain (add_allow_endpoint_rules h e) (verdict_if Accept (to_allowed e))"
  by (simp add: behaves_def block_def verdict_if_def add_allow_endpoint_rules_def to_allowed_def)

lemma out_drop_dns: "behaves OutChain (add_drop_dns_rule h) reject_dns"
  by (simp add: behaves_def block_def add_drop_dns_rule_def reject_dns_def)

lemma out_tunnel:
  "add_allow_tunnel_rules h t = Inr ms \<Longrightarrow> behaves OutChain ms (verdict_if Accept (on_iface h Out t))"
  by (auto simp: add_allow_tunnel_rules_def allow_interface_rule_def msg_simps behaves_def block_def
      verdict_if_def on_iface_def)

lemma out_in_tunnel_endpoint:
  "add_allow_in_tunnel_endpoint_rules h t e = Inr ms \<Longrightarrow>
     behaves OutChain ms (verdict_if Accept (\<lambda>p. on_iface h Out t p \<and> at_endpoint Dst e p))"
  by (auto simp: add_allow_in_tunnel_endpoint_rules_def msg_simps behaves_def block_def
      verdict_if_def on_iface_def at_endpoint_def)

lemma out_tunnel_dns:
  "add_allow_tunnel_dns_rule h t proto server = Inr ms \<Longrightarrow>
     behaves OutChain ms
       (verdict_if Accept (\<lambda>p. on_iface h Out t p \<and> at_port proto Dst 53 p \<and> at_ip Dst server p))"
  by (auto simp: add_allow_tunnel_dns_rule_def allow_tunnel_dns_rule_def msg_simps behaves_def
      block_def verdict_if_def on_iface_def at_ip_def load_addr_key)

lemma out_local_dns:
  assumes "add_allow_local_dns_rule h t proto server = Inr ms"
  shows "behaves OutChain ms
     (verdict_if Accept (\<lambda>p. off_iface h Out t p \<and> at_port proto Dst 53 p \<and> at_ip Dst server p))"
proof (cases "h_iface_index h t")
  case None
  with assms show ?thesis
    by (simp add: add_allow_local_dns_rule_def check_not_iface_def iface_index_def rmsg_def)
next
  case (Some i)
  have "chain_rules OutChain ms =
      [[Load (iface_key Out), Cmp CmpNeq i] @ check_port proto Dst 53 @ check_ip Dst server @
       add_verdict h Accept]"
    using assms Some
    by (simp add: add_allow_local_dns_rule_def check_not_iface_def iface_index_def rmsg_def check_ip_def
        flip: append_assoc) (auto simp: Let_def)
  with Some show ?thesis
    by (simp add: behaves_def block_def verdict_if_def off_iface_def)
qed

lemma out_both_protocols:
  assumes "rappend r s = Inr ms"
    and "\<And>m. r = Inr m \<Longrightarrow> behaves OutChain m (verdict_if v (\<lambda>p. A p \<and> at_port Udp Dst 53 p \<and> B p))"
    and "\<And>m. s = Inr m \<Longrightarrow> behaves OutChain m (verdict_if v (\<lambda>p. A p \<and> at_port Tcp Dst 53 p \<and> B p))"
  shows "behaves OutChain ms (verdict_if v (\<lambda>p. A p \<and> is_dns p \<and> B p))"
proof -
  obtain xs ys where rs: "r = Inr xs" "s = Inr ys" "ms = xs @ ys"
    using assms(1) by (auto simp: rappend_Inr_iff)
  have "behaves OutChain (xs @ ys) (verdict_if v
      (\<lambda>p. (A p \<and> at_port Udp Dst 53 p \<and> B p) \<or> (A p \<and> at_port Tcp Dst 53 p \<and> B p)))"
    using assms(2,3) rs by (intro behaves_append_same) auto
  then show ?thesis
    unfolding rs(3) by (rule behaves_weaken) (auto simp: verdict_if_def is_dns_def)
qed

lemma out_tunnel_dns_all:
  assumes "rconcat (map (\<lambda>server.
      rappend (add_allow_tunnel_dns_rule h t Udp server) (add_allow_tunnel_dns_rule h t Tcp server))
      servers) = Inr ms"
  shows "behaves OutChain ms
     (verdict_if Accept (\<lambda>p. \<exists>s \<in> set servers. on_iface h Out t p \<and> is_dns p \<and> at_ip Dst s p))"
  using assms by (rule behaves_rconcat_same) (erule out_both_protocols; erule out_tunnel_dns)

lemma out_local_dns_all:
  assumes "rconcat (map (\<lambda>server.
      rappend (add_allow_local_dns_rule h t Udp server) (add_allow_local_dns_rule h t Tcp server))
      servers) = Inr ms"
  shows "behaves OutChain ms
     (verdict_if Accept (\<lambda>p. \<exists>s \<in> set servers. off_iface h Out t p \<and> is_dns p \<and> at_ip Dst s p))"
  using assms by (rule behaves_rconcat_same) (erule out_both_protocols; erule out_local_dns)

lemma out_tailnet:
  assumes "add_allow_tailnet_rules h interfaces = Inr ms"
  shows "behaves OutChain ms (verdict_if Accept (to_tailnet h interfaces))"
proof -
  let ?set = "btree_set (filter (\<lambda>name. h_iface_index h name \<noteq> None) interfaces)"
  let ?P = "\<lambda>pass p. tp_direction pass = PassOut \<and> on_iface h Out (tp_interface pass) p \<and>
    in_net h Dst (tp_net pass) p"
  have "behaves OutChain ms (verdict_if Accept (\<lambda>p. \<exists>pass \<in> set (tailnet_passes ?set). ?P pass p))"
    using assms unfolding add_allow_tailnet_rules_def Let_def
    by (rule behaves_rconcat_same)
       (auto simp: msg_simps behaves_def block_def verdict_if_def on_iface_def
         split: PassDirection.splits)
  moreover have "(\<exists>pass \<in> set (tailnet_passes ?set). ?P pass p) \<longleftrightarrow> to_tailnet h interfaces p" for p
  proof
    show "\<exists>pass \<in> set (tailnet_passes ?set). ?P pass p \<Longrightarrow> to_tailnet h interfaces p"
      by (auto simp: set_tailnet_passes to_tailnet_def)
    show "to_tailnet h interfaces p \<Longrightarrow> \<exists>pass \<in> set (tailnet_passes ?set). ?P pass p"
      unfolding to_tailnet_def
    proof (elim bexE conjE disjE)
      fix i assume i: "i \<in> set interfaces" "on_iface h Out i p"
      then have s: "i \<in> set ?set" by (auto simp: on_iface_def)
      { assume "in_net h Dst TAILNET_V4 p"
        with i s show ?thesis
          by (intro bexI [of _ "\<lparr>tp_interface = i, tp_direction = PassOut, tp_net = TAILNET_V4\<rparr>"])
             (auto simp: set_tailnet_passes) }
      { assume "in_net h Dst TAILNET_V6 p"
        with i s show ?thesis
          by (intro bexI [of _ "\<lparr>tp_interface = i, tp_direction = PassOut, tp_net = TAILNET_V6\<rparr>"])
             (auto simp: set_tailnet_passes) }
    qed
  qed
  ultimately show ?thesis by (elim behaves_weaken) (simp add: verdict_if_def)
qed

lemma chain_rules_cve [simp]: "chain_rules OutChain (add_block_cve_2019_14899 h t) = []"
  by (simp add: add_block_cve_2019_14899_def chain_rules_map_other)

lemma out_cve: "behaves OutChain (if c then add_block_cve_2019_14899 h t else []) (verdict_if Accept (\<lambda>_. False))"
  by (simp add: behaves_none)

lemma out_lan:
  "behaves OutChain (add_allow_lan_rules h nets) (verdict_if Accept (to_lan h nets))"
proof -
  have rules: "chain_rules OutChain (add_allow_lan_rules h nets) =
      map (\<lambda>net. check_net h Dst net @ add_verdict h Accept) (nets @ ALLOWED_LAN_MULTICAST_NETS) @
      [check_port Udp Src DHCPV4_SERVER_PORT @ check_port Udp Dst DHCPV4_CLIENT_PORT @
       add_verdict h Accept]"
    by (simp add: add_allow_lan_rules_def add_dhcp_server_rules_def chain_rules_map_same
        chain_rules_map_other)
  have "block (map (\<lambda>net. check_net h Dst net @ add_verdict h Accept) (nets @ ALLOWED_LAN_MULTICAST_NETS))
      (\<lambda>p. if \<exists>net \<in> set (nets @ ALLOWED_LAN_MULTICAST_NETS). in_net h Dst net p then Some Accept else None)"
    by (rule block_map) (simp add: decides_def)
  then show ?thesis
    unfolding behaves_def rules
    by (auto simp: block_def verdict_if_def to_lan_def simp del: map_append)
qed

lemma chain_rules_rmsg_other: "rmsg c' r = Inr ms \<Longrightarrow> c \<noteq> c' \<Longrightarrow> chain_rules c ms = []"
  by (auto simp: rmsg_def rbind_Inr_iff)

lemma out_mangle_dns:
  "rconcat (map (\<lambda>server.
     rappend (rmsg MangleChain (allow_tunnel_dns_rule h t Udp server))
             (rmsg MangleChain (allow_tunnel_dns_rule h t Tcp server))) servers) = Inr ms \<Longrightarrow>
     chain_rules OutChain ms = []"
  by (induction servers arbitrary: ms) (auto simp: rappend_Inr_iff chain_rules_rmsg_other)

lemma out_actual_split:
  assumes "add_actual_split_tunneling_rules h policy fwmark selector = Inr ms"
  shows "behaves OutChain ms (verdict_if Accept (has_ct_mark split_tunnel_MARK))"
  using assms
  by (auto simp: add_actual_split_tunneling_rules_def rappend_Inr_iff behaves_def block_def
      verdict_if_def chain_rules_rmsg_other out_mangle_dns split: FirewallPolicy.splits)

lemma out_split:
  "add_split_tunneling_rules h policy fw = Inr ms \<Longrightarrow>
     behaves OutChain ms (verdict_if Accept (excluded h fw))"
  by (auto simp: add_split_tunneling_rules_def excluded_def split_active_def
      dest!: out_actual_split intro!: behaves_none elim!: behaves_weaken simp: verdict_if_def
      split: option.splits bool.splits if_splits)
     (auto simp: behaves_def block_def)

end
