(* ===== verification/Nft_Verdict.thy ===== *)
theory Nft_Verdict
  imports Nft_Out
begin

text \<open>
  The verdict of the whole output chain. \<open>permits\<close> is what a policy promises to let out beyond
  the traffic every policy lets out (\<open>always_out\<close>); the batch the firewall builds for the policy
  accepts exactly these packets and rejects every other.
\<close>

section \<open>What a policy lets out\<close>

definition always_out :: "host \<Rightarrow> packet \<Rightarrow> bool" where
  "always_out h p \<longleftrightarrow> on_iface h Out ''lo'' p \<or> dhcp_request h p \<or> ndp_out h p"

fun tunnel_traffic :: "host \<Rightarrow> string \<Rightarrow> AllowedTunnelTraffic \<Rightarrow> packet \<Rightarrow> bool" where
  "tunnel_traffic h t TrafficAll p = on_iface h Out t p"
| "tunnel_traffic h t TrafficNone p = False"
| "tunnel_traffic h t (TrafficOne e) p = (on_iface h Out t p \<and> at_endpoint Dst e p)"
| "tunnel_traffic h t (TrafficTwo e1 e2) p =
     (on_iface h Out t p \<and> (at_endpoint Dst e1 p \<or> at_endpoint Dst e2 p))"

definition lan_out :: "host \<Rightarrow> FirewallPolicy \<Rightarrow> packet \<Rightarrow> bool" where
  "lan_out h policy p \<longleftrightarrow> fp_allow_lan policy \<and> to_lan h (fp_lan_networks policy) p"

text \<open>Traffic a policy names, port 53 included.\<close>

definition named_out :: "host \<Rightarrow> FirewallPolicy \<Rightarrow> 32 word \<Rightarrow> packet \<Rightarrow> bool" where
  "named_out h policy fwmark p =
     (case policy of
        Connecting peers _ _ _ allowed _ \<Rightarrow>
          (\<exists>e \<in> set peers. to_peer fwmark e p) \<or> to_allowed allowed p \<or>
          to_tailnet h (tailnet_interfaces h policy) p
      | Connected peers tunnel _ _ dns \<Rightarrow>
          (\<exists>e \<in> set peers. to_peer fwmark e p) \<or>
          (\<exists>s \<in> set (allowed_tunnel_dns (h_gateway h) dns).
             on_iface h Out (tm_interface tunnel) p \<and> is_dns p \<and> at_ip Dst s p) \<or>
          (\<exists>s \<in> set (rd_non_tunnel_config dns).
             off_iface h Out (tm_interface tunnel) p \<and> is_dns p \<and> at_ip Dst s p) \<or>
          to_tailnet h (tailnet_interfaces h policy) p
      | Blocked _ _ allowed \<Rightarrow> (case allowed of Some e \<Rightarrow> to_allowed e p | None \<Rightarrow> False))"

text \<open>Traffic that is let out unless it is DNS.\<close>

definition tunnel_out :: "host \<Rightarrow> FirewallPolicy \<Rightarrow> packet \<Rightarrow> bool" where
  "tunnel_out h policy p =
     (case policy of
        Connecting _ tunnel _ _ _ traffic \<Rightarrow>
          (case tunnel of Some t \<Rightarrow> tunnel_traffic h (tm_interface t) traffic p | None \<Rightarrow> False)
      | Connected _ tunnel _ _ _ \<Rightarrow> on_iface h Out (tm_interface tunnel) p
      | Blocked _ _ _ \<Rightarrow> False)"

fun allows_external_dns :: "FirewallPolicy \<Rightarrow> bool" where
  "allows_external_dns (Connected _ _ _ _ dns) = rd_allow_external_dns dns"
| "allows_external_dns _ = False"

definition permits :: "host \<Rightarrow> FirewallPolicy \<Rightarrow> 32 word \<Rightarrow> packet \<Rightarrow> bool" where
  "permits h policy fwmark p \<longleftrightarrow>
     named_out h policy fwmark p \<or>
     (allows_external_dns policy \<or> \<not> is_dns p) \<and> (tunnel_out h policy p \<or> lan_out h policy p)"

definition out_verdict :: "nft_msg list \<Rightarrow> packet \<Rightarrow> nft_verdict" where
  "out_verdict msgs p = snd (run_chain (chain_policy OutChain) (chain_rules OutChain msgs) p)"

section \<open>When a batch can be built\<close>

fun tunnel_iface_needed :: "FirewallPolicy \<Rightarrow> string option" where
  "tunnel_iface_needed (Connecting _ (Some t) _ _ _ traffic) =
     (if traffic = TrafficNone then None else Some (tm_interface t))"
| "tunnel_iface_needed (Connecting _ None _ _ _ _) = None"
| "tunnel_iface_needed (Connected _ t _ _ _) = Some (tm_interface t)"
| "tunnel_iface_needed (Blocked _ _ _) = None"

definition needed_ifaces :: "FirewallPolicy \<Rightarrow> string list" where
  "needed_ifaces policy = ''lo'' # (case tunnel_iface_needed policy of Some t \<Rightarrow> [t] | None \<Rightarrow> [])"

lemma err_of_rbind: "err_of (rbind r f) = (case r of Inl e \<Rightarrow> Some e | Inr a \<Rightarrow> err_of (f a))"
  by (cases r) auto

lemma err_of_rappend: "err_of (rappend r s) = opt_or (err_of r) (err_of s)"
  by (cases r; cases s) auto

lemma err_of_rconcat_same:
  "(\<And>r. r \<in> set rs \<Longrightarrow> err_of r = e) \<Longrightarrow> err_of (rconcat rs) = (if rs = [] then None else e)"
  by (induction rs) (auto simp: err_of_rappend opt_or_def split: option.splits)

lemma err_of_rconcat_ok: "(\<And>r. r \<in> set rs \<Longrightarrow> err_of r = None) \<Longrightarrow> err_of (rconcat rs) = None"
  by (induction rs) (auto simp: err_of_rappend)

definition missing :: "host \<Rightarrow> string \<Rightarrow> fw_error option" where
  "missing h iface =
     (if h_iface_index h iface = None then Some (LookupIfaceIndexError iface) else None)"

lemma err_of_rmsg: "err_of (rmsg c r) = err_of r"
  by (cases r) (simp_all add: rmsg_def)

lemma err_of_check:
  "err_of (check_iface h d i) = missing h i"
  "err_of (check_not_iface h d i) = missing h i"
  "err_of (iface_index h i) = missing h i"
  by (auto simp: check_iface_def check_not_iface_def iface_index_def missing_def split: option.splits)

lemma err_of_rbind_ok: "err_of (rbind r (\<lambda>a. Inr (f a))) = err_of r"
  by (cases r) simp_all

lemma opt_or_same [simp]: "opt_or e e = e" "opt_or e (opt_or e d) = opt_or e d" "opt_or e None = e"
  by (cases e; simp)+

lemmas err_simps = err_of_rmsg err_of_check err_of_rbind_ok err_of_rappend

lemma err_allow_tunnel_dns: "err_of (allow_tunnel_dns_rule h t proto ip) = missing h t"
  by (simp add: allow_tunnel_dns_rule_def err_simps)

lemma err_add_allow_tunnel_dns: "err_of (add_allow_tunnel_dns_rule h t proto ip) = missing h t"
  by (simp add: add_allow_tunnel_dns_rule_def err_simps err_allow_tunnel_dns)

lemma err_add_allow_local_dns: "err_of (add_allow_local_dns_rule h t proto ip) = missing h t"
  by (simp add: add_allow_local_dns_rule_def err_simps Let_def)

lemma err_add_allow_in_tunnel: "err_of (add_allow_in_tunnel_endpoint_rules h t e) = missing h t"
  by (simp add: add_allow_in_tunnel_endpoint_rules_def err_simps)

lemma err_add_allow_tunnel: "err_of (add_allow_tunnel_rules h t) = missing h t"
  by (simp add: add_allow_tunnel_rules_def allow_interface_rule_def err_simps)

lemma err_add_loopback: "err_of (add_loopback_rules h) = missing h ''lo''"
  by (simp add: add_loopback_rules_def allow_interface_rule_def err_simps)

lemma err_add_tailnet: "err_of (add_allow_tailnet_rules h interfaces) = None"
  unfolding add_allow_tailnet_rules_def Let_def
  by (rule err_of_rconcat_ok)
     (auto simp: set_tailnet_passes err_simps missing_def split: PassDirection.splits)

lemma err_dns_all:
  "err_of (rconcat (map (\<lambda>s. rappend (f Udp s) (f Tcp s)) servers)) \<in> {None, e}"
  if "\<And>proto s. err_of (f proto s) = e"
  by (induction servers) (auto simp: err_of_rappend that opt_or_def split: option.splits)

lemma err_opt_or_absorb: "x \<in> {None, e} \<Longrightarrow> opt_or x e = e" "x \<in> {None, e} \<Longrightarrow> opt_or e x = e"
  by (cases x; cases e; auto)+

lemma err_opt_or_among: "x \<in> {None, e} \<Longrightarrow> y \<in> {None, e} \<Longrightarrow> opt_or x y \<in> {None, e}"
  by (cases x) auto

definition missing_opt :: "host \<Rightarrow> string option \<Rightarrow> fw_error option" where
  "missing_opt h t = (case t of Some i \<Rightarrow> missing h i | None \<Rightarrow> None)"

lemma err_policy_rules:
  "err_of (policy_rules h policy fwmark) = missing_opt h (tunnel_iface_needed policy)"
proof (cases policy)
  case (Connecting peers tunnel lan nets allowed traffic)
  then show ?thesis
    by (cases tunnel; cases traffic)
       (simp_all add: policy_rules_def err_of_rappend err_add_tailnet err_add_allow_tunnel
         err_add_allow_in_tunnel missing_opt_def)
next
  case (Connected peers t lan nets dns)
  let ?m = "missing h (tm_interface t)"
  have "err_of (rconcat (map (\<lambda>s. rappend (add_allow_tunnel_dns_rule h (tm_interface t) Udp s)
      (add_allow_tunnel_dns_rule h (tm_interface t) Tcp s)) xs)) \<in> {None, ?m}"
    and "err_of (rconcat (map (\<lambda>s. rappend (add_allow_local_dns_rule h (tm_interface t) Udp s)
      (add_allow_local_dns_rule h (tm_interface t) Tcp s)) xs)) \<in> {None, ?m}" for xs
    by (rule err_dns_all; rule err_add_allow_tunnel_dns err_add_allow_local_dns)+
  with Connected show ?thesis
    by (simp add: policy_rules_def err_of_rappend err_add_tailnet err_add_allow_tunnel
        missing_opt_def err_opt_or_absorb)
next
  case (Blocked lan nets allowed)
  then show ?thesis by (simp add: policy_rules_def missing_opt_def)
qed

lemma err_include_rule:
  "err_of (add_include_only_rule h r cgroup) =
     (case r of
        DropIncludedOffTunnel t \<Rightarrow> opt_or (missing h ''lo'') (missing_opt h t)
      | DropIncludedArrivingOffTunnel t \<Rightarrow> missing_opt h t
      | DropArrivalsForIncludedSockets t \<Rightarrow> if cgroup = None then None else missing_opt h t
      | RemarkIncludedReplies t \<Rightarrow> missing h t
      | MasqueradeIncludedIntoTunnel t \<Rightarrow> missing h t
      | _ \<Rightarrow> None)"
proof (cases r)
  case (DropIncludedOffTunnel t)
  then show ?thesis
    by (cases "check_not_iface h Out ''lo''"; cases t)
       (auto simp: err_simps err_of_rbind check_not_tunnel_def missing_opt_def
         dest: arg_cong [of _ _ err_of])
next
  case (DropIncludedArrivingOffTunnel t)
  then show ?thesis by (cases t) (simp_all add: err_simps check_not_tunnel_def missing_opt_def)
next
  case (DropArrivalsForIncludedSockets t)
  then show ?thesis
    by (cases t; cases cgroup) (simp_all add: err_simps check_not_tunnel_def missing_opt_def)
qed (simp_all add: err_simps split: option.split)

lemma err_of_rconcat_among:
  assumes "\<forall>r \<in> set rs. err_of r \<in> insert None E"
  shows "err_of (rconcat rs) \<in> insert None E"
  using assms by (induction rs) (auto simp: err_of_rappend opt_or_def split: option.splits)

text \<open>
  Once the loopback interface is known, only the tunnel interface of the policy can be missing
  from the rules that precede the policy's own.
\<close>

lemma err_include_head:
  assumes "missing h ''lo'' = None"
  shows "err_of (rconcat (map (\<lambda>r. add_include_only_rule h r cgroup) (include_only_head h policy)))
     \<in> {None, missing_opt h (tunnel_iface_needed policy)}"
proof -
  have "err_of (add_include_only_rule h r cgroup) \<in> {None, missing_opt h (tunnel_iface_needed policy)}"
    if "r \<in> set (include_only_head h policy)" for r
    using that assms
    by (auto simp: include_only_head_def Let_def err_include_rule missing_opt_def
        split: FirewallPolicy.splits if_splits)
  then show ?thesis
    using err_of_rconcat_among [of "map (\<lambda>r. add_include_only_rule h r cgroup) (include_only_head h policy)"
        "{missing_opt h (tunnel_iface_needed policy)}"] by auto
qed

lemma err_include_tail:
  "err_of (rconcat (map (\<lambda>r. add_include_only_rule h r cgroup) (include_only_tail policy))) = None"
  by (rule err_of_rconcat_ok) (auto simp: include_only_tail_def err_include_rule split: option.splits)

lemma err_split_rules:
  assumes "missing h ''lo'' = None"
  shows "err_of (add_split_tunneling_rules h policy fw)
     \<in> {None, missing_opt h (tunnel_iface_needed policy)}"
proof -
  have "err_of (add_actual_split_tunneling_rules h policy fwmark selector)
      \<in> {None, missing_opt h (tunnel_iface_needed policy)}" for fwmark selector
  proof (cases policy)
    case (Connected peers t lan nets dns)
    have "err_of (rconcat (map (\<lambda>s. rappend (rmsg MangleChain (allow_tunnel_dns_rule h (tm_interface t) Udp s))
        (rmsg MangleChain (allow_tunnel_dns_rule h (tm_interface t) Tcp s))) xs))
        \<in> {None, missing h (tm_interface t)}" for xs
      by (rule err_dns_all) (simp add: err_simps err_allow_tunnel_dns)
    with Connected assms show ?thesis
      by (simp add: add_actual_split_tunneling_rules_def err_simps missing_opt_def err_opt_or_absorb)
  qed (use assms in \<open>simp_all add: add_actual_split_tunneling_rules_def err_simps\<close>)
  then show ?thesis
    by (auto simp: add_split_tunneling_rules_def split: option.splits bool.splits)
qed

lemma err_finalize:
  "err_of (finalize h policy fw) =
     opt_or (missing h ''lo'') (missing_opt h (tunnel_iface_needed policy))"
proof (cases "missing h ''lo''")
  case None
  let ?head = "if fw_include_only fw
    then rconcat (map (\<lambda>r. add_include_only_rule h r (fw_included_cgroup2 fw)) (include_only_head h policy))
    else add_split_tunneling_rules h policy fw"
  have "err_of ?head \<in> {None, missing_opt h (tunnel_iface_needed policy)}"
    using None err_include_head err_split_rules by presburger
  moreover have "err_of (add_policy_specific_rules h policy (fw_fwmark fw) (fw_include_only fw)) =
      missing_opt h (tunnel_iface_needed policy)"
    by (simp add: add_policy_specific_rules_def err_of_rappend err_policy_rules err_include_tail)
  ultimately show ?thesis
    using None unfolding finalize_def
    by (simp add: err_of_rappend err_add_loopback err_opt_or_absorb del: if_split)
qed (simp add: finalize_def err_of_rappend err_add_loopback)

section \<open>The output chain\<close>

definition reject_rest :: decision where
  "reject_rest = verdict_if (Reject IcmpPortUnreach) (\<lambda>_. True)"

lemma first_of_append: "first_of (ds @ es) p = (case first_of ds p of Some v \<Rightarrow> Some v | None \<Rightarrow> first_of es p)"
  by (induction ds) (auto split: option.splits)

lemma behaves_rconcat:
  assumes "rconcat rs = Inr ms"
    and "list_all2 (\<lambda>r d. \<forall>m. r = Inr m \<longrightarrow> behaves c m d) rs ds"
  shows "behaves c ms (first_of ds)"
  using assms(2,1)
proof (induction arbitrary: ms rule: list_all2_induct)
  case Nil
  then show ?case by (simp add: behaves_def block_def)
next
  case (Cons r rs d ds)
  from Cons.prems obtain m ms' where "r = Inr m" "rconcat rs = Inr ms'" "ms = m @ ms'"
    by (auto simp: rappend_Inr_iff)
  moreover from this Cons have "behaves c (m @ ms') (first_of (d # ds))"
    by (intro behaves_Cons) blast+
  ultimately show ?case by (simp only:)
qed

lemma out_tunnel_traffic:
  assumes "(case traffic of
       TrafficAll \<Rightarrow> add_allow_tunnel_rules h t
     | TrafficNone \<Rightarrow> Inr []
     | TrafficOne e \<Rightarrow> add_allow_in_tunnel_endpoint_rules h t e
     | TrafficTwo e1 e2 \<Rightarrow>
         rappend (add_allow_in_tunnel_endpoint_rules h t e1)
                 (add_allow_in_tunnel_endpoint_rules h t e2)) = Inr ms"
  shows "behaves OutChain ms (verdict_if Accept (tunnel_traffic h t traffic))"
proof (cases traffic)
  case (TrafficTwo e1 e2)
  with assms obtain xs ys where
    "add_allow_in_tunnel_endpoint_rules h t e1 = Inr xs"
    "add_allow_in_tunnel_endpoint_rules h t e2 = Inr ys" "ms = xs @ ys"
    by (auto simp: rappend_Inr_iff)
  then have "behaves OutChain ms (verdict_if Accept (\<lambda>p.
      (on_iface h Out t p \<and> at_endpoint Dst e1 p) \<or> (on_iface h Out t p \<and> at_endpoint Dst e2 p)))"
    by (auto intro: behaves_append_same out_in_tunnel_endpoint)
  then show ?thesis
    by (rule behaves_weaken) (auto simp: verdict_if_def TrafficTwo)
next
  case TrafficAll
  with assms out_tunnel [of h t ms] show ?thesis by (auto elim!: behaves_weaken simp: verdict_if_def)
next
  case (TrafficOne e)
  with assms out_in_tunnel_endpoint [of h t e ms] show ?thesis
    by (auto elim!: behaves_weaken simp: verdict_if_def)
next
  case TrafficNone
  with assms behaves_none [of OutChain ms Accept] show ?thesis
    by (auto elim!: behaves_weaken simp: verdict_if_def)
qed

definition dns_guard :: "FirewallPolicy \<Rightarrow> decision" where
  "dns_guard policy p = (if allows_external_dns policy then None else reject_dns p)"

definition policy_cascade :: "host \<Rightarrow> FirewallPolicy \<Rightarrow> 32 word \<Rightarrow> decision list" where
  "policy_cascade h policy fwmark =
     [verdict_if Accept (named_out h policy fwmark), dns_guard policy,
      verdict_if Accept (tunnel_out h policy)]"

lemma reject_dns_cases: "is_dns p \<Longrightarrow> \<exists>t. reject_dns p = Some (Reject t)" "\<not> is_dns p \<Longrightarrow> reject_dns p = None"
  by (auto simp: reject_dns_def is_dns_def)

lemma out_connecting_tunnel:
  assumes "rappend (case traffic of
       TrafficAll \<Rightarrow> add_allow_tunnel_rules h (tm_interface t)
     | TrafficNone \<Rightarrow> Inr []
     | TrafficOne e \<Rightarrow> add_allow_in_tunnel_endpoint_rules h (tm_interface t) e
     | TrafficTwo e1 e2 \<Rightarrow>
         rappend (add_allow_in_tunnel_endpoint_rules h (tm_interface t) e1)
                 (add_allow_in_tunnel_endpoint_rules h (tm_interface t) e2))
     (Inr (if lan then add_block_cve_2019_14899 h t else [])) = Inr m"
  shows "behaves OutChain m (verdict_if Accept (tunnel_traffic h (tm_interface t) traffic))"
proof -
  from assms obtain xs where
    x: "(case traffic of
       TrafficAll \<Rightarrow> add_allow_tunnel_rules h (tm_interface t)
     | TrafficNone \<Rightarrow> Inr []
     | TrafficOne e \<Rightarrow> add_allow_in_tunnel_endpoint_rules h (tm_interface t) e
     | TrafficTwo e1 e2 \<Rightarrow>
         rappend (add_allow_in_tunnel_endpoint_rules h (tm_interface t) e1)
                 (add_allow_in_tunnel_endpoint_rules h (tm_interface t) e2)) = Inr xs"
    and m: "m = xs @ (if lan then add_block_cve_2019_14899 h t else [])"
    by (auto simp: rappend_Inr_iff simp del: if_split)
  show ?thesis
    unfolding m using behaves_append_same [OF out_tunnel_traffic [OF x] out_cve]
    by (rule behaves_weaken) (simp add: verdict_if_def)
qed

lemmas list_all2_steps = list_all2_Cons [THEN iffD2] list_all2_Nil [THEN iffD2] conjI allI impI

lemma out_policy_connecting:
  assumes "policy_rules h policy fwmark = Inr ms"
    and policy: "policy = Connecting peers tunnel lan nets allowed traffic"
  shows "behaves OutChain ms (first_of (policy_cascade h policy fwmark))"
proof -
  let ?tunnel = "\<lambda>p. case tunnel of
    Some t \<Rightarrow> tunnel_traffic h (tm_interface t) traffic p | None \<Rightarrow> False"
  have "behaves OutChain ms (first_of
     [verdict_if Accept (\<lambda>p. \<exists>e \<in> set peers. to_peer fwmark e p), verdict_if Accept (to_allowed allowed),
      verdict_if Accept (to_tailnet h (tailnet_interfaces h policy)), reject_dns,
      verdict_if Accept ?tunnel])"
    using assms(1) unfolding policy_rules_def policy FirewallPolicy.case
    by (rule behaves_rconcat, intro list_all2_steps)
       (auto intro: out_peers out_allowed_endpoint out_tailnet out_drop_dns out_connecting_tunnel
         behaves_none split: option.splits)
  then show ?thesis
    by (rule behaves_weaken)
       (auto simp: policy_cascade_def verdict_if_def named_out_def dns_guard_def tunnel_out_def policy
         split: option.splits)
qed

lemma out_policy_connected:
  assumes "policy_rules h policy fwmark = Inr ms"
    and policy: "policy = Connected peers t lan nets dns"
  shows "behaves OutChain ms (first_of (policy_cascade h policy fwmark))"
proof -
  have "behaves OutChain ms (first_of
     [verdict_if Accept (\<lambda>p. \<exists>e \<in> set peers. to_peer fwmark e p),
      verdict_if Accept (\<lambda>p. \<exists>s \<in> set (allowed_tunnel_dns (h_gateway h) dns).
        on_iface h Out (tm_interface t) p \<and> is_dns p \<and> at_ip Dst s p),
      verdict_if Accept (\<lambda>p. \<exists>s \<in> set (rd_non_tunnel_config dns).
        off_iface h Out (tm_interface t) p \<and> is_dns p \<and> at_ip Dst s p),
      verdict_if Accept (to_tailnet h (tailnet_interfaces h policy)), dns_guard policy,
      verdict_if Accept (on_iface h Out (tm_interface t)), verdict_if Accept (\<lambda>_. False)])"
    using assms(1) unfolding policy_rules_def policy FirewallPolicy.case
  proof (rule behaves_rconcat, intro list_all2_steps)
    fix m
    assume "Inr (if \<not> rd_allow_external_dns dns then add_drop_dns_rule h else []) = Inr m"
    then show "behaves OutChain m (dns_guard (Connected peers t lan nets dns))"
      using behaves_weaken [OF out_drop_dns [of h], of "dns_guard (Connected peers t lan nets dns)"]
        behaves_weaken [OF behaves_Nil [of OutChain], of "dns_guard (Connected peers t lan nets dns)"]
      by (auto simp: dns_guard_def split: if_splits)
  qed (erule out_tunnel_dns_all out_local_dns_all
      | (auto intro: out_peers out_tailnet out_tunnel out_cve simp del: if_split) [1])+
  then show ?thesis
    by (rule behaves_weaken)
       (auto simp: policy_cascade_def verdict_if_def named_out_def tunnel_out_def policy split: option.splits)
qed

lemma out_policy_blocked:
  assumes "policy_rules h policy fwmark = Inr ms" and policy: "policy = Blocked lan nets allowed"
  shows "behaves OutChain ms (first_of (policy_cascade h policy fwmark))"
proof -
  have "behaves OutChain ms (first_of
     [verdict_if Accept (\<lambda>p. case allowed of Some e \<Rightarrow> to_allowed e p | None \<Rightarrow> False), reject_dns])"
    using assms(1) unfolding policy_rules_def policy FirewallPolicy.case
    by (rule behaves_rconcat, intro list_all2_steps)
       (auto intro: out_allowed_endpoint out_drop_dns behaves_none split: option.splits)
  then show ?thesis
    by (rule behaves_weaken)
       (auto simp: policy_cascade_def verdict_if_def named_out_def dns_guard_def tunnel_out_def policy
         split: option.splits)
qed

lemma out_policy_rules:
  "policy_rules h policy fwmark = Inr ms \<Longrightarrow> behaves OutChain ms (first_of (policy_cascade h policy fwmark))"
  by (cases policy) (auto intro: out_policy_connecting out_policy_connected out_policy_blocked)

lemma out_lan_rules:
  "behaves OutChain (if fp_allow_lan policy then add_allow_lan_rules h (fp_lan_networks policy) else [])
     (verdict_if Accept (lan_out h policy))"
  using out_lan [of h "fp_lan_networks policy"] behaves_none [of OutChain "[]" Accept]
  by (auto elim!: behaves_weaken simp: verdict_if_def lan_out_def)

lemma out_reject_rest:
  "behaves OutChain (for_chains [OutChain, ForwardChain] (add_verdict h (Reject IcmpPortUnreach))) reject_rest"
  by (simp add: behaves_def block_def reject_rest_def verdict_if_def)

end
