(* ===== verification/Nft_Include.thy ===== *)
theory Nft_Include
  imports Nft_Verdict
begin

text \<open>
  Include-only: what the rules of \<open>include_only_head\<close> and \<open>include_only_tail\<close> do in the output,
  mangle and postrouting chains, and the path of a locally sent packet through the chains
  (\<open>egress\<close>).
\<close>

section \<open>The output chain of a batch\<close>

definition included :: "packet \<Rightarrow> bool" where
  "included p \<longleftrightarrow> has_ct_mark INCLUDE_CT_MARK p"

fun include_out :: "IncludeRule \<Rightarrow> decision" where
  "include_out RejectIncluded = verdict_if (Reject IcmpPortUnreach) included"
| "include_out (AcceptIncludedDns server) =
     verdict_if Accept (\<lambda>p. included p \<and> is_dns p \<and> at_ip Dst server p)"
| "include_out RejectIncludedOtherDns =
     verdict_if (Reject IcmpPortUnreach) (\<lambda>p. included p \<and> is_dns p)"
| "include_out AcceptIncluded = verdict_if Accept included"
| "include_out AcceptNotIncluded = verdict_if Accept (\<lambda>p. \<not> included p)"
| "include_out r = verdict_if Accept (\<lambda>_. False)"

lemma out_include_rule:
  assumes "add_include_only_rule h r cgroup = Inr ms"
  shows "behaves OutChain ms (include_out r)"
proof (cases r)
  case (AcceptIncludedDns server)
  with assms show ?thesis
    by (auto simp: behaves_def block_def verdict_if_def included_def is_dns_def)
next
  case RejectIncludedOtherDns
  with assms show ?thesis
    by (auto simp: behaves_def block_def verdict_if_def included_def is_dns_def)
next
  case AcceptNotIncluded
  with assms show ?thesis
    by (auto simp: behaves_def block_def verdict_if_def included_def has_ct_mark_def)
qed (use assms in \<open>auto simp: behaves_def block_def verdict_if_def included_def chain_rules_rmsg_other
      split: option.splits\<close>)

lemma out_include_rules:
  assumes "rconcat (map (\<lambda>r. add_include_only_rule h r cgroup) rs) = Inr ms"
  shows "behaves OutChain ms (first_of (map include_out rs))"
  using assms by (rule behaves_rconcat) (auto simp: list_all2_map1 list_all2_map2 out_include_rule
      intro!: list_all2_refl)

fun include_accepts :: "host \<Rightarrow> FirewallPolicy \<Rightarrow> packet \<Rightarrow> bool" where
  "include_accepts h (Connected _ _ _ _ dns) p =
     (rd_allow_external_dns dns \<or> \<not> is_dns p \<or>
      (\<exists>s \<in> set (allowed_tunnel_dns (h_gateway h) dns). at_ip Dst s p))"
| "include_accepts h _ p = False"

definition include_decision :: "host \<Rightarrow> FirewallPolicy \<Rightarrow> decision" where
  "include_decision h policy p =
     (if included p
      then Some (if include_accepts h policy p then Accept else Reject IcmpPortUnreach)
      else None)"

lemma first_of_same:
  "first_of (map (\<lambda>x. verdict_if v (P x)) xs) p = (if \<exists>x \<in> set xs. P x p then Some v else None)"
  by (induction xs) (auto simp: verdict_if_def)

lemma first_of_include_dns:
  "first_of (map (include_out \<circ> AcceptIncludedDns) xs) p =
     (if included p \<and> is_dns p \<and> (\<exists>s \<in> set xs. at_ip Dst s p) then Some Accept else None)"
  "first_of (map (include_out \<circ> TunnelDnsAsIncluded) xs) p = None"
  by (induction xs) (auto simp: verdict_if_def)

lemma include_head_decision: "first_of (map include_out (include_only_head h policy)) p = include_decision h policy p"
  by (cases policy)
     (auto simp: include_only_head_def Let_def include_decision_def first_of_append first_of_include_dns
       verdict_if_def)

lemma include_tail_decision:
  "first_of (map include_out (include_only_tail policy)) p = verdict_if Accept (\<lambda>p. \<not> included p) p"
  by (auto simp: include_only_tail_def first_of_append verdict_if_def split: option.splits)

text \<open>The whole batch, in the order of \<open>finalize\<close>.\<close>

definition out_cascade :: "host \<Rightarrow> FirewallPolicy \<Rightarrow> Firewall \<Rightarrow> decision list" where
  "out_cascade h policy fw =
     [verdict_if Accept (on_iface h Out ''lo''),
      if fw_include_only fw then include_decision h policy else verdict_if Accept (excluded h fw),
      verdict_if Accept (dhcp_request h), verdict_if Accept (ndp_out h),
      first_of (policy_cascade h policy (fw_fwmark fw)),
      verdict_if Accept (lan_out h policy),
      if fw_include_only fw then verdict_if Accept (\<lambda>p. \<not> included p) else verdict_if Accept (\<lambda>_. False),
      reject_rest]"

lemma rconcat_append: "rconcat (rs @ ss) = rappend (rconcat rs) (rconcat ss)"
  by (induction rs) (auto simp: rappend_def rbind_def split: sum.splits)

lemma finalize_steps:
  "finalize h policy fw =
     rconcat
      [add_loopback_rules h,
       (if fw_include_only fw
        then rconcat (map (\<lambda>r. add_include_only_rule h r (fw_included_cgroup2 fw))
               (include_only_head h policy))
        else add_split_tunneling_rules h policy fw),
       Ok (add_dhcp_client_rules h), Ok (add_ndp_rules h), policy_rules h policy (fw_fwmark fw),
       Ok (if fp_allow_lan policy then add_allow_lan_rules h (fp_lan_networks policy) else []),
       (if fw_include_only fw
        then rconcat (map (\<lambda>r. add_include_only_rule h r None) (include_only_tail policy))
        else Ok []),
       Ok (for_chains [OutChain, ForwardChain] (add_verdict h (Reject IcmpPortUnreach)))]"
proof -
  have "rconcat [a, b, c, d, rconcat rs] = rconcat ([a, b, c, d] @ rs)"
    for a b c d :: "(fw_error, nft_msg list) result" and rs
    by (auto simp: rappend_def rbind_def split: sum.splits)
  then show ?thesis by (simp only: finalize_def add_policy_specific_rules_def append.simps)
qed

lemma out_head:
  assumes "(if fw_include_only fw
      then rconcat (map (\<lambda>r. add_include_only_rule h r (fw_included_cgroup2 fw)) (include_only_head h policy))
      else add_split_tunneling_rules h policy fw) = Inr m"
  shows "behaves OutChain m
     (if fw_include_only fw then include_decision h policy else verdict_if Accept (excluded h fw))"
proof (cases "fw_include_only fw")
  case True
  with assms have "behaves OutChain m (first_of (map include_out (include_only_head h policy)))"
    by (auto intro: out_include_rules)
  with True show ?thesis by (auto elim!: behaves_weaken simp: include_head_decision)
next
  case False
  with assms show ?thesis by (auto intro: out_split)
qed

lemma out_tail:
  assumes "(if c then rconcat (map (\<lambda>r. add_include_only_rule h r None) (include_only_tail policy))
      else Inr []) = Inr m"
  shows "behaves OutChain m
     (if c then verdict_if Accept (\<lambda>p. \<not> included p) else verdict_if Accept (\<lambda>_. False))"
proof (cases c)
  case True
  with assms have "behaves OutChain m (first_of (map include_out (include_only_tail policy)))"
    by (auto intro: out_include_rules)
  with True show ?thesis by (auto elim!: behaves_weaken simp: include_tail_decision)
qed (use assms in \<open>auto intro: behaves_none\<close>)

lemma out_finalize:
  assumes "finalize h policy fw = Inr ms"
  shows "behaves OutChain ms (first_of (out_cascade h policy fw))"
  using assms unfolding finalize_steps out_cascade_def
  by (rule behaves_rconcat, intro list_all2_steps)
     (erule out_head out_tail out_loopback out_policy_rules
      | (auto intro: out_dhcp out_ndp out_lan_rules out_reject_rest simp del: if_split) [1])+

lemma out_verdict_finalize:
  assumes "finalize h policy fw = Inr ms"
  shows "Some (out_verdict ms p) = first_of (out_cascade h policy fw) p"
proof -
  have "first_of (out_cascade h policy fw) p \<noteq> None"
    by (simp add: out_cascade_def reject_rest_def verdict_if_def split: option.splits)
  then show ?thesis
    using block_run [OF out_finalize [OF assms, unfolded behaves_def], of p]
    by (auto simp: out_verdict_def run_chain_def)
qed

text \<open>What a batch lets out, in the two modes.\<close>

definition lets_out :: "host \<Rightarrow> FirewallPolicy \<Rightarrow> Firewall \<Rightarrow> packet \<Rightarrow> bool" where
  "lets_out h policy fw p \<longleftrightarrow>
     (if fw_include_only fw then
        on_iface h Out ''lo'' p \<or>
        (if included p then include_accepts h policy p
         else always_out h p \<or> named_out h policy (fw_fwmark fw) p \<or>
              allows_external_dns policy \<or> \<not> is_dns p)
      else always_out h p \<or> excluded h fw p \<or> permits h policy (fw_fwmark fw) p)"

lemma out_cascade_verdict:
  "first_of (out_cascade h policy fw) p =
     Some (if lets_out h policy fw p then Accept
           else if \<not> (fw_include_only fw \<and> included p) \<and> \<not> allows_external_dns policy \<and> at_port Tcp Dst 53 p
           then Reject TcpRst else Reject IcmpPortUnreach)"
proof -
  have tcp: "\<not> at_port Udp Dst 53 p" if "at_port Tcp Dst 53 p"
    using that by (simp add: at_port_def l4proto_def proto_defs)
  show ?thesis
  proof (cases "fw_include_only fw")
    case True
    with tcp show ?thesis
      by (simp add: out_cascade_def policy_cascade_def lets_out_def include_decision_def always_out_def
          verdict_if_def dns_guard_def reject_dns_def reject_rest_def is_dns_def)
  next
    case False
    with tcp show ?thesis
      by (simp add: out_cascade_def policy_cascade_def lets_out_def permits_def always_out_def
          verdict_if_def dns_guard_def reject_dns_def reject_rest_def is_dns_def)
  qed
qed

section \<open>Which chains a step of the batch touches\<close>

definition only_chains :: "nft_chain set \<Rightarrow> ('e, nft_msg list) result \<Rightarrow> bool" where
  "only_chains cs r \<longleftrightarrow> (\<forall>ms. r = Inr ms \<longrightarrow> fst ` set ms \<subseteq> cs)"

lemma only_chains_Inr [simp]: "only_chains cs (Inr ms) \<longleftrightarrow> fst ` set ms \<subseteq> cs"
  by (simp add: only_chains_def)

lemma only_chains_rmsg: "c \<in> cs \<Longrightarrow> only_chains cs (rmsg c r)"
  by (auto simp: only_chains_def rmsg_def rbind_Inr_iff)

lemma only_chains_rappend: "only_chains cs r \<Longrightarrow> only_chains cs s \<Longrightarrow> only_chains cs (rappend r s)"
  unfolding only_chains_def rappend_Inr_iff by (auto 0 3)

lemma only_chains_rconcat: "\<forall>r \<in> set rs. only_chains cs r \<Longrightarrow> only_chains cs (rconcat rs)"
  by (induction rs) (simp_all add: only_chains_rappend)

lemma only_chains_empty: "only_chains cs r \<Longrightarrow> r = Inr ms \<Longrightarrow> c \<notin> cs \<Longrightarrow> chain_rules c ms = []"
  by (auto simp: only_chains_def chain_rules_def filter_empty_conv)

lemmas only_chains_steps = only_chains_rmsg only_chains_rappend only_chains_rconcat

definition filter_chains :: "nft_chain set" where
  "filter_chains = {InChain, OutChain, ForwardChain, PreroutingChain}"

lemma filter_chains_mem [simp]:
  "InChain \<in> filter_chains" "OutChain \<in> filter_chains" "ForwardChain \<in> filter_chains"
  "PreroutingChain \<in> filter_chains" "MangleChain \<notin> filter_chains" "NatChain \<notin> filter_chains"
  "PostroutingChain \<notin> filter_chains"
  by (simp_all add: filter_chains_def)

lemma chains_loopback: "only_chains filter_chains (add_loopback_rules h)"
  by (simp add: add_loopback_rules_def only_chains_steps)

lemma chains_dhcp [simp]: "fst ` set (add_dhcp_client_rules h) \<subseteq> filter_chains"
  by (auto simp: add_dhcp_client_rules_def for_chains_def)

lemma chains_ndp [simp]: "fst ` set (add_ndp_rules h) \<subseteq> filter_chains"
  by (auto simp: add_ndp_rules_def for_chains_def)

lemma chains_peer:
  "\<not> clients_allow_all (ae_clients e) \<Longrightarrow>
     fst ` set (add_allow_tunnel_endpoint_rules h e fwmark) \<subseteq> filter_chains"
  by (simp add: add_allow_tunnel_endpoint_rules_def)

lemma chains_peers:
  "\<forall>e \<in> set peers. \<not> clients_allow_all (ae_clients e) \<Longrightarrow>
     fst ` set (concat (map (\<lambda>e. add_allow_tunnel_endpoint_rules h e fwmark) peers)) \<subseteq> filter_chains"
  by (induction peers) (simp_all add: chains_peer image_Un)

lemma chains_dns_rules:
  "only_chains filter_chains (add_allow_tunnel_dns_rule h t proto server)"
  "only_chains filter_chains (add_allow_local_dns_rule h t proto server)"
  by (auto simp: add_allow_tunnel_dns_rule_def add_allow_local_dns_rule_def Let_def
      intro!: only_chains_steps)

lemma chains_tunnel:
  "only_chains filter_chains (add_allow_tunnel_rules h t)"
  "only_chains filter_chains (add_allow_in_tunnel_endpoint_rules h t e)"
  by (auto simp: add_allow_tunnel_rules_def add_allow_in_tunnel_endpoint_rules_def
      intro!: only_chains_steps)

lemma chains_tailnet: "only_chains filter_chains (add_allow_tailnet_rules h interfaces)"
  by (auto simp: add_allow_tailnet_rules_def Let_def intro!: only_chains_steps
      split: PassDirection.splits)

lemma chains_plain [simp]:
  "fst ` set (add_allow_endpoint_rules h e) \<subseteq> filter_chains"
  "fst ` set (add_drop_dns_rule h) \<subseteq> filter_chains"
  "fst ` set (add_block_cve_2019_14899 h tunnel) \<subseteq> filter_chains"
  "fst ` set (add_allow_lan_rules h nets) \<subseteq> filter_chains"
  by (auto simp: add_allow_endpoint_rules_def add_drop_dns_rule_def add_block_cve_2019_14899_def
      add_allow_lan_rules_def add_dhcp_server_rules_def)

text \<open>Peers open to every client are the only ones with a rule in the mangle chain.\<close>

definition root_peers :: "FirewallPolicy \<Rightarrow> bool" where
  "root_peers policy =
     (case fp_peer_endpoints policy of
        Some peers \<Rightarrow> list_all (\<lambda>e. \<not> clients_allow_all (ae_clients e)) peers
      | None \<Rightarrow> True)"

lemma chains_policy_rules:
  assumes "root_peers policy"
  shows "only_chains filter_chains (policy_rules h policy fwmark)"
proof (cases policy)
  case (Connecting peers tunnel lan nets allowed traffic)
  then have peers: "\<forall>e \<in> set peers. \<not> clients_allow_all (ae_clients e)"
    using assms by (simp add: root_peers_def list_all_iff)
  show ?thesis
    unfolding policy_rules_def Connecting FirewallPolicy.case using chains_peers [OF peers, of h fwmark]
    by (intro only_chains_rconcat)
       (auto simp: chains_tunnel chains_tailnet intro!: only_chains_steps
         split: option.splits AllowedTunnelTraffic.splits)
next
  case (Connected peers t lan nets dns)
  then have peers: "\<forall>e \<in> set peers. \<not> clients_allow_all (ae_clients e)"
    using assms by (simp add: root_peers_def list_all_iff)
  show ?thesis
    unfolding policy_rules_def Connected FirewallPolicy.case using chains_peers [OF peers, of h fwmark]
    by (simp del: rconcat.simps set_concat add: only_chains_rconcat only_chains_rappend chains_tunnel
        chains_tailnet chains_dns_rules)
next
  case (Blocked lan nets allowed)
  then show ?thesis
    unfolding policy_rules_def by (cases allowed) (simp_all add: only_chains_steps image_Un)
qed

section \<open>The mangle and postrouting chains\<close>

definition transforms :: "nft_rule list \<Rightarrow> (packet \<Rightarrow> packet) \<Rightarrow> bool" where
  "transforms rs f \<longleftrightarrow> (\<forall>p. run_rules rs p = (f p, None))"

definition included_socket :: "nat option \<Rightarrow> packet \<Rightarrow> bool" where
  "included_socket cgroup p \<longleftrightarrow> cgroup \<noteq> None \<and> pk_cgroup p 1 = cgroup"

definition mark_included :: "packet \<Rightarrow> packet" where
  "mark_included p = p\<lparr>pk_ct_mark := unat INCLUDE_CT_MARK, pk_mark := unat INCLUDE_FWMARK\<rparr>"

fun include_mangle :: "nat option \<Rightarrow> IncludeRule \<Rightarrow> packet \<Rightarrow> packet" where
  "include_mangle cgroup (TunnelDnsAsIncluded s) p = (if at_ip Dst s p then mark_included p else p)"
| "include_mangle cgroup MarkIncludedSockets p =
     (if included_socket cgroup p then mark_included p else p)"
| "include_mangle cgroup RemarkIncludedConnections p =
     (if included p then p\<lparr>pk_mark := unat INCLUDE_FWMARK\<rparr> else p)"
| "include_mangle cgroup r p = p"

lemma eval_set_include_marks [simp]:
  "eval_exprs (set_include_marks h) reg p = (mark_included p, None)"
  by (simp add: set_include_marks_def counter_def mark_included_def)

lemma mangle_include_rule:
  assumes "add_include_only_rule h r cgroup = Inr ms"
  shows "transforms (chain_rules MangleChain ms) (include_mangle cgroup r)"
proof (cases r)
  case (TunnelDnsAsIncluded s)
  with assms show ?thesis by (auto simp: transforms_def)
next
  case MarkIncludedSockets
  with assms show ?thesis
    by (cases cgroup) (auto simp: transforms_def included_socket_def split: option.split)
next
  case RemarkIncludedConnections
  with assms show ?thesis by (auto simp: transforms_def included_def)
next
  case (BlockTunnelAddressProbes t)
  with assms show ?thesis
    by (auto simp: transforms_def add_block_cve_2019_14899_def chain_rules_map_other)
qed (use assms in \<open>auto simp: transforms_def chain_rules_rmsg_other split: option.splits\<close>)

lemma mangle_include_rules:
  "rconcat (map (\<lambda>r. add_include_only_rule h r cgroup) rs) = Inr ms \<Longrightarrow>
     transforms (chain_rules MangleChain ms) (fold (include_mangle cgroup) rs)"
proof (induction rs arbitrary: ms)
  case Nil
  then show ?case by (simp add: transforms_def)
next
  case (Cons r rs)
  then obtain m ms' where m: "add_include_only_rule h r cgroup = Inr m" "ms = m @ ms'"
    "rconcat (map (\<lambda>r. add_include_only_rule h r cgroup) rs) = Inr ms'"
    by (auto simp: rappend_Inr_iff)
  with Cons.IH mangle_include_rule [OF m(1)] show ?case by (simp add: transforms_def)
qed

text \<open>A mark is set and never taken back; nothing else of the packet changes.\<close>

definition same_but_marks :: "packet \<Rightarrow> packet \<Rightarrow> bool" where
  "same_but_marks p q \<longleftrightarrow> p\<lparr>pk_ct_mark := 0, pk_mark := 0\<rparr> = q\<lparr>pk_ct_mark := 0, pk_mark := 0\<rparr>"

lemma same_but_marks_refl [simp]: "same_but_marks p p"
  by (simp add: same_but_marks_def)

lemma same_but_marks_trans: "same_but_marks p q \<Longrightarrow> same_but_marks q r \<Longrightarrow> same_but_marks p r"
  by (simp add: same_but_marks_def)

lemma include_mangle_marks:
  "same_but_marks p (include_mangle cgroup r p)"
  "included p \<Longrightarrow> included (include_mangle cgroup r p)"
  by (cases r; auto simp: same_but_marks_def mark_included_def included_def has_ct_mark_def)+

lemma fold_mangle_marks:
  "same_but_marks p (fold (include_mangle cgroup) rs p)"
  "included p \<Longrightarrow> included (fold (include_mangle cgroup) rs p)"
proof (induction rs arbitrary: p)
  case (Cons r rs)
  { case 1
    show ?case
      using same_but_marks_trans [OF include_mangle_marks(1) Cons.IH(1)] by simp
  next
    case 2
    then show ?case by (simp add: Cons.IH(2) include_mangle_marks(2))
  }
qed simp_all

lemma same_but_marks_fields:
  assumes "same_but_marks p q"
  shows "pk_cgroup q = pk_cgroup p" "pk_oif q = pk_oif p" "pk_iif q = pk_iif p" "pk_nfproto q = pk_nfproto p" "pk_saddr q = pk_saddr p"
    "pk_daddr q = pk_daddr p" "pk_l4proto q = pk_l4proto p" "pk_sport q = pk_sport p" "pk_dport q = pk_dport p"
  using arg_cong [OF assms [unfolded same_but_marks_def], of pk_cgroup]
    arg_cong [OF assms [unfolded same_but_marks_def], of pk_oif]
    arg_cong [OF assms [unfolded same_but_marks_def], of pk_iif]
    arg_cong [OF assms [unfolded same_but_marks_def], of pk_nfproto]
    arg_cong [OF assms [unfolded same_but_marks_def], of pk_saddr]
    arg_cong [OF assms [unfolded same_but_marks_def], of pk_daddr]
    arg_cong [OF assms [unfolded same_but_marks_def], of pk_l4proto]
    arg_cong [OF assms [unfolded same_but_marks_def], of pk_sport]
    arg_cong [OF assms [unfolded same_but_marks_def], of pk_dport]
  by simp_all

lemma same_but_marks_tests:
  assumes "same_but_marks p q"
  shows "included_socket c q = included_socket c p" "at_ip e ip q = at_ip e ip p"
    "on_iface h d i q = on_iface h d i p" "is_dns q = is_dns p"
  by (cases e; cases d; simp add: same_but_marks_fields [OF assms] included_socket_def at_ip_def pk_addr_def
      on_iface_def pk_if_def is_dns_def at_port_def pk_port_def)+

text \<open>
  A packet of an included socket, of an included connection or to a tunnel resolver carries the
  include mark once it has passed the mangle chain.
\<close>

lemma included_mark_included [simp]: "included (mark_included p)"
  by (simp add: mark_included_def included_def has_ct_mark_def)

lemma fold_mangle_socket:
  assumes "MarkIncludedSockets \<in> set rs" and "included_socket cgroup p"
  shows "included (fold (include_mangle cgroup) rs p)"
proof -
  obtain xs ys where rs: "rs = xs @ MarkIncludedSockets # ys"
    using assms(1) by (auto dest: split_list)
  have "included_socket cgroup (fold (include_mangle cgroup) xs p)"
    using assms(2) same_but_marks_tests(1) [OF fold_mangle_marks(1)] by simp
  then show ?thesis unfolding rs by (simp add: fold_mangle_marks(2))
qed

lemma head_marks_sockets: "MarkIncludedSockets \<in> set (include_only_head h policy)"
  by (simp add: include_only_head_def Let_def)

definition head_mangle :: "host \<Rightarrow> FirewallPolicy \<Rightarrow> nat option \<Rightarrow> packet \<Rightarrow> packet" where
  "head_mangle h policy cgroup = fold (include_mangle cgroup) (include_only_head h policy)"

text \<open>The postrouting chain holds the drop of included traffic off the tunnel and nothing else.\<close>

fun tunnel_of_connected :: "FirewallPolicy \<Rightarrow> string option" where
  "tunnel_of_connected (Connected _ t _ _ _) = Some (tm_interface t)"
| "tunnel_of_connected _ = None"

definition off_tunnel :: "host \<Rightarrow> FirewallPolicy \<Rightarrow> packet \<Rightarrow> bool" where
  "off_tunnel h policy p \<longleftrightarrow>
     off_iface h Out ''lo'' p \<and>
     (case tunnel_of_connected policy of Some t \<Rightarrow> off_iface h Out t p | None \<Rightarrow> True)"

fun include_post :: "host \<Rightarrow> IncludeRule \<Rightarrow> decision" where
  "include_post h (DropIncludedOffTunnel tunnel) =
     verdict_if Drop (\<lambda>p. off_iface h Out ''lo'' p \<and>
       (case tunnel of Some t \<Rightarrow> off_iface h Out t p | None \<Rightarrow> True) \<and> included p)"
| "include_post h r = verdict_if Drop (\<lambda>_. False)"

lemma post_include_rule:
  assumes "add_include_only_rule h r cgroup = Inr ms"
  shows "behaves PostroutingChain ms (include_post h r)"
proof (cases r)
  case (DropIncludedOffTunnel tunnel)
  with assms show ?thesis
    by (cases tunnel)
       (auto simp: rmsg_def rbind_Inr_iff check_not_iface_Inr check_not_tunnel_def behaves_def block_def
         verdict_if_def off_iface_def included_def)
next
  case (BlockTunnelAddressProbes t)
  with assms show ?thesis
    by (auto simp: add_block_cve_2019_14899_def chain_rules_map_other intro!: behaves_none)
qed (use assms in \<open>auto simp: behaves_def block_def verdict_if_def chain_rules_rmsg_other
    split: option.splits\<close>)

lemma post_include_head:
  assumes "rconcat (map (\<lambda>r. add_include_only_rule h r cgroup) (include_only_head h policy)) = Inr ms"
  shows "behaves PostroutingChain ms (verdict_if Drop (\<lambda>p. off_tunnel h policy p \<and> included p))"
proof -
  have "behaves PostroutingChain ms (first_of (map (include_post h) (include_only_head h policy)))"
    using assms by (rule behaves_rconcat)
      (auto simp: list_all2_map1 list_all2_map2 post_include_rule intro!: list_all2_refl)
  moreover have "first_of (map (include_post h \<circ> AcceptIncludedDns) xs) p = None"
    and "first_of (map (include_post h \<circ> TunnelDnsAsIncluded) xs) p = None" for xs p
    by (induction xs) (simp_all add: verdict_if_def)
  ultimately show ?thesis
    by (elim behaves_weaken; cases policy)
       (auto simp: include_only_head_def Let_def first_of_append verdict_if_def off_tunnel_def)
qed

lemma chains_tail:
  "only_chains filter_chains (rconcat (map (\<lambda>r. add_include_only_rule h r cgroup) (include_only_tail policy)))"
  by (cases "policy_tunnel policy")
     (simp_all add: include_only_tail_def only_chains_rappend for_chains_def)

lemma finalize_head_chain:
  assumes "finalize h policy fw = Inr ms" "fw_include_only fw" "root_peers policy" "c \<notin> filter_chains"
  obtains head where
    "rconcat (map (\<lambda>r. add_include_only_rule h r (fw_included_cgroup2 fw)) (include_only_head h policy)) =
       Inr head"
    "chain_rules c ms = chain_rules c head"
proof -
  let ?lan = "if fp_allow_lan policy then add_allow_lan_rules h (fp_lan_networks policy) else []"
  let ?reject = "for_chains [OutChain, ForwardChain] (add_verdict h (Reject IcmpPortUnreach))"
  from assms(1,2) obtain lo head pol tail where
    parts: "add_loopback_rules h = Inr lo"
      "rconcat (map (\<lambda>r. add_include_only_rule h r (fw_included_cgroup2 fw)) (include_only_head h policy)) = Inr head"
      "policy_rules h policy (fw_fwmark fw) = Inr pol"
      "rconcat (map (\<lambda>r. add_include_only_rule h r None) (include_only_tail policy)) = Inr tail"
    and ms: "ms = lo @ head @ add_dhcp_client_rules h @ add_ndp_rules h @ pol @ ?lan @ tail @ ?reject"
    by (auto simp: finalize_steps rappend_Inr_iff simp del: if_split)
  have none: "chain_rules c xs = []" if "fst ` set xs \<subseteq> filter_chains" for xs
    using that assms(4) only_chains_empty [of filter_chains "Inr xs" xs c] by simp
  have "fst ` set ?reject \<subseteq> filter_chains" "fst ` set ?lan \<subseteq> filter_chains"
    by (cases "fp_allow_lan policy"; simp add: for_chains_def)+
  then have "chain_rules c ms = chain_rules c head"
    using only_chains_empty [OF chains_loopback parts(1) assms(4)]
      only_chains_empty [OF chains_policy_rules [OF assms(3)] parts(3) assms(4)]
      only_chains_empty [OF chains_tail parts(4) assms(4)]
    by (simp add: ms none del: chain_rules_for_chains)
  with parts(2) that show thesis by blast
qed

section \<open>The path of a locally sent packet\<close>

text \<open>
  The output hook runs the mangle chain (a chain of type route, so that a changed mark sends the
  packet through routing again) and then the output chain, both of which see the interface the
  socket was routed to first. \<open>oif\<close> is the interface the packet leaves by after the second
  routing decision, which the postrouting chain sees. The verdict is that of the first chain that
  does not accept.
\<close>

definition egress :: "nft_msg list \<Rightarrow> nat \<Rightarrow> packet \<Rightarrow> packet \<times> nft_verdict" where
  "egress msgs oif p =
     (case run_chain (chain_policy MangleChain) (chain_rules MangleChain msgs) p of
        (p1, Accept) \<Rightarrow>
          (case run_chain (chain_policy OutChain) (chain_rules OutChain msgs) p1 of
             (p2, Accept) \<Rightarrow>
               run_chain (chain_policy PostroutingChain) (chain_rules PostroutingChain msgs)
                 (p2\<lparr>pk_oif := oif\<rparr>)
           | r \<Rightarrow> r)
      | r \<Rightarrow> r)"

lemma egress_include:
  fixes p :: packet
  assumes "finalize h policy fw = Inr ms" "fw_include_only fw" "root_peers policy"
  defines "q \<equiv> head_mangle h policy (fw_included_cgroup2 fw) p"
  shows "egress ms oif p =
     (if out_verdict ms q = Accept
      then (q\<lparr>pk_oif := oif\<rparr>,
            if off_tunnel h policy (q\<lparr>pk_oif := oif\<rparr>) \<and> included q then Drop else Accept)
      else (q, out_verdict ms q))"
proof -
  have "run_rules (chain_rules MangleChain ms) p = (q, None)"
    using finalize_head_chain [OF assms(1-3), of MangleChain] mangle_include_rules
    unfolding q_def head_mangle_def transforms_def by (metis filter_chains_mem(5))
  moreover have "run_rules (chain_rules OutChain ms) r = (r, Some (out_verdict ms r))" for r
    using block_run [OF out_finalize [OF assms(1), unfolded behaves_def], of r]
      out_verdict_finalize [OF assms(1), of r] by simp
  moreover have "run_rules (chain_rules PostroutingChain ms) r =
      (r, verdict_if Drop (\<lambda>p. off_tunnel h policy p \<and> included p) r)" for r
    using finalize_head_chain [OF assms(1-3), of PostroutingChain] post_include_head
    unfolding behaves_def block_def by (metis filter_chains_mem(7))
  moreover have "included (q\<lparr>pk_oif := oif\<rparr>) = included q"
    by (simp add: included_def has_ct_mark_def)
  ultimately show ?thesis
    by (cases "out_verdict ms q") (simp_all add: egress_def run_chain_def verdict_if_def)
qed

text \<open>An included packet that passes the chains leaves by loopback or by the tunnel.\<close>

lemma egress_included_on_tunnel:
  assumes "finalize h policy fw = Inr ms" "fw_include_only fw" "root_peers policy"
    and "included (head_mangle h policy (fw_included_cgroup2 fw) p)"
    and "snd (egress ms oif p) = Accept"
  shows "h_iface_index h ''lo'' = Some oif \<or>
     (\<exists>t. tunnel_of_connected policy = Some t \<and> h_iface_index h t = Some oif)"
proof -
  have "missing h ''lo'' = None" "missing_opt h (tunnel_iface_needed policy) = None"
    using err_finalize [of h policy fw] assms(1) by (cases "missing h ''lo''"; simp)+
  then have "\<exists>i. h_iface_index h ''lo'' = Some i"
    and "tunnel_of_connected policy = Some t \<Longrightarrow> \<exists>i. h_iface_index h t = Some i" for t
    by (cases policy; auto simp: missing_def missing_opt_def split: if_splits option.splits)+
  then show ?thesis
    using assms(4,5) egress_include [OF assms(1-3), of oif p]
    by (auto simp: off_tunnel_def off_iface_def pk_if_def split: if_splits option.splits)
qed

end
