(* ===== verification/Firewall_Ops.thy ===== *)
theory Firewall_Ops
  imports Nft_Include
begin

text \<open>
  The operations of the Linux firewall (\<open>talpid-core/src/firewall/linux.rs\<close>, \<open>impl Firewall\<close>,
  and the table of the apps locked to the VPN): a batch is sent to the kernel, which takes it
  whole or not at all, and the outcome is verified. Opening the socket, sending and receiving can
  fail at every message; these faults are the argument \<open>nl_env\<close>.
\<close>

section \<open>The kernel's tables\<close>

record nft_table =
  nt_chains :: "(nft_chain \<times> nft_verdict) list"
  nt_rules :: "nft_msg list"

type_synonym nft_tables = "string \<Rightarrow> nft_table option"

datatype nl_op =
    AddTable string
  | DelTable string
  | AddChain string nft_chain nft_verdict
  | AddRule string nft_msg

fun run_op :: "nl_op \<Rightarrow> nft_tables \<Rightarrow> nft_tables option" where
  "run_op (AddTable n) t =
     Some (if t n = None then t(n \<mapsto> \<lparr>nt_chains = [], nt_rules = []\<rparr>) else t)"
| "run_op (DelTable n) t = (if t n = None then None else Some (t(n := None)))"
| "run_op (AddChain n c policy) t =
     (case t n of
        None \<Rightarrow> None
      | Some tbl \<Rightarrow> Some (t(n \<mapsto> tbl\<lparr>nt_chains := nt_chains tbl @ [(c, policy)]\<rparr>)))"
| "run_op (AddRule n m) t =
     (case t n of
        None \<Rightarrow> None
      | Some tbl \<Rightarrow>
          if fst m \<in> fst ` set (nt_chains tbl)
          then Some (t(n \<mapsto> tbl\<lparr>nt_rules := nt_rules tbl @ [m]\<rparr>)) else None)"

fun run_batch :: "nl_op list \<Rightarrow> nft_tables \<Rightarrow> nft_tables option" where
  "run_batch [] t = Some t"
| "run_batch (op # ops) t = (case run_op op t of None \<Rightarrow> None | Some t' \<Rightarrow> run_batch ops t')"

record net_kernel =
  nk_tables :: nft_tables
  nk_src_valid_mark :: bool
  nk_arp_ignore :: string
  nk_tailnet_route :: "string option"

text \<open>The verdict of one table's chain; a table with no chain at the hook lets the packet pass.\<close>

definition table_verdict :: "nft_chain \<Rightarrow> nft_table \<Rightarrow> packet \<Rightarrow> nft_verdict" where
  "table_verdict c tbl p =
     (case map_of (nt_chains tbl) c of
        None \<Rightarrow> Accept
      | Some policy \<Rightarrow> snd (run_chain policy (chain_rules c (nt_rules tbl)) p))"

section \<open>Sending a batch\<close>

datatype nl_fault = RecvFault | MessageFault

record nl_env =
  nl_open_fails :: bool
  nl_send_fails :: bool
  nl_refused :: bool
  nl_fault_at :: "nat \<Rightarrow> nl_fault option"

text \<open>
  The acknowledgements of the messages \<open>i\<close>, \<open>i + 1\<close>, ... still expected. A receive failure is
  reported as \<open>NetlinkSendError\<close>.
\<close>

fun await_acks :: "nl_env \<Rightarrow> bool \<Rightarrow> nat \<Rightarrow> nat \<Rightarrow> (fw_error, unit) result" where
  "await_acks env committed i 0 = Ok ()"
| "await_acks env committed i (Suc n) =
     (case nl_fault_at env i of
        Some RecvFault \<Rightarrow> Err NetlinkSendError
      | Some MessageFault \<Rightarrow> Err ProcessNetlinkError
      | None \<Rightarrow> if committed then await_acks env committed (Suc i) n else Err ProcessNetlinkError)"

definition send_and_process ::
    "nl_env \<Rightarrow> nl_op list \<Rightarrow> net_kernel \<Rightarrow> net_kernel \<times> (fw_error, unit) result" where
  "send_and_process env batch k =
     (if nl_open_fails env then (k, Err NetlinkOpenError)
      else if nl_send_fails env then (k, Err NetlinkSendError)
      else
        let outcome = (if nl_refused env then None else run_batch batch (nk_tables k));
            k' = (case outcome of Some t \<Rightarrow> k\<lparr>nk_tables := t\<rparr> | None \<Rightarrow> k)
        in (k', await_acks env (outcome \<noteq> None) 0 (length batch)))"

text \<open>\<open>fetch\<close> answers the enumeration of the tables: an error, or the tables of the kernel.\<close>

datatype fetch_env = FetchOpenFails | FetchSendFails | FetchRecvFails | FetchProcessFails | FetchOk

fun fetch_table_set :: "fetch_env \<Rightarrow> net_kernel \<Rightarrow> (fw_error, string \<Rightarrow> bool) result" where
  "fetch_table_set FetchOpenFails k = Err NetlinkOpenError"
| "fetch_table_set FetchSendFails k = Err NetlinkSendError"
| "fetch_table_set FetchRecvFails k = Err NetlinkRecvError"
| "fetch_table_set FetchProcessFails k = Err ProcessNetlinkError"
| "fetch_table_set FetchOk k = Ok (\<lambda>n. nk_tables k n \<noteq> None)"

fun verify_each :: "(string \<Rightarrow> bool) \<Rightarrow> string list \<Rightarrow> (fw_error, unit) result" where
  "verify_each present [] = Ok ()"
| "verify_each present (t # ts) =
     (if \<not> present t then Err NetfilterTableNotSetError else verify_each present ts)"

definition verify_tables :: "fetch_env \<Rightarrow> string list \<Rightarrow> net_kernel \<Rightarrow> (fw_error, unit) result" where
  "verify_tables env expected_tables k =
     rbind (fetch_table_set env k) (\<lambda>present. verify_each present expected_tables)"

definition verify_table_removed :: "fetch_env \<Rightarrow> string \<Rightarrow> net_kernel \<Rightarrow> (fw_error, unit) result" where
  "verify_table_removed env expected_table k =
     rbind (fetch_table_set env k) (\<lambda>present.
       if present expected_table then Err NetfilterTableStillPresentError else Ok ())"

section \<open>The firewall\<close>

record fw_env =
  fe_host :: host
  fe_nl :: nl_env
  fe_fetch :: fetch_env
  fe_dont_set_src_valid_mark :: bool
  fe_dont_set_arp_ignore :: bool
  fe_src_valid_mark_fails :: bool
  fe_arp_ignore_fails :: bool
  fe_route_fails :: bool

definition fw_new :: "32 word \<Rightarrow> nat option \<Rightarrow> 32 word option \<Rightarrow> Firewall" where
  "fw_new fwmark excluded_cgroup2 net_cls =
     \<lparr>fw_fwmark = fwmark, fw_excluded_cgroup2 = excluded_cgroup2, fw_net_cls = net_cls,
      fw_included_cgroup2 = None, fw_include_only = False, fw_reset_on_drop = True\<rparr>"

definition fw_from_args ::
    "32 word \<Rightarrow> nat option \<Rightarrow> 32 word option \<Rightarrow> nat option \<Rightarrow> AllowedEndpoint option \<Rightarrow> Firewall" where
  "fw_from_args fwmark excluded_cgroup2 net_cls included_cgroup2 initial_state =
     (fw_new fwmark excluded_cgroup2 net_cls)\<lparr>fw_included_cgroup2 := included_cgroup2\<rparr>"

definition keep_policy_on_drop :: "Firewall \<Rightarrow> Firewall" where
  "keep_policy_on_drop fw = fw\<lparr>fw_reset_on_drop := False\<rparr>"

definition set_include_only :: "Firewall \<Rightarrow> bool \<Rightarrow> Firewall" where
  "set_include_only fw include_only = fw\<lparr>fw_include_only := include_only\<rparr>"

definition can_include :: "Firewall \<Rightarrow> bool" where
  "can_include fw \<longleftrightarrow> fw_included_cgroup2 fw \<noteq> None"

definition policy_batch_new :: "string \<Rightarrow> nl_op list" where
  "policy_batch_new table =
     [AddTable table, DelTable table, AddTable table] @
     map (\<lambda>c. AddChain table c (chain_policy c))
       [PreroutingChain, OutChain, InChain, ForwardChain, MangleChain, NatChain, PostroutingChain]"

definition apply_tailnet_routes :: "fw_env \<Rightarrow> string option \<Rightarrow> net_kernel \<Rightarrow> net_kernel" where
  "apply_tailnet_routes env interface k =
     (if fe_route_fails env then k else k\<lparr>nk_tailnet_route := interface\<rparr>)"

definition set_src_valid_mark_sysctl :: "net_kernel \<Rightarrow> net_kernel" where
  "set_src_valid_mark_sysctl k = k\<lparr>nk_src_valid_mark := True\<rparr>"

definition lock_down_arp_ignore_sysctl :: "net_kernel \<Rightarrow> net_kernel" where
  "lock_down_arp_ignore_sysctl k =
     (if nk_arp_ignore k = ''0'' \<or> nk_arp_ignore k = ''1'' then k\<lparr>nk_arp_ignore := ''2''\<rparr> else k)"

fun is_connecting :: "FirewallPolicy \<Rightarrow> bool" where
  "is_connecting (Connecting _ _ _ _ _ _) = True"
| "is_connecting _ = False"

fun has_tunnel_policy :: "FirewallPolicy \<Rightarrow> bool" where
  "has_tunnel_policy (Blocked _ _ _) = False"
| "has_tunnel_policy _ = True"

definition apply_kernel_config :: "fw_env \<Rightarrow> FirewallPolicy \<Rightarrow> net_kernel \<Rightarrow> net_kernel" where
  "apply_kernel_config env policy k =
     (let k1 = (if \<not> fe_dont_set_src_valid_mark env \<and> is_connecting policy \<and>
                   \<not> fe_src_valid_mark_fails env
                then set_src_valid_mark_sysctl k else k)
      in if \<not> fe_dont_set_arp_ignore env \<and> has_tunnel_policy policy \<and> \<not> fe_arp_ignore_fails env
         then lock_down_arp_ignore_sysctl k1 else k1)"

definition apply_policy ::
    "string \<Rightarrow> fw_env \<Rightarrow> FirewallPolicy \<Rightarrow> Firewall \<Rightarrow> net_kernel \<Rightarrow> net_kernel \<times> (fw_error, unit) result" where
  "apply_policy table env policy fw k =
     (case finalize (fe_host env) policy fw of
        Inl e \<Rightarrow> (k, Err e)
      | Inr msgs \<Rightarrow>
          (case send_and_process (fe_nl env) (policy_batch_new table @ map (AddRule table) msgs) k of
             (k1, Inl e) \<Rightarrow> (k1, Err e)
           | (k1, Inr _) \<Rightarrow>
               let k2 = apply_kernel_config env policy k1;
                   k3 = apply_tailnet_routes env
                          (list_first (tailnet_interfaces (fe_host env) policy)) k2
               in (k3, verify_tables (fe_fetch env) [table] k3)))"

definition reset_policy :: "string \<Rightarrow> fw_env \<Rightarrow> net_kernel \<Rightarrow> net_kernel \<times> (fw_error, unit) result" where
  "reset_policy table env k =
     (case send_and_process (fe_nl env) [AddTable table, DelTable table] k of
        (k1, Inl e) \<Rightarrow> (k1, Err e)
      | (k1, Inr _) \<Rightarrow>
          let k2 = apply_tailnet_routes env None k1
          in (k2, verify_table_removed (fe_fetch env) table k2))"

definition fw_drop :: "string \<Rightarrow> fw_env \<Rightarrow> Firewall \<Rightarrow> net_kernel \<Rightarrow> net_kernel" where
  "fw_drop table env fw k = (if \<not> fw_reset_on_drop fw then k else fst (reset_policy table env k))"

section \<open>Apps locked to the VPN\<close>

definition lock_table_name :: "string \<Rightarrow> string" where
  "lock_table_name firewall_id = firewall_id @ ''-locks''"

definition LOCKED_CGROUP_LEVEL :: nat where "LOCKED_CGROUP_LEVEL = 2"

datatype LockRule = AcceptLoopback | AcceptLan IpNetwork | LockReject | LockDrop

definition lock_rules :: "bool \<Rightarrow> IpNetwork list \<Rightarrow> Direction \<Rightarrow> LockRule list" where
  "lock_rules tunnel_up lan direction =
     (if tunnel_up then []
      else [AcceptLoopback] @ map AcceptLan lan @
           [case direction of Out \<Rightarrow> LockReject | In \<Rightarrow> LockDrop])"

definition lock_lan :: "bool \<Rightarrow> IpNetwork list" where
  "lock_lan allow_lan =
     (if \<not> allow_lan then [] else ALLOWED_LAN_NETS @ ALLOWED_LAN_MULTICAST_NETS)"

definition locked_rule ::
    "host \<Rightarrow> nat \<Rightarrow> Direction \<Rightarrow> LockRule \<Rightarrow> (fw_error, nft_rule) result" where
  "locked_rule h locked direction r =
     (let sel = [Load (SocketCgroupv2 LOCKED_CGROUP_LEVEL), Cmp CmpEq locked];
          end = (case direction of Out \<Rightarrow> Dst | In \<Rightarrow> Src)
      in case r of
           AcceptLoopback \<Rightarrow>
             rbind (check_iface h direction ''lo'') (\<lambda>es. Ok (sel @ es @ add_verdict h Accept))
         | AcceptLan net \<Rightarrow> Ok (sel @ check_net h end net @ add_verdict h Accept)
         | LockReject \<Rightarrow> Ok (sel @ add_verdict h (Reject IcmpPortUnreach))
         | LockDrop \<Rightarrow> Ok (sel @ add_verdict h Drop))"

definition lock_chain ::
    "host \<Rightarrow> string \<Rightarrow> nat \<Rightarrow> bool \<Rightarrow> IpNetwork list \<Rightarrow> Direction \<Rightarrow> nft_chain \<Rightarrow> (fw_error, nl_op list) result" where
  "lock_chain h name locked tunnel_up lan direction c =
     rappend (Ok [AddChain name c Accept])
       (rconcat (map (\<lambda>r. rbind (locked_rule h locked direction r) (\<lambda>x. Ok [AddRule name (c, x)]))
          (lock_rules tunnel_up lan direction)))"

definition set_app_lock ::
    "string \<Rightarrow> host \<Rightarrow> nl_env \<Rightarrow> nat \<Rightarrow> bool \<Rightarrow> bool \<Rightarrow> net_kernel \<Rightarrow> net_kernel \<times> (fw_error, unit) result" where
  "set_app_lock firewall_id h env locked tunnel_up allow_lan k =
     (let name = lock_table_name firewall_id;
          lan = lock_lan allow_lan
      in case rconcat
           [Ok [AddTable name, DelTable name, AddTable name],
            lock_chain h name locked tunnel_up lan Out OutChain,
            lock_chain h name locked tunnel_up lan In InChain] of
           Inl e \<Rightarrow> (k, Err e)
         | Inr batch \<Rightarrow> send_and_process env batch k)"

definition remove_app_lock ::
    "string \<Rightarrow> nl_env \<Rightarrow> net_kernel \<Rightarrow> net_kernel \<times> (fw_error, unit) result" where
  "remove_app_lock firewall_id env k =
     (let name = lock_table_name firewall_id
      in send_and_process env [AddTable name, DelTable name] k)"

section \<open>Recovery\<close>

definition product_firewall_ids :: "string list" where
  "product_firewall_ids = [''warren'', ''warren-staging'', ''warren-beta'']"

text \<open>The faults of the three exchanges of one environment's sweep.\<close>

record sweep_env =
  sw_delete :: nl_env
  sw_fetch :: fetch_env
  sw_lock :: nl_env

definition sweep_one ::
    "sweep_env \<Rightarrow> string \<Rightarrow> net_kernel \<Rightarrow> net_kernel \<times> (fw_error, unit) result" where
  "sweep_one env name k =
     (case send_and_process (sw_delete env) [AddTable name, DelTable name] k of
        (k1, Inl e) \<Rightarrow> (k1, Err e)
      | (k1, Inr _) \<Rightarrow>
          (case verify_table_removed (sw_fetch env) name k1 of
             Inl e \<Rightarrow> (k1, Err e)
           | Inr _ \<Rightarrow> remove_app_lock name (sw_lock env) k1))"

fun sweep_all ::
    "(string \<Rightarrow> sweep_env) \<Rightarrow> string list \<Rightarrow> fw_error option \<Rightarrow> net_kernel \<Rightarrow> net_kernel \<times> fw_error option" where
  "sweep_all env [] first_error k = (k, first_error)"
| "sweep_all env (name # names) first_error k =
     (case sweep_one (env name) name k of
        (k', r) \<Rightarrow> sweep_all env names (opt_or first_error (err_of r)) k')"

definition reset_policy_all_generations ::
    "(string \<Rightarrow> sweep_env) \<Rightarrow> net_kernel \<Rightarrow> net_kernel \<times> (fw_error, unit) result" where
  "reset_policy_all_generations env k =
     (case sweep_all env product_firewall_ids None k of
        (k', Some error) \<Rightarrow> (k', Err error)
      | (k', None) \<Rightarrow> (k', Ok ()))"

end
