(* ===== verification/Firewall_Laws.thy ===== *)
theory Firewall_Laws
  imports Firewall_Ops
begin

text \<open>
  What the firewall's operations do to the kernel: a batch replaces the table of the product
  environment whole or leaves it as it was, and touches no other table. The contract the tunnel
  state machine relies on is the locale \<open>firewall_interface\<close>, interpreted on these operations.
\<close>

section \<open>Batches\<close>

definition policy_table :: "nft_msg list \<Rightarrow> nft_table" where
  "policy_table msgs =
     \<lparr>nt_chains = map (\<lambda>c. (c, chain_policy c))
        [PreroutingChain, OutChain, InChain, ForwardChain, MangleChain, NatChain, PostroutingChain],
      nt_rules = msgs\<rparr>"

lemma all_chains_created: "c \<in> fst ` set (nt_chains (policy_table msgs))"
  by (cases c) (simp_all add: policy_table_def)

lemma run_batch_append:
  "run_batch (xs @ ys) t = (case run_batch xs t of None \<Rightarrow> None | Some t' \<Rightarrow> run_batch ys t')"
  by (induction xs arbitrary: t) (auto split: option.splits)

lemma run_batch_rules:
  assumes "t n = Some tbl" "\<forall>m \<in> set msgs. fst m \<in> fst ` set (nt_chains tbl)"
  shows "run_batch (map (AddRule n) msgs) t = Some (t(n \<mapsto> tbl\<lparr>nt_rules := nt_rules tbl @ msgs\<rparr>))"
  using assms
proof (induction msgs arbitrary: t tbl)
  case Nil
  then show ?case by (simp add: fun_upd_idem)
next
  case (Cons m msgs)
  then show ?case by (simp add: fun_eq_iff)
qed

lemma run_batch_policy:
  "run_batch (policy_batch_new n @ map (AddRule n) msgs) t = Some (t(n \<mapsto> policy_table msgs))"
proof -
  have "run_batch (policy_batch_new n) t = Some (t(n \<mapsto> policy_table []))"
    by (simp add: policy_batch_new_def policy_table_def)
  moreover have "run_batch (map (AddRule n) msgs) (t(n \<mapsto> policy_table [])) = Some (t(n \<mapsto> policy_table msgs))"
    using all_chains_created [of _ "[]"] by (subst run_batch_rules) (auto simp: policy_table_def)
  ultimately show ?thesis by (simp add: run_batch_append)
qed

lemma run_batch_remove: "run_batch [AddTable n, DelTable n] t = Some (t(n := None))"
  by simp

lemma await_acks_refused: "n \<noteq> 0 \<Longrightarrow> \<not> is_ok (await_acks env False i n)"
  by (cases n) (auto split: option.splits nl_fault.splits)

text \<open>The kernel takes a batch whole or not at all, and a batch that is acknowledged was taken.\<close>

lemma send_and_process_cases:
  assumes "send_and_process env batch k = (k', r)" "run_batch batch (nk_tables k) = Some t" "batch \<noteq> []"
  shows "k' = k \<and> \<not> is_ok r \<or> k' = k\<lparr>nk_tables := t\<rparr>"
  using assms await_acks_refused [of "length batch" env 0]
  by (auto simp: send_and_process_def Let_def split: if_splits)

lemma kernel_config_tables [simp]:
  "nk_tables (apply_kernel_config env policy k) = nk_tables k"
  "nk_tables (apply_tailnet_routes env i k) = nk_tables k"
  by (simp_all add: apply_kernel_config_def apply_tailnet_routes_def set_src_valid_mark_sysctl_def
      lock_down_arp_ignore_sysctl_def Let_def)

lemma apply_policy_cases:
  assumes "apply_policy n env policy fw k = (k', r)"
  obtains (unbuilt) e where "finalize (fe_host env) policy fw = Inl e" "k' = k" "r = Err e"
  | (refused) msgs where "finalize (fe_host env) policy fw = Inr msgs" "k' = k" "\<not> is_ok r"
  | (taken) msgs where "finalize (fe_host env) policy fw = Inr msgs"
      "nk_tables k' = (nk_tables k)(n \<mapsto> policy_table msgs)"
proof (cases "finalize (fe_host env) policy fw")
  case (Inl e)
  with assms unbuilt show ?thesis by (simp add: apply_policy_def)
next
  case (Inr msgs)
  obtain k1 r1 where s: "send_and_process (fe_nl env) (policy_batch_new n @ map (AddRule n) msgs) k = (k1, r1)"
    by (cases "send_and_process (fe_nl env) (policy_batch_new n @ map (AddRule n) msgs) k")
  have "policy_batch_new n @ map (AddRule n) msgs \<noteq> []" by (simp add: policy_batch_new_def)
  from send_and_process_cases [OF s run_batch_policy this]
  show ?thesis
  proof
    assume "k1 = k \<and> \<not> is_ok r1"
    with assms Inr s have "k' = k" "\<not> is_ok r" by (cases r1; simp add: apply_policy_def)+
    with Inr show ?thesis by (rule refused)
  next
    assume "k1 = k\<lparr>nk_tables := (nk_tables k)(n \<mapsto> policy_table msgs)\<rparr>"
    with assms Inr s have "nk_tables k' = (nk_tables k)(n \<mapsto> policy_table msgs)"
      by (cases r1) (auto simp: apply_policy_def Let_def)
    with Inr show ?thesis by (rule taken)
  qed
qed

lemma reset_policy_cases:
  assumes "reset_policy n env k = (k', r)"
  shows "k' = k \<and> \<not> is_ok r \<or> nk_tables k' = (nk_tables k)(n := None)"
proof -
  obtain k1 r1 where s: "send_and_process (fe_nl env) [AddTable n, DelTable n] k = (k1, r1)"
    by (cases "send_and_process (fe_nl env) [AddTable n, DelTable n] k")
  with send_and_process_cases [OF s run_batch_remove] assms show ?thesis
    by (cases r1) (auto simp: reset_policy_def Let_def)
qed

section \<open>The contract\<close>

locale firewall_interface =
  fixes apply_it :: "'env \<Rightarrow> 'policy \<Rightarrow> 'kernel \<Rightarrow> 'kernel \<times> ('e, unit) result"
    and reset_it :: "'env \<Rightarrow> 'kernel \<Rightarrow> 'kernel \<times> ('e, unit) result"
    and enforces :: "'kernel \<Rightarrow> 'policy \<Rightarrow> bool"
    and lifted :: "'kernel \<Rightarrow> bool"
  assumes apply_ok: "apply_it e p k = (k', Ok ()) \<Longrightarrow> enforces k' p"
    and apply_any: "apply_it e p k = (k', r) \<Longrightarrow> k' = k \<or> enforces k' p"
    and reset_ok: "reset_it e k = (k', Ok ()) \<Longrightarrow> lifted k'"
    and reset_any: "reset_it e k = (k', r) \<Longrightarrow> k' = k \<or> lifted k'"
    and not_both: "enforces k p \<Longrightarrow> \<not> lifted k"
begin

text \<open>Policies applied one after the other, whatever their outcomes.\<close>

primrec apply_list :: "('env \<times> 'policy) list \<Rightarrow> 'kernel \<Rightarrow> 'kernel" where
  "apply_list [] k = k"
| "apply_list (ep # eps) k = apply_list eps (fst (apply_it (fst ep) (snd ep) k))"

lemma apply_keeps_some:
  assumes "enforces k q"
  shows "\<exists>q'. enforces (fst (apply_it e p k)) q' \<and> (q' = q \<or> q' = p)"
  using apply_any [of e p k] assms by (metis prod.collapse)

text \<open>Once a policy is in force, applying others never leaves the host without one.\<close>

lemma apply_list_guards:
  assumes "enforces k q"
  shows "\<exists>q' \<in> insert q (snd ` set eps). enforces (apply_list eps k) q'"
  using assms
proof (induction eps arbitrary: k q)
  case Nil
  then show ?case by simp
next
  case (Cons ep eps)
  obtain q' where q': "enforces (fst (apply_it (fst ep) (snd ep) k)) q'" "q' = q \<or> q' = snd ep"
    using apply_keeps_some [OF Cons.prems] by blast
  from Cons.IH [OF q'(1)] q'(2) show ?case by auto
qed

lemma apply_list_never_lifted: "enforces k q \<Longrightarrow> \<not> lifted (apply_list eps k)"
  using apply_list_guards not_both by blast

end

definition linux_enforces :: "string \<Rightarrow> net_kernel \<Rightarrow> FirewallPolicy \<Rightarrow> bool" where
  "linux_enforces n k policy \<longleftrightarrow>
     (\<exists>h fw msgs. finalize h policy fw = Inr msgs \<and> nk_tables k n = Some (policy_table msgs))"

lemma linux_enforcesI:
  "finalize h policy fw = Inr msgs \<Longrightarrow> nk_tables k n = Some (policy_table msgs) \<Longrightarrow> linux_enforces n k policy"
  by (auto simp: linux_enforces_def)

definition linux_lifted :: "string \<Rightarrow> net_kernel \<Rightarrow> bool" where
  "linux_lifted n k \<longleftrightarrow> nk_tables k n = None"

interpretation linux_fw: firewall_interface
  "\<lambda>e policy k. apply_policy n (fst e) policy (snd e) k" "\<lambda>e k. reset_policy n (fst e) k"
  "linux_enforces n" "linux_lifted n" for n
proof (unfold_locales, goal_cases)
  case (1 e p k k')
  then show ?case by (auto elim!: apply_policy_cases intro: linux_enforcesI)
next
  case (2 e p k k' r)
  then show ?case by (auto elim!: apply_policy_cases intro: linux_enforcesI)
next
  case (3 e k k')
  then show ?case by (auto simp: linux_lifted_def dest!: reset_policy_cases)
next
  case (4 e k k' r)
  then show ?case by (auto simp: linux_lifted_def dest!: reset_policy_cases)
next
  case (5 k p)
  then show ?case by (auto simp: linux_enforces_def linux_lifted_def)
qed

section \<open>Verdicts of a table in force\<close>

lemma table_verdict_policy:
  "table_verdict OutChain (policy_table msgs) p = out_verdict msgs p"
  by (simp add: table_verdict_def policy_table_def out_verdict_def)

section \<open>Locked apps\<close>

definition of_locked :: "nat \<Rightarrow> packet \<Rightarrow> bool" where
  "of_locked locked p \<longleftrightarrow> pk_cgroup p LOCKED_CGROUP_LEVEL = Some locked"

definition lock_end :: "Direction \<Rightarrow> End" where
  "lock_end d = (case d of Out \<Rightarrow> Dst | In \<Rightarrow> Src)"

definition lock_blocks :: "Direction \<Rightarrow> nft_verdict" where
  "lock_blocks d = (case d of Out \<Rightarrow> Reject IcmpPortUnreach | In \<Rightarrow> Drop)"

fun lock_decision :: "host \<Rightarrow> nat \<Rightarrow> Direction \<Rightarrow> LockRule \<Rightarrow> decision" where
  "lock_decision h locked d AcceptLoopback =
     verdict_if Accept (\<lambda>p. of_locked locked p \<and> on_iface h d ''lo'' p)"
| "lock_decision h locked d (AcceptLan net) =
     verdict_if Accept (\<lambda>p. of_locked locked p \<and> in_net h (lock_end d) net p)"
| "lock_decision h locked d LockReject = verdict_if (Reject IcmpPortUnreach) (of_locked locked)"
| "lock_decision h locked d LockDrop = verdict_if Drop (of_locked locked)"

lemma locked_rule_decides:
  assumes "locked_rule h locked d r = Inr x"
  shows "block [x] (lock_decision h locked d r)"
  using assms
  by (cases r; cases d)
     (auto simp: locked_rule_def Let_def rbind_Inr_iff check_iface_Inr block_def verdict_if_def
       on_iface_def lock_end_def of_locked_def split: option.split)

definition lock_msgs ::
    "host \<Rightarrow> nat \<Rightarrow> bool \<Rightarrow> IpNetwork list \<Rightarrow> Direction \<Rightarrow> nft_chain \<Rightarrow> (fw_error, nft_msg list) result" where
  "lock_msgs h locked tunnel_up lan d c =
     rconcat (map (\<lambda>r. rmsg c (locked_rule h locked d r)) (lock_rules tunnel_up lan d))"

lemma lock_chain_msgs:
  "lock_chain h name locked tunnel_up lan d c =
     rbind (lock_msgs h locked tunnel_up lan d c) (\<lambda>ms. Ok (AddChain name c Accept # map (AddRule name) ms))"
proof -
  have "rconcat (map (\<lambda>r. rbind (f r) (\<lambda>x. Ok [AddRule name (c, x)])) rs) =
      rbind (rconcat (map (\<lambda>r. rmsg c (f r)) rs)) (\<lambda>ms. Ok (map (AddRule name) ms))"
    for f :: "LockRule \<Rightarrow> (fw_error, nft_rule) result" and rs
    by (induction rs) (auto simp: rmsg_def rappend_def rbind_def split: sum.splits)
  then show ?thesis
    by (simp add: lock_chain_def lock_msgs_def rappend_def rbind_def split: sum.splits)
qed

definition lock_table :: "nft_msg list \<Rightarrow> nft_table" where
  "lock_table ms = \<lparr>nt_chains = [(OutChain, Accept), (InChain, Accept)], nt_rules = ms\<rparr>"

lemma lock_msgs_chain:
  assumes "lock_msgs h locked up lan d c = Inr ms"
  shows "fst ` set ms \<subseteq> {c}"
proof -
  have "only_chains {c} (lock_msgs h locked up lan d c)"
    unfolding lock_msgs_def by (rule only_chains_rconcat) (simp add: only_chains_rmsg)
  with assms show ?thesis by simp
qed

lemma run_batch_lock:
  assumes "fst ` set outs \<subseteq> {OutChain}" "fst ` set ins \<subseteq> {InChain}"
  shows "run_batch ([AddTable n, DelTable n, AddTable n] @ (AddChain n OutChain Accept # map (AddRule n) outs) @
       (AddChain n InChain Accept # map (AddRule n) ins)) t =
     Some (t(n \<mapsto> lock_table (outs @ ins)))"
proof -
  let ?t1 = "t(n \<mapsto> \<lparr>nt_chains = [(OutChain, Accept)], nt_rules = []\<rparr>)"
  let ?t2 = "t(n \<mapsto> \<lparr>nt_chains = [(OutChain, Accept), (InChain, Accept)], nt_rules = outs\<rparr>)"
  have "run_batch (map (AddRule n) outs) ?t1 = Some (t(n \<mapsto> \<lparr>nt_chains = [(OutChain, Accept)], nt_rules = outs\<rparr>))"
    using assms(1) by (subst run_batch_rules) auto
  moreover have "run_batch (map (AddRule n) ins) ?t2 = Some (t(n \<mapsto> lock_table (outs @ ins)))"
    using assms(2) by (subst run_batch_rules) (auto simp: lock_table_def)
  ultimately show ?thesis by (simp add: run_batch_append)
qed

lemma set_app_lock_taken:
  assumes "set_app_lock fid h env locked up lan k = (k', Ok ())"
  obtains outs ins where
    "lock_msgs h locked up (lock_lan lan) Out OutChain = Inr outs"
    "lock_msgs h locked up (lock_lan lan) In InChain = Inr ins"
    "k' = k\<lparr>nk_tables := (nk_tables k)(lock_table_name fid \<mapsto> lock_table (outs @ ins))\<rparr>"
proof -
  let ?n = "lock_table_name fid"
  from assms obtain outs ins where
    o: "lock_msgs h locked up (lock_lan lan) Out OutChain = Inr outs"
    and i: "lock_msgs h locked up (lock_lan lan) In InChain = Inr ins"
    and s: "send_and_process env ([AddTable ?n, DelTable ?n, AddTable ?n] @
       (AddChain ?n OutChain Accept # map (AddRule ?n) outs) @
       (AddChain ?n InChain Accept # map (AddRule ?n) ins)) k = (k', Ok ())"
    by (auto simp: set_app_lock_def Let_def lock_chain_msgs rappend_def rbind_def split: sum.splits)
  from send_and_process_cases [OF s run_batch_lock [OF lock_msgs_chain [OF o] lock_msgs_chain [OF i]]]
  have "k' = k\<lparr>nk_tables := (nk_tables k)(?n \<mapsto> lock_table (outs @ ins))\<rparr>" by simp
  with o i show thesis by (rule that)
qed

lemma lock_msgs_decide:
  assumes "lock_msgs h locked False lan d c = Inr ms"
  shows "behaves c ms (\<lambda>p.
     if of_locked locked p
     then Some (if on_iface h d ''lo'' p \<or> (\<exists>net \<in> set lan. in_net h (lock_end d) net p)
                then Accept else lock_blocks d)
     else None)"
proof -
  have step: "behaves c m (lock_decision h locked d r)" if "rmsg c (locked_rule h locked d r) = Inr m" for r m
    using that locked_rule_decides by (auto simp: rmsg_def rbind_Inr_iff behaves_def)
  have lan: "first_of (map (lock_decision h locked d \<circ> AcceptLan) nets) p =
      (if of_locked locked p \<and> (\<exists>net \<in> set nets. in_net h (lock_end d) net p) then Some Accept else None)"
    for nets p
    by (induction nets) (auto simp: verdict_if_def)
  have "behaves c ms (first_of (map (lock_decision h locked d) (lock_rules False lan d)))"
    using assms unfolding lock_msgs_def
    by (rule behaves_rconcat) (auto simp: list_all2_map1 list_all2_map2 step intro!: list_all2_refl)
  then show ?thesis
    by (rule behaves_weaken)
       (auto simp: lock_rules_def first_of_append lan verdict_if_def lock_blocks_def
         split: Direction.split)
qed

lemma lock_table_verdict:
  assumes "lock_msgs h locked False lan Out OutChain = Inr outs"
    and "lock_msgs h locked False lan In InChain = Inr ins"
  shows "table_verdict OutChain (lock_table (outs @ ins)) p =
     (if of_locked locked p \<and> \<not> on_iface h Out ''lo'' p \<and> \<not> (\<exists>net \<in> set lan. in_net h Dst net p)
      then Reject IcmpPortUnreach else Accept)"
    and "table_verdict InChain (lock_table (outs @ ins)) p =
     (if of_locked locked p \<and> \<not> on_iface h In ''lo'' p \<and> \<not> (\<exists>net \<in> set lan. in_net h Src net p)
      then Drop else Accept)"
proof -
  have "chain_rules InChain outs = []" "chain_rules OutChain ins = []"
    using lock_msgs_chain [OF assms(1)] lock_msgs_chain [OF assms(2)]
    by (auto simp: chain_rules_def filter_empty_conv)
  then show "table_verdict OutChain (lock_table (outs @ ins)) p =
     (if of_locked locked p \<and> \<not> on_iface h Out ''lo'' p \<and> \<not> (\<exists>net \<in> set lan. in_net h Dst net p)
      then Reject IcmpPortUnreach else Accept)"
    and "table_verdict InChain (lock_table (outs @ ins)) p =
     (if of_locked locked p \<and> \<not> on_iface h In ''lo'' p \<and> \<not> (\<exists>net \<in> set lan. in_net h Src net p)
      then Drop else Accept)"
    using lock_msgs_decide [OF assms(1)] lock_msgs_decide [OF assms(2)]
    by (auto simp: table_verdict_def lock_table_def run_chain_def behaves_def block_def lock_blocks_def
        lock_end_def)
qed

section \<open>Recovery\<close>

definition swept :: "net_kernel \<Rightarrow> string \<Rightarrow> bool" where
  "swept k name \<longleftrightarrow> nk_tables k name = None \<and> nk_tables k (lock_table_name name) = None"

lemma lock_table_name_inj [simp]: "lock_table_name a = lock_table_name b \<longleftrightarrow> a = b"
  by (simp add: lock_table_name_def)

lemma send_remove_tables:
  assumes "send_and_process env [AddTable n, DelTable n] k = (k', r)"
  shows "nk_tables k' = nk_tables k \<or> nk_tables k' = (nk_tables k)(n := None)"
    and "is_ok r \<Longrightarrow> nk_tables k' = (nk_tables k)(n := None)"
  using send_and_process_cases [OF assms run_batch_remove] by auto

lemma sweep_one_tables:
  assumes "sweep_one env name k = (k', r)"
  shows "nk_tables k x = None \<Longrightarrow> nk_tables k' x = None"
    and "is_ok r \<Longrightarrow> swept k' name"
    and "x \<noteq> name \<Longrightarrow> x \<noteq> lock_table_name name \<Longrightarrow> nk_tables k' x = nk_tables k x"
proof -
  obtain k1 r1 where s1: "send_and_process (sw_delete env) [AddTable name, DelTable name] k = (k1, r1)"
    by (cases "send_and_process (sw_delete env) [AddTable name, DelTable name] k")
  obtain k2 r2 where s2: "remove_app_lock name (sw_lock env) k1 = (k2, r2)"
    by (cases "remove_app_lock name (sw_lock env) k1")
  have cases: "k' = k1 \<and> \<not> is_ok r \<or> k' = k2 \<and> r = r2 \<and> is_ok r1"
    using assms s1 s2
    by (cases r1; cases "verify_table_removed (sw_fetch env) name k1"; simp add: sweep_one_def)
       (metis is_ok_simps(1))+
  note t1 = send_remove_tables [OF s1]
  note t2 = send_remove_tables [OF s2 [unfolded remove_app_lock_def Let_def]]
  show "nk_tables k x = None \<Longrightarrow> nk_tables k' x = None"
    using cases t1(1) t2(1) by (auto simp: fun_upd_apply)
  show "is_ok r \<Longrightarrow> swept k' name"
    using cases t1(2) t2(2) by (auto simp: swept_def)
  show "x \<noteq> name \<Longrightarrow> x \<noteq> lock_table_name name \<Longrightarrow> nk_tables k' x = nk_tables k x"
    using cases t1(1) t2(1) by auto
qed

lemma sweep_all_keeps_absent:
  "sweep_all env names first_error k = (k', e) \<Longrightarrow> nk_tables k x = None \<Longrightarrow> nk_tables k' x = None"
proof (induction names arbitrary: first_error k)
  case (Cons name names)
  obtain k1 r where s: "sweep_one (env name) name k = (k1, r)" by (cases "sweep_one (env name) name k")
  with Cons sweep_one_tables(1) [OF s, of x] show ?case by simp
qed simp

text \<open>A failure in one environment does not stop the sweep of the others.\<close>

lemma sweep_all_sweeps:
  assumes "sweep_all env names first_error k = (k', e)" "n \<in> set names"
    and "\<And>k. is_ok (snd (sweep_one (env n) n k))"
  shows "swept k' n"
  using assms(1,2)
proof (induction names arbitrary: first_error k)
  case (Cons name names)
  obtain k1 r where s: "sweep_one (env name) name k = (k1, r)" by (cases "sweep_one (env name) name k")
  have rest: "sweep_all env names (opt_or first_error (err_of r)) k1 = (k', e)"
    using Cons.prems(1) s by simp
  show ?case
  proof (cases "n \<in> set names")
    case True
    with Cons.IH rest show ?thesis by blast
  next
    case False
    with Cons.prems have "name = n" by auto
    then have "swept k1 n" using assms(3) [of k] sweep_one_tables(2) [OF s] s by simp
    then show ?thesis using sweep_all_keeps_absent [OF rest] by (simp add: swept_def)
  qed
qed simp

lemma sweep_all_sound:
  assumes "sweep_all env names first_error k = (k', None)"
  shows "first_error = None \<and> (\<forall>n \<in> set names. swept k' n)"
  using assms
proof (induction names arbitrary: first_error k)
  case (Cons name names)
  obtain k1 r where s: "sweep_one (env name) name k = (k1, r)" by (cases "sweep_one (env name) name k")
  have rest: "sweep_all env names (opt_or first_error (err_of r)) k1 = (k', None)"
    using Cons.prems s by simp
  with Cons.IH have "opt_or first_error (err_of r) = None" and names: "\<forall>n \<in> set names. swept k' n"
    by blast+
  then have ok: "first_error = None" "is_ok r" by (cases first_error; cases r; simp)+
  then have "swept k' name"
    using sweep_one_tables(2) [OF s] sweep_all_keeps_absent [OF rest] by (simp add: swept_def)
  with ok names show ?case by simp
qed simp

end
