(* ===== verification/Exit_Refusal.thy ===== *)
theory Exit_Refusal
  imports Net_Types
begin

text \<open>
  Whether an exit refusal is worth waiting for
  (\<open>talpid-core/src/tunnel_state_machine/exit_refusal.rs\<close>). The process-global run of refusals is
  a value threaded through the operations; the account API is the argument \<open>ask\<close>.
\<close>

section \<open>The policy\<close>

datatype SubscriptionStatus = Active | Inactive | Unknown

definition UNVERIFIED_PATIENCE :: duration where "UNVERIFIED_PATIENCE = from_secs 45"
definition STATUS_TTL :: duration where "STATUS_TTL = from_secs 15"
definition STATUS_TIMEOUT :: duration where "STATUS_TIMEOUT = from_secs 3"
definition CONFIRMED_TRANSIENT_FLOOR :: duration where "CONFIRMED_TRANSIENT_FLOOR = from_millis 500"

record LapPacing =
  confirmed_transient :: bool

definition ANTI_SPIN :: LapPacing where "ANTI_SPIN = \<lparr>confirmed_transient = False\<rparr>"
definition CONFIRMED :: LapPacing where "CONFIRMED = \<lparr>confirmed_transient = True\<rparr>"

definition pacing_floor :: "LapPacing \<Rightarrow> duration \<Rightarrow> duration" where
  "pacing_floor p base = (if confirmed_transient p then CONFIRMED_TRANSIENT_FLOOR else base)"

record Refusal =
  rf_reason :: string
  rf_if_active :: "string option"
  rf_retry_while_unverified :: bool

record Run =
  run_started :: instant
  run_reason :: string
  run_if_active :: "string option"
  run_retry_while_unverified :: bool
  run_answer :: "(SubscriptionStatus \<times> instant) option"

type_synonym Refusals = "Run option"

datatype Verdict = Retry | Surface | SurfaceWhileActive

definition verdict :: "SubscriptionStatus \<Rightarrow> duration \<Rightarrow> bool \<Rightarrow> bool \<Rightarrow> Verdict" where
  "verdict status refusing_for explained_while_active retry_while_unverified =
     (case status of
        Active \<Rightarrow>
          if explained_while_active \<and> UNVERIFIED_PATIENCE \<le> refusing_for then SurfaceWhileActive
          else Retry
      | Inactive \<Rightarrow> Surface
      | Unknown \<Rightarrow>
          if retry_while_unverified then Retry
          else if UNVERIFIED_PATIENCE \<le> refusing_for then Surface
          else Retry)"

section \<open>The run of refusals\<close>

definition note_attempt :: "Refusals \<Rightarrow> Refusal option \<Rightarrow> instant \<Rightarrow> Refusals" where
  "note_attempt run rejection now =
     (case rejection of
        Some refusal \<Rightarrow>
          (case run of
             Some r \<Rightarrow>
               Some (r\<lparr>run_reason := rf_reason refusal, run_if_active := rf_if_active refusal,
                       run_retry_while_unverified := rf_retry_while_unverified refusal\<rparr>)
           | None \<Rightarrow>
               Some \<lparr>run_started = now, run_reason = rf_reason refusal,
                     run_if_active = rf_if_active refusal,
                     run_retry_while_unverified = rf_retry_while_unverified refusal,
                     run_answer = None\<rparr>)
      | None \<Rightarrow> None)"

definition pending :: "Refusals \<Rightarrow> instant \<Rightarrow> SubscriptionStatus option option" where
  "pending run now =
     (case run of
        None \<Rightarrow> None
      | Some r \<Rightarrow>
          Some (case run_answer r of
                  Some (status, at) \<Rightarrow>
                    if duration_since now at < STATUS_TTL then Some status else None
                | None \<Rightarrow> None))"

definition record_answer :: "Refusals \<Rightarrow> SubscriptionStatus \<Rightarrow> instant \<Rightarrow> Refusals" where
  "record_answer run status now =
     (case run of Some r \<Rightarrow> Some (r\<lparr>run_answer := Some (status, now)\<rparr>) | None \<Rightarrow> None)"

definition decide ::
    "Refusals \<Rightarrow> SubscriptionStatus \<Rightarrow> instant \<Rightarrow> Refusals \<times> ErrorStateCause option" where
  "decide run status now =
     (case run of
        None \<Rightarrow> (None, None)
      | Some r \<Rightarrow>
          let refusing_for = duration_since now (run_started r) in
          (case verdict status refusing_for (run_if_active r \<noteq> None) (run_retry_while_unverified r) of
             Retry \<Rightarrow> (Some r, None)
           | Surface \<Rightarrow> (None, Some (AuthFailed (Some (run_reason r))))
           | SurfaceWhileActive \<Rightarrow>
               (None, Some (AuthFailed (opt_or (run_if_active r) (Some (run_reason r)))))))"

definition pacing :: "Refusals \<Rightarrow> instant \<Rightarrow> LapPacing" where
  "pacing run now =
     (case run of
        Some r \<Rightarrow>
          (case run_answer r of
             Some (Active, at) \<Rightarrow> if duration_since now at < STATUS_TTL then CONFIRMED else ANTI_SPIN
           | _ \<Rightarrow> ANTI_SPIN)
      | None \<Rightarrow> ANTI_SPIN)"

definition forget_run :: Refusals where "forget_run = None"

definition run_is_open :: "Refusals \<Rightarrow> bool" where "run_is_open run \<longleftrightarrow> run \<noteq> None"

text \<open>
  The cause to park on, if any. The last component tells whether the API was asked.
\<close>

definition block_reason_before_dialing ::
    "Refusals \<Rightarrow> instant \<Rightarrow> SubscriptionStatus \<Rightarrow> Refusals \<times> ErrorStateCause option \<times> bool" where
  "block_reason_before_dialing run now ask =
     (case pending run now of
        None \<Rightarrow> (run, None, False)
      | Some (Some status) \<Rightarrow>
          (case decide run status now of (run', cause) \<Rightarrow> (run', cause, False))
      | Some None \<Rightarrow>
          (case decide (record_answer run ask now) ask now of (run', cause) \<Rightarrow> (run', cause, True)))"

section \<open>Lemmas\<close>

lemma decide_cases:
  assumes "decide (Some r) status now = (run', cause)"
  shows "cause = None \<and> run' = Some r \<or> (\<exists>reason. cause = Some (AuthFailed (Some reason)) \<and> run' = None)"
  using assms by (cases "run_if_active r") (auto simp: decide_def Let_def split: Verdict.splits)

lemma decide_None: "decide (Some r) status now = (run', None) \<Longrightarrow> run' = Some r"
  using decide_cases [of r status now run' None] by simp

lemma verdict_active_explained:
  "verdict Active d explained unverified = SurfaceWhileActive \<longleftrightarrow> explained \<and> UNVERIFIED_PATIENCE \<le> d"
  "verdict Active d explained unverified \<noteq> Surface"
  by (simp_all add: verdict_def)

text \<open>
  A refusal loop: each lap ends in a refusal noted at one time and the next dial is judged at
  another, with what the API would answer then. A cause to park on ends the loop. The result holds
  the times the API was asked.
\<close>

type_synonym lap = "Refusal \<times> instant \<times> instant \<times> SubscriptionStatus"

primrec refusal_loop :: "lap list \<Rightarrow> Refusals \<Rightarrow> instant list" where
  "refusal_loop [] run = []"
| "refusal_loop (l # ls) run =
     (case l of (refusal, noted, now, ask) \<Rightarrow>
        (case block_reason_before_dialing (note_attempt run (Some refusal) noted) now ask of
           (run', cause, asked) \<Rightarrow>
             (if asked then [now] else []) @ (if cause = None then refusal_loop ls run' else [])))"

definition asked_at :: "Refusals \<Rightarrow> instant option" where
  "asked_at run = (case run of Some r \<Rightarrow> map_option snd (run_answer r) | None \<Rightarrow> None)"

lemma asked_at_note [simp]: "asked_at (note_attempt run (Some refusal) noted) = asked_at run"
  by (auto simp: asked_at_def note_attempt_def split: option.splits)

lemma block_reason_asks:
  assumes "block_reason_before_dialing run now ask = (run', cause, asked)"
  shows "asked \<Longrightarrow> case asked_at run of Some at \<Rightarrow> at + STATUS_TTL \<le> now | None \<Rightarrow> True"
    and "cause = None \<Longrightarrow> asked_at run' = (if asked then Some now else asked_at run)"
proof -
  show "asked \<Longrightarrow> case asked_at run of Some at \<Rightarrow> at + STATUS_TTL \<le> now | None \<Rightarrow> True"
    using assms
    by (cases run)
       (auto simp: block_reason_before_dialing_def pending_def asked_at_def duration_since_def STATUS_TTL_def
         from_secs_def split: option.splits prod.splits if_splits)
  show "cause = None \<Longrightarrow> asked_at run' = (if asked then Some now else asked_at run)"
  proof (cases run)
    case (Some r)
    then show "cause = None \<Longrightarrow> ?thesis"
      using assms
      by (auto simp: block_reason_before_dialing_def asked_at_def record_answer_def
          split: option.splits prod.splits dest!: decide_None)
  qed (use assms in \<open>auto simp: block_reason_before_dialing_def pending_def\<close>)
qed

lemma refusal_loop_spaced:
  "successively (\<lambda>a b. a + STATUS_TTL \<le> b)
     ((case asked_at run of Some at \<Rightarrow> [at] | None \<Rightarrow> []) @ refusal_loop laps run)"
proof (induction laps arbitrary: run)
  case Nil
  then show ?case by (cases "asked_at run") simp_all
next
  case (Cons l laps)
  obtain refusal noted now ask where l: "l = (refusal, noted, now, ask)" by (cases l)
  obtain run' cause asked where
    b: "block_reason_before_dialing (note_attempt run (Some refusal) noted) now ask = (run', cause, asked)"
    by (cases "block_reason_before_dialing (note_attempt run (Some refusal) noted) now ask")
  from block_reason_asks [OF b] Cons.IH [of run'] show ?case
    by (cases asked; cases "asked_at run"; cases "cause = None") (auto simp: l b successively_Cons)
qed

section \<open>Properties\<close>

text \<open>
  C18. A wallet with an active subscription is never told that its account ran out: when the account
  API reports an active subscription, a refusal is surfaced only if the exit gave what it means
  under an active subscription, with that message, and not before the run of refusals has lasted
  the full patience.
\<close>

theorem active_never_out_of_time:
  assumes "pending run now = None \<or> pending run now = Some (Some Active) \<or>
      pending run now = Some None \<and> ask = Active"
    and "block_reason_before_dialing run now ask = (run', Some cause, asked)"
  shows "\<exists>r message. run = Some r \<and> run_if_active r = Some message \<and>
     cause = AuthFailed (Some message) \<and> run_started r + from_secs 45 \<le> now"
proof (cases run)
  case None
  with assms show ?thesis by (simp add: block_reason_before_dialing_def pending_def)
next
  case (Some r)
  have "decide (Some r') Active now = (run', Some cause) \<Longrightarrow>
      \<exists>message. run_if_active r' = Some message \<and> cause = AuthFailed (Some message) \<and>
        run_started r' + from_secs 45 \<le> now" for r'
    by (auto simp: decide_def Let_def verdict_def UNVERIFIED_PATIENCE_def duration_since_def from_secs_def
        split: if_splits)
  from this [of r] this [of "r\<lparr>run_answer := Some (Active, now)\<rparr>"] assms Some show ?thesis
    by (auto simp: block_reason_before_dialing_def record_answer_def split: option.splits prod.splits)
qed

definition sample_run :: Run where
  "sample_run =
     \<lparr>run_started = from_secs 10, run_reason = ''EXPIRED_ACCOUNT'', run_if_active = Some ''TOO_MANY_DEVICES'',
      run_retry_while_unverified = False, run_answer = None\<rparr>"

theorem active_never_out_of_time_witness:
  "block_reason_before_dialing (Some sample_run) (from_secs 60) Active =
     (None, Some (AuthFailed (Some ''TOO_MANY_DEVICES'')), True) \<and>
   run_started sample_run + from_secs 45 \<le> from_secs 60"
proof -
  have b: "block_reason_before_dialing (Some sample_run) (from_secs 60) Active =
     (None, Some (AuthFailed (Some ''TOO_MANY_DEVICES'')), True)"
    by (simp add: block_reason_before_dialing_def pending_def sample_run_def record_answer_def decide_def
        Let_def verdict_def UNVERIFIED_PATIENCE_def duration_since_def from_secs_def)
  have "pending (Some sample_run) (from_secs 60) = Some None"
    by (simp add: pending_def sample_run_def)
  with active_never_out_of_time [OF _ b] b show ?thesis by simp
qed


end
