(* ===== verification/Reconnect.thy ===== *)
theory Reconnect
  imports Exit_Refusal
begin

text \<open>
  The pacing of the reconnect loop and its flap detector
  (\<open>talpid-core/src/tunnel_state_machine/connecting_state.rs\<close>). The process-global window of
  recent reconnects is the list of their times, oldest first.
\<close>

section \<open>The retry interval\<close>

definition MIN_TUNNEL_ALIVE_TIME :: duration where "MIN_TUNNEL_ALIVE_TIME = from_millis 1000"
definition FAST_RETRY_ATTEMPTS :: "32 word" where "FAST_RETRY_ATTEMPTS = 4"
definition MAX_RECONNECT_FLOOR :: duration where "MAX_RECONNECT_FLOOR = from_secs 10"

definition reconnect_floor :: "32 word \<Rightarrow> LapPacing \<Rightarrow> duration" where
  "reconnect_floor retry_attempt p =
     (let doublings = u32_saturating_sub retry_attempt (FAST_RETRY_ATTEMPTS - 1);
          factor = unwrap_or (u32_checked_shl 1 doublings) u32_max
      in min (duration_saturating_mul (pacing_floor p MIN_TUNNEL_ALIVE_TIME) factor) MAX_RECONNECT_FLOOR)"

text \<open>
  The time a failed lap is padded by: nothing for a lap that ends in a block reason, and otherwise
  what is left of the floor.
\<close>

definition lap_padding :: "'c option \<Rightarrow> 32 word \<Rightarrow> LapPacing \<Rightarrow> duration \<Rightarrow> duration" where
  "lap_padding block_reason retry_attempt p elapsed =
     (if block_reason = None \<and> elapsed \<le> reconnect_floor retry_attempt p
      then reconnect_floor retry_attempt p - elapsed else 0)"

section \<open>The flap detector\<close>

definition FLAP_MAX :: nat where "FLAP_MAX = 6"
definition FLAP_WINDOW :: duration where "FLAP_WINDOW = from_secs 25"

definition note_reconnect_and_is_flapping :: "instant list \<Rightarrow> instant \<Rightarrow> instant list \<times> bool" where
  "note_reconnect_and_is_flapping laps now =
     (let laps' = filter (\<lambda>t. duration_since now t < FLAP_WINDOW) laps @ [now]
      in (laps', FLAP_MAX < length laps'))"

definition reset_flap_detector :: "instant list" where
  "reset_flap_detector = []"

section \<open>Lemmas\<close>

lemma reconnect_floor_factor:
  "unat (unwrap_or (u32_checked_shl 1 doublings) u32_max) =
     (if unat doublings < 32 then 2 ^ unat doublings else 2 ^ 32 - 1)"
proof (cases "unat doublings < 32")
  case True
  have "(2 :: nat) ^ unat doublings < 2 ^ 32" using True by (intro power_strict_increasing) simp_all
  moreover have "push_bit (unat doublings) (1 :: 32 word) = of_nat (2 ^ unat doublings)"
    by (simp add: push_bit_eq_mult)
  ultimately have "unat (push_bit (unat doublings) (1 :: 32 word)) = 2 ^ unat doublings"
    by (simp only: unat_of_nat) simp
  with True show ?thesis by (simp add: u32_checked_shl_def)
qed (simp add: u32_checked_shl_def unat_u32_max)

lemma reconnect_floor_eq:
  "reconnect_floor retry_attempt p =
     min (pacing_floor p MIN_TUNNEL_ALIVE_TIME * 2 ^ (unat retry_attempt - 3)) MAX_RECONNECT_FLOOR"
proof -
  define d where "d = u32_saturating_sub retry_attempt (FAST_RETRY_ATTEMPTS - 1)"
  define base where "base = pacing_floor p MIN_TUNNEL_ALIVE_TIME"
  have d: "unat d = unat retry_attempt - 3"
    by (simp add: d_def unat_u32_saturating_sub FAST_RETRY_ATTEMPTS_def)
  have base: "500000000 \<le> base" "base \<le> 1000000000"
    by (simp_all add: base_def pacing_floor_def CONFIRMED_TRANSIENT_FLOOR_def MIN_TUNNEL_ALIVE_TIME_def
        from_millis_def)
  have top: "MAX_RECONNECT_FLOOR = 10000000000" by (simp add: MAX_RECONNECT_FLOOR_def from_secs_def)
  have fits: "base * unat f \<le> duration_max" for f :: "32 word"
  proof -
    have "unat f < 2 ^ 32" using unsigned_less [of f] by simp
    then have "base * unat f \<le> 1000000000 * 2 ^ 32"
      using base(2) by (intro mult_mono) simp_all
    then show ?thesis by (simp add: duration_max_def)
  qed
  show ?thesis
  proof (cases "unat d < 32")
    case True
    then show ?thesis
      using fits [of "unwrap_or (u32_checked_shl 1 d) u32_max"]
      by (simp add: reconnect_floor_def Let_def duration_saturating_mul_def reconnect_floor_factor
          flip: d_def base_def d)
  next
    case False
    have "(2 :: nat) ^ 32 \<le> 2 ^ unat d" using False by (intro power_increasing) simp_all
    then have "500000000 * 2 ^ 32 \<le> base * 2 ^ unat d" using base(1) by (intro mult_mono) simp_all
    then have "MAX_RECONNECT_FLOOR \<le> base * 2 ^ unat d" using top by simp
    moreover have "500000000 * 4294967295 \<le> base * 4294967295" using base(1) by (intro mult_mono) simp_all
    then have "MAX_RECONNECT_FLOOR \<le> base * 4294967295" using top by simp
    ultimately show ?thesis
      using False fits [of "unwrap_or (u32_checked_shl 1 d) u32_max"]
      by (simp add: reconnect_floor_def Let_def duration_saturating_mul_def reconnect_floor_factor min_def
          flip: d_def base_def d)
  qed
qed

text \<open>
  A window that drops what is too old each time something is added holds what a filter of the whole
  history would.
\<close>

locale sliding_window =
  fixes fresh :: "instant \<Rightarrow> instant \<Rightarrow> bool"
  assumes stale_stays: "\<not> fresh now t \<Longrightarrow> now \<le> later \<Longrightarrow> \<not> fresh later t"
begin

definition add :: "instant list \<Rightarrow> instant \<Rightarrow> instant list" where
  "add win now = filter (fresh now) win @ [now]"

lemma filter_stale:
  assumes "now \<le> later"
  shows "filter (fresh later) (filter (fresh now) xs) = filter (fresh later) xs"
  using stale_stays [OF _ assms] by (induction xs) auto

lemma window_is_recent_history:
  assumes "sorted (ts @ [now])"
  shows "add (fold (\<lambda>t win. add win t) ts []) now = filter (fresh now) ts @ [now]"
  using assms
proof (induction ts arbitrary: now rule: rev_induct)
  case (snoc t ts)
  have "sorted (ts @ [t])" and le: "t \<le> now" using snoc.prems by (auto simp: sorted_append)
  then have IH: "add (fold (\<lambda>t win. add win t) ts []) t = filter (fresh t) ts @ [t]"
    using snoc.IH by blast
  show ?case
    unfolding add_def [of _ now] fold_append
    using filter_stale [OF le, of ts] by (simp add: IH del: filter_filter)
qed (simp add: add_def)

end

interpretation flap_window: sliding_window "\<lambda>now t. duration_since now t < FLAP_WINDOW"
  by unfold_locales (auto simp: duration_since_def)

lemma note_reconnect_add: "fst (note_reconnect_and_is_flapping laps now) = flap_window.add laps now"
  by (simp add: note_reconnect_and_is_flapping_def Let_def flap_window.add_def)

lemma note_reconnect_flapping:
  "snd (note_reconnect_and_is_flapping laps now) \<longleftrightarrow> 6 < length (flap_window.add laps now)"
  by (simp add: note_reconnect_and_is_flapping_def Let_def flap_window.add_def FLAP_MAX_def)

section \<open>Properties\<close>

text \<open>
  C20. The retry interval, for every attempt number a 32-bit counter can hold: the base floor (one
  second, or half a second while an active subscription is freshly confirmed) for the first four
  attempts, doubled for each attempt after them, and ten seconds at most; no step of the computation
  overflows or saturates below that ceiling.
\<close>

theorem reconnect_floor_schedule:
  "reconnect_floor retry_attempt p =
     min (10 ^ 10) ((if confirmed_transient p then 5 * 10 ^ 8 else 10 ^ 9) * 2 ^ (unat retry_attempt - 3))"
  by (simp add: reconnect_floor_eq pacing_floor_def CONFIRMED_TRANSIENT_FLOOR_def MIN_TUNNEL_ALIVE_TIME_def
      MAX_RECONNECT_FLOOR_def from_millis_def from_secs_def min.commute)

text \<open>
  C21. The flap detector sees the whole history: after reconnects at the times \<open>ts\<close>, none of them in
  the future, a reconnect at \<open>now\<close> is reported as flapping exactly when more than six reconnects of
  that history, this one included, happened within the last twenty-five seconds.
\<close>

theorem flapping_iff_recent_laps:
  assumes "sorted (ts @ [now])"
  shows "snd (note_reconnect_and_is_flapping
       (fold (\<lambda>t laps. fst (note_reconnect_and_is_flapping laps t)) ts reset_flap_detector) now) \<longleftrightarrow>
     6 < length (filter (\<lambda>t. now < t + from_secs 25) (ts @ [now]))"
proof -
  have fresh: "duration_since now t < FLAP_WINDOW \<longleftrightarrow> now < t + from_secs 25" if "t \<le> now" for t
    using that by (auto simp: duration_since_def FLAP_WINDOW_def)
  have "filter (\<lambda>t. duration_since now t < FLAP_WINDOW) ts = filter (\<lambda>t. now < t + from_secs 25) ts"
    using assms fresh by (intro filter_cong) (auto simp: sorted_append)
  then show ?thesis
    using flap_window.window_is_recent_history [OF assms]
    by (simp add: note_reconnect_flapping note_reconnect_add reset_flap_detector_def from_secs_def)
qed

theorem flapping_iff_recent_laps_witness:
  "snd (note_reconnect_and_is_flapping
     (fold (\<lambda>t laps. fst (note_reconnect_and_is_flapping laps t))
        (map from_secs [0, 40, 44, 48, 52, 56, 60]) reset_flap_detector) (from_secs 64))"
proof -
  have "sorted (map from_secs [0, 40, 44, 48, 52, 56, 60] @ [from_secs 64])" by (simp add: from_secs_def)
  from flapping_iff_recent_laps [OF this] show ?thesis by (simp add: from_secs_def)
qed

end
