(* ===== verification/Backend_Params.thy ===== *)
theory Backend_Params
  imports Firewall_Policy
begin

text \<open>
  What the state machine reads of a tunnel's parameters
  (\<open>talpid-core/src/tunnel_state_machine/backend_params.rs\<close>): the endpoints the firewall opens, the
  endpoint the transitions publish and whether the circuit has several hops. The parameters
  themselves (\<open>talpid-warren-tunnel/src/params.rs\<close>) are modelled by the fields the state machine
  uses.
\<close>

record MultiHopConfig =
  mh_relay_endpoint :: SocketAddr
  mh_relay_endpoint_v6 :: "SocketAddr option"
  mh_exit_endpoint :: "SocketAddr option"
  mh_single_node :: bool

record WarrenTunnelParameters =
  wp_exit_addrs :: "SocketAddr list"
  wp_multi_hop :: "MultiHopConfig option"
  wp_enable_daita :: bool
  wp_include_only :: bool
  wp_lan_networks :: "IpNetwork list option"

record WarrenBackendInfo =
  bi_exit_candidates :: "SocketAddr list"
  bi_relay_endpoint :: "SocketAddr option"
  bi_relay_endpoint_v6 :: "SocketAddr option"
  bi_exit_endpoint :: "SocketAddr option"
  bi_enable_daita :: bool
  bi_single_node :: bool

definition from_params :: "WarrenTunnelParameters \<Rightarrow> WarrenBackendInfo" where
  "from_params p =
     (let (relay_endpoint, relay_endpoint_v6, exit_endpoint) =
        (case wp_multi_hop p of
           Some mh \<Rightarrow> (Some (mh_relay_endpoint mh), mh_relay_endpoint_v6 mh, mh_exit_endpoint mh)
         | None \<Rightarrow> (None, None, None))
      in \<lparr>bi_exit_candidates = wp_exit_addrs p, bi_relay_endpoint = relay_endpoint,
          bi_relay_endpoint_v6 = relay_endpoint_v6, bi_exit_endpoint = exit_endpoint,
          bi_enable_daita = wp_enable_daita p,
          bi_single_node = (case wp_multi_hop p of Some mh \<Rightarrow> mh_single_node mh | None \<Rightarrow> False)\<rparr>)"

definition carriers :: "SocketAddr \<Rightarrow> Endpoint list" where
  "carriers addr = map (from_socket_address addr) [Udp, Tcp]"

definition get_next_hop_endpoints :: "WarrenBackendInfo \<Rightarrow> Endpoint list" where
  "get_next_hop_endpoints info =
     (case bi_relay_endpoint info of
        Some relay \<Rightarrow>
          concat (map carriers
            ([relay] @ (case bi_relay_endpoint_v6 info of Some v6 \<Rightarrow> [v6] | None \<Rightarrow> [])))
      | None \<Rightarrow> concat (map carriers (bi_exit_candidates info)))"

definition is_multi_hop :: "WarrenBackendInfo \<Rightarrow> bool" where
  "is_multi_hop info \<longleftrightarrow> bi_relay_endpoint info \<noteq> None"

definition unspecified :: SocketAddr where
  "unspecified = socket_new (V4 0) 0"

definition endpoint_for :: "WarrenBackendInfo \<Rightarrow> SocketAddr \<Rightarrow> Endpoint option \<Rightarrow> TunnelEndpoint" where
  "endpoint_for info addr entry =
     \<lparr>te_endpoint = from_socket_address addr Udp, te_quantum_resistant = False, te_obfuscation = None,
      te_entry_endpoint = entry, te_tunnel_interface = None, te_daita = bi_enable_daita info,
      te_effective_mtu = None, te_legs_bonded = 0, te_legs_not_delivering = 0,
      te_tunnel_type = Warren\<rparr>"

definition warren_tunnel_endpoint :: "WarrenBackendInfo \<Rightarrow> TunnelEndpoint" where
  "warren_tunnel_endpoint info =
     (if bi_single_node info
      then endpoint_for info
             (unwrap_or (opt_or (bi_relay_endpoint info) (list_first (bi_exit_candidates info))) unspecified)
             None
      else
        let (endpoint_addr, entry_endpoint) =
          (case (bi_exit_endpoint info, bi_relay_endpoint info) of
             (Some exit_ep, Some relay_ep) \<Rightarrow> (exit_ep, Some (from_socket_address relay_ep Udp))
           | (None, Some relay_ep) \<Rightarrow> (unspecified, Some (from_socket_address relay_ep Udp))
           | _ \<Rightarrow> (unwrap_or (list_first (bi_exit_candidates info)) unspecified, None))
        in endpoint_for info endpoint_addr entry_endpoint)"

definition relay_peers :: "Endpoint list \<Rightarrow> AllowedEndpoint list" where
  "relay_peers endpoints = map (\<lambda>e. \<lparr>ae_endpoint = e, ae_clients = ClientsRoot\<rparr>) endpoints"

section \<open>Lemmas\<close>

lemma relay_peers_root: "e \<in> set (relay_peers endpoints) \<Longrightarrow> \<not> clients_allow_all (ae_clients e)"
  by (auto simp: relay_peers_def clients_allow_all_def)

lemma set_carriers: "e \<in> set (carriers addr) \<longleftrightarrow> ep_address e = addr"
  by (cases e; cases "ep_protocol e") (auto simp: carriers_def from_socket_address_def)

section \<open>Properties\<close>

text \<open>
  C23. The endpoints the kill switch opens for the tunnel are the addresses the client dials and no
  other: on a multi-hop circuit the entry relay's addresses, of either family, and never the exit;
  otherwise the exit's candidate addresses. Each is open on both carriers (UDP and TCP) and to root
  alone.
\<close>

theorem next_hop_endpoints_exact:
  "ep \<in> set (relay_peers (get_next_hop_endpoints (from_params p))) \<longleftrightarrow>
     ae_clients ep = ClientsRoot \<and>
     (case wp_multi_hop p of
        Some mh \<Rightarrow>
          ep_address (ae_endpoint ep) = mh_relay_endpoint mh \<or>
          mh_relay_endpoint_v6 mh = Some (ep_address (ae_endpoint ep))
      | None \<Rightarrow> ep_address (ae_endpoint ep) \<in> set (wp_exit_addrs p))"
  by (cases ep)
     (auto simp: relay_peers_def get_next_hop_endpoints_def from_params_def Let_def set_carriers
       split: option.splits)

text \<open>
  What a transition publishes as the tunnel's endpoint: an entry hop is shown exactly for a
  circuit of two nodes, it is the relay the client dials, and a hidden exit is never replaced by
  another address but shown as unspecified.
\<close>

theorem published_endpoint_hops:
  assumes "wp_multi_hop p = Some mh"
  shows "te_entry_endpoint (warren_tunnel_endpoint (from_params p)) =
       (if mh_single_node mh then None else Some (from_socket_address (mh_relay_endpoint mh) Udp)) \<and>
     te_endpoint (warren_tunnel_endpoint (from_params p)) =
       from_socket_address
         (if mh_single_node mh then mh_relay_endpoint mh
          else unwrap_or (mh_exit_endpoint mh) unspecified) Udp"
  using assms
  by (auto simp: warren_tunnel_endpoint_def from_params_def Let_def endpoint_for_def split: option.splits)

definition sample_hops :: MultiHopConfig where
  "sample_hops =
     \<lparr>mh_relay_endpoint = SocketV4 1 443, mh_relay_endpoint_v6 = None, mh_exit_endpoint = None,
      mh_single_node = False\<rparr>"

definition sample_params :: WarrenTunnelParameters where
  "sample_params =
     \<lparr>wp_exit_addrs = [], wp_multi_hop = Some sample_hops, wp_enable_daita = False,
      wp_include_only = False, wp_lan_networks = None\<rparr>"

theorem published_endpoint_hops_witness:
  "te_entry_endpoint (warren_tunnel_endpoint (from_params sample_params)) =
     Some (from_socket_address (SocketV4 1 443) Udp)"
  using published_endpoint_hops [of sample_params sample_hops]
  by (simp add: sample_params_def sample_hops_def)

end
