(* ===== verification/Tunnel_Shared.thy ===== *)
theory Tunnel_Shared
  imports Firewall_Laws Reconnect Backend_Params
begin

text \<open>
  What the states of the tunnel state machine share
  (\<open>talpid-core/src/tunnel_state_machine/mod.rs\<close> and \<open>lan_routes.rs\<close>): the commands, the lockdown
  mode, the shared values with their operations and the calls to the outside.

  Every call to the outside (the firewall's kernel, the DNS monitor, NetworkManager, the parameter
  generator, the account API, the clock) is answered by a \<open>world\<close>: the n-th call of a run by its
  n-th answer. The effects of a run are logged, newest first; they carry what later properties speak
  about.
\<close>

section \<open>Commands and modes\<close>

datatype LockdownMode = Disabled | Enabled bool

definition lockdown_yes :: LockdownMode where "lockdown_yes = Enabled True"
definition lockdown_no :: LockdownMode where "lockdown_no = Disabled"

definition lockdown_bool :: "LockdownMode \<Rightarrow> bool" where
  "lockdown_bool m = (case m of Enabled _ \<Rightarrow> True | Disabled \<Rightarrow> False)"

text \<open>Off Windows the persistence of the lockdown has no meaning of its own.\<close>

definition should_persist :: "LockdownMode \<Rightarrow> bool" where "should_persist m = True"
definition lockdown_persist :: "LockdownMode \<Rightarrow> bool \<Rightarrow> LockdownMode" where "lockdown_persist m b = m"

definition lockdown_from :: "bool \<Rightarrow> LockdownMode" where
  "lockdown_from b = (if b then lockdown_yes else lockdown_no)"

definition lockdown_eq :: "LockdownMode \<Rightarrow> LockdownMode \<Rightarrow> bool" where
  "lockdown_eq a b \<longleftrightarrow> lockdown_bool a = lockdown_bool b"

datatype TunnelCommand =
    CmdAllowLan bool "IpNetwork list"
  | CmdAllowEndpoint AllowedEndpoint
  | CmdDns DnsConfig
  | CmdLockdownMode LockdownMode
  | CmdTailnetInterfacesChanged
  | CmdConnectivity Connectivity
  | CmdConnect
  | CmdDisconnect
  | CmdBlock ErrorStateCause
  | CmdSetSplitApps SplitApps

datatype EventResult =
    RCommand "TunnelCommand option"
  | REvent "TunnelEvent option"
  | RClose "(unit, ErrorStateCause option) result"
  | ROfflineGraceExpired

definition enforceable_mode :: "SplitTunnelMode \<Rightarrow> bool \<Rightarrow> SplitTunnelMode" where
  "enforceable_mode requested can =
     (if requested = IncludeOnly \<and> \<not> can then Exclude else requested)"

section \<open>LAN routes\<close>

definition routed :: "bool \<Rightarrow> IpNetwork list \<Rightarrow> IpNetwork list" where
  "routed allow_lan lan_networks = (if allow_lan then lan_networks else [])"

text \<open>The published networks and how often their followers were woken.\<close>

record LanRoutes =
  lr_current :: "IpNetwork list"
  lr_wakeups :: nat

definition lan_routes_new :: "bool \<Rightarrow> IpNetwork list \<Rightarrow> LanRoutes" where
  "lan_routes_new allow_lan lan_networks = \<lparr>lr_current = routed allow_lan lan_networks, lr_wakeups = 0\<rparr>"

definition lan_routes_update :: "LanRoutes \<Rightarrow> bool \<Rightarrow> IpNetwork list \<Rightarrow> LanRoutes" where
  "lan_routes_update r allow_lan lan_networks =
     (let new = routed allow_lan lan_networks
      in if lr_current r = new then r
         else r\<lparr>lr_current := new, lr_wakeups := lr_wakeups r + 1\<rparr>)"

definition lan_routes_subscribe :: "LanRoutes \<Rightarrow> IpNetwork list" where
  "lan_routes_subscribe r = lr_current r"

section \<open>The outside\<close>

datatype effect =
    FwApply FirewallPolicy bool
  | FwReset bool
  | DnsSet string ResolvedDnsConfig bool
  | DnsReset
  | DnsResetBeforeRemoval
  | ClearRoutes
  | ForceRouteCleanup
  | ClearRoutingRules
  | SendClose
  | StartTunnel WarrenTunnelParameters "32 word"
  | AskedSubscription
  | NmEnable
  | Ack

record world_answer =
  wa_fw :: fw_env
  wa_dns_ok :: bool
  wa_params :: "32 word \<Rightarrow> (ParameterGenerationError, WarrenTunnelParameters) result"
  wa_subscription :: SubscriptionStatus
  wa_now :: instant
  wa_nm_disable :: "bool option option"

type_synonym world = "nat \<Rightarrow> world_answer"

record SharedTunnelStateValues =
  sv_tick :: nat
  sv_log :: "effect list"
  sv_table :: string
  sv_kernel :: net_kernel
  sv_split_mode :: SplitTunnelMode
  sv_firewall :: Firewall
  sv_allow_lan :: bool
  sv_lan_networks :: "IpNetwork list"
  sv_lan_routes :: LanRoutes
  sv_lockdown_mode :: LockdownMode
  sv_connectivity :: Connectivity
  sv_dns_config :: DnsConfig
  sv_allowed_endpoint :: AllowedEndpoint
  sv_connectivity_check_was_enabled :: "bool option"
  sv_recent_reconnects :: "instant list"
  sv_refusals :: Refusals

type_synonym shared = SharedTunnelStateValues

definition answer :: "world \<Rightarrow> shared \<Rightarrow> world_answer" where
  "answer w s = w (sv_tick s)"

definition tick :: "shared \<Rightarrow> shared" where
  "tick s = s\<lparr>sv_tick := Suc (sv_tick s)\<rparr>"

definition emit :: "effect \<Rightarrow> shared \<Rightarrow> shared" where
  "emit e s = s\<lparr>sv_log := e # sv_log s\<rparr>"

definition fw_apply :: "world \<Rightarrow> FirewallPolicy \<Rightarrow> shared \<Rightarrow> shared \<times> (fw_error, unit) result" where
  "fw_apply w policy s =
     (case apply_policy (sv_table s) (wa_fw (answer w s)) policy (sv_firewall s) (sv_kernel s) of
        (k, r) \<Rightarrow> (emit (FwApply policy (is_ok r)) (tick s\<lparr>sv_kernel := k\<rparr>), r))"

definition fw_reset :: "world \<Rightarrow> shared \<Rightarrow> shared \<times> (fw_error, unit) result" where
  "fw_reset w s =
     (case reset_policy (sv_table s) (wa_fw (answer w s)) (sv_kernel s) of
        (k, r) \<Rightarrow> (emit (FwReset (is_ok r)) (tick s\<lparr>sv_kernel := k\<rparr>), r))"

definition dns_set :: "world \<Rightarrow> string \<Rightarrow> ResolvedDnsConfig \<Rightarrow> shared \<Rightarrow> shared \<times> bool" where
  "dns_set w interface config s =
     (emit (DnsSet interface config (wa_dns_ok (answer w s))) (tick s), wa_dns_ok (answer w s))"

section \<open>Operations of the shared values\<close>

definition reset_routes :: "shared \<Rightarrow> shared" where
  "reset_routes s = emit ClearRoutingRules (emit ForceRouteCleanup (emit ClearRoutes s))"

definition set_lockdown_mode :: "shared \<Rightarrow> LockdownMode \<Rightarrow> shared" where
  "set_lockdown_mode s lockdown_mode = s\<lparr>sv_lockdown_mode := lockdown_mode\<rparr>"

definition set_allow_lan :: "shared \<Rightarrow> bool \<Rightarrow> IpNetwork list \<Rightarrow> shared \<times> bool" where
  "set_allow_lan s allow_lan lan_networks =
     (if sv_allow_lan s \<noteq> allow_lan \<or> sv_lan_networks s \<noteq> lan_networks
      then (s\<lparr>sv_lan_routes := lan_routes_update (sv_lan_routes s) allow_lan lan_networks,
              sv_allow_lan := allow_lan, sv_lan_networks := lan_networks\<rparr>, True)
      else (s, False))"

definition set_dns_config :: "shared \<Rightarrow> DnsConfig \<Rightarrow> shared \<times> bool" where
  "set_dns_config s dns_config =
     (if sv_dns_config s \<noteq> dns_config then (s\<lparr>sv_dns_config := dns_config\<rparr>, True) else (s, False))"

definition disable_connectivity_check :: "world \<Rightarrow> shared \<Rightarrow> shared" where
  "disable_connectivity_check w s =
     (if sv_connectivity_check_was_enabled s = None
      then (case wa_nm_disable (answer w s) of
              Some was \<Rightarrow> tick s\<lparr>sv_connectivity_check_was_enabled := was\<rparr>
            | None \<Rightarrow> tick s)
      else s)"

definition reset_connectivity_check :: "world \<Rightarrow> shared \<Rightarrow> shared" where
  "reset_connectivity_check w s =
     (let s' = s\<lparr>sv_connectivity_check_was_enabled := None\<rparr>
      in if sv_connectivity_check_was_enabled s = Some True
         then (case wa_nm_disable (answer w s) of Some _ \<Rightarrow> emit NmEnable (tick s') | None \<Rightarrow> tick s')
         else s')"

definition set_split_apps :: "shared \<Rightarrow> SplitApps \<Rightarrow> shared \<times> bool" where
  "set_split_apps s apps =
     (let mode = enforceable_mode (sa_mode apps) (can_include (sv_firewall s));
          mode_changed = (sv_split_mode s \<noteq> mode)
      in (s\<lparr>sv_split_mode := mode,
            sv_firewall := set_include_only (sv_firewall s) (mode = IncludeOnly)\<rparr>, mode_changed))"

definition sv_include_only :: "shared \<Rightarrow> bool" where
  "sv_include_only s \<longleftrightarrow> sv_split_mode s = IncludeOnly"

end
