(* ===== verification/Tunnel_States.thy ===== *)
theory Tunnel_States
  imports Tunnel_Shared
begin

text \<open>
  The five states of the tunnel state machine and what each does with an event
  (\<open>disconnected_state.rs\<close>, \<open>disconnecting_state.rs\<close>, \<open>connecting_state.rs\<close>,
  \<open>connected_state.rs\<close> and \<open>error_state.rs\<close> of \<open>talpid-core/src/tunnel_state_machine\<close>). A state
  is entered by a function that returns the shared values, the state and the transition it reports;
  an event is handled by a function that returns the shared values and the consequence.
\<close>

section \<open>States\<close>

datatype AfterDisconnect = AfterNothing | AfterBlock ErrorStateCause | AfterReconnect "32 word"

fun after_action :: "AfterDisconnect \<Rightarrow> ActionAfterDisconnect" where
  "after_action AfterNothing = ActNothing"
| "after_action (AfterBlock _) = ActBlock"
| "after_action (AfterReconnect _) = ActReconnect"

record ConnectingState =
  cg_params :: WarrenBackendInfo
  cg_metadata :: "TunnelMetadata option"
  cg_traffic :: AllowedTunnelTraffic
  cg_retry_attempt :: "32 word"

record ConnectedState =
  cd_metadata :: TunnelMetadata
  cd_params :: WarrenBackendInfo
  cd_offline_grace_deadline :: "instant option"
  cd_peer_endpoints :: "Endpoint list"

datatype tunnel_state =
    StDisconnected
  | StDisconnecting AfterDisconnect
  | StConnecting ConnectingState
  | StConnected ConnectedState
  | StError ErrorStateCause

type_synonym entered = "shared \<times> tunnel_state \<times> TunnelStateTransition"

datatype consequence =
    NewState tunnel_state TunnelStateTransition
  | SameState tunnel_state
  | Finished
  | Panicked

definition new_state :: "entered \<Rightarrow> shared \<times> consequence" where
  "new_state e = (case e of (s, st, t) \<Rightarrow> (s, NewState st t))"

definition acked :: "shared \<times> consequence \<Rightarrow> shared \<times> consequence" where
  "acked r = (emit Ack (fst r), snd r)"

section \<open>Error\<close>

definition reconnects_on_connectivity :: "ErrorStateCause \<Rightarrow> Connectivity \<Rightarrow> bool" where
  "reconnects_on_connectivity block_reason connectivity =
     (if is_offline connectivity then False
      else case block_reason of
             IsOffline \<Rightarrow> conn_has_ipv4 connectivity
           | TunnelParameterError (IpVersionUnavailable family) \<Rightarrow> conn_has_family connectivity family
           | _ \<Rightarrow> False)"

definition blocked_policy :: "bool \<Rightarrow> IpNetwork list \<Rightarrow> AllowedEndpoint \<Rightarrow> FirewallPolicy" where
  "blocked_policy allow_lan lan_networks allowed_endpoint =
     Blocked allow_lan lan_networks (Some allowed_endpoint)"

definition sv_blocked_policy :: "shared \<Rightarrow> FirewallPolicy" where
  "sv_blocked_policy s = blocked_policy (sv_allow_lan s) (sv_lan_networks s) (sv_allowed_endpoint s)"

definition error_set_firewall_policy ::
    "world \<Rightarrow> shared \<Rightarrow> shared \<times> (FirewallPolicyError, unit) result" where
  "error_set_firewall_policy w s =
     (let policy = sv_blocked_policy s;
          s1 = disable_connectivity_check w s
      in case fw_apply w policy s1 of
           (s2, Inl _) \<Rightarrow> (s2, Err Generic)
         | (s2, Inr _) \<Rightarrow> (s2, Ok ()))"

definition error_enter :: "world \<Rightarrow> ErrorStateCause \<Rightarrow> shared \<Rightarrow> entered" where
  "error_enter w block_reason s =
     (case error_set_firewall_policy w s of
        (s1, r) \<Rightarrow>
          (s1, StError block_reason,
           TrError \<lparr>es_cause = block_reason, es_block_failure = err_of r\<rparr>))"

section \<open>Disconnected\<close>

definition disconnected_transition :: "shared \<Rightarrow> TunnelStateTransition" where
  "disconnected_transition s = TrDisconnected (lockdown_bool (sv_lockdown_mode s))"

definition disconnected_set_firewall_policy :: "world \<Rightarrow> bool \<Rightarrow> shared \<Rightarrow> shared" where
  "disconnected_set_firewall_policy w should_reset_firewall s =
     (if lockdown_bool (sv_lockdown_mode s)
      then fst (fw_apply w
             (Blocked (sv_allow_lan s) (sv_lan_networks s) (Some (sv_allowed_endpoint s))) s)
      else if should_reset_firewall then fst (fw_reset w s)
      else s)"

definition disconnected_enter :: "world \<Rightarrow> bool \<Rightarrow> shared \<Rightarrow> entered" where
  "disconnected_enter w should_reset_firewall s =
     (let s1 = emit ForceRouteCleanup s;
          s2 = disconnected_set_firewall_policy w should_reset_firewall s1;
          s3 = reset_connectivity_check w s2
      in (s3, StDisconnected, disconnected_transition s3))"

section \<open>Disconnecting\<close>

definition disconnecting_enter :: "AfterDisconnect \<Rightarrow> shared \<Rightarrow> entered" where
  "disconnecting_enter after s =
     (emit SendClose s, StDisconnecting after, TrDisconnecting (after_action after))"

section \<open>Connecting\<close>

definition refusal_block_reason :: "world \<Rightarrow> shared \<Rightarrow> shared \<times> ErrorStateCause option" where
  "refusal_block_reason w s =
     (let a = answer w s;
          s1 = tick s
      in case block_reason_before_dialing (sv_refusals s) (wa_now a) (wa_subscription a) of
           (run, cause, asked) \<Rightarrow>
             let s2 = s1\<lparr>sv_refusals := run\<rparr>
             in (if asked then emit AskedSubscription s2 else s2, cause))"

definition connecting_policy ::
    "shared \<Rightarrow> WarrenBackendInfo \<Rightarrow> TunnelMetadata option \<Rightarrow> AllowedTunnelTraffic \<Rightarrow> FirewallPolicy" where
  "connecting_policy s params metadata traffic =
     Connecting (relay_peers (get_next_hop_endpoints params)) metadata (sv_allow_lan s)
       (sv_lan_networks s) (sv_allowed_endpoint s) traffic"

definition connecting_set_firewall_policy ::
    "world \<Rightarrow> WarrenBackendInfo \<Rightarrow> TunnelMetadata option \<Rightarrow> AllowedTunnelTraffic \<Rightarrow> shared \<Rightarrow>
     shared \<times> (FirewallPolicyError, unit) result" where
  "connecting_set_firewall_policy w params metadata traffic s =
     (let s1 = disable_connectivity_check w s
      in case fw_apply w (connecting_policy s1 params metadata traffic) s1 of
           (s2, Inl _) \<Rightarrow> (s2, Err Generic)
         | (s2, Inr _) \<Rightarrow> (s2, Ok ()))"

definition start_tunnel_warren ::
    "WarrenTunnelParameters \<Rightarrow> 32 word \<Rightarrow> shared \<Rightarrow> shared \<times> ConnectingState" where
  "start_tunnel_warren parameters retry_attempt s =
     (emit (StartTunnel parameters retry_attempt) s,
      \<lparr>cg_params = from_params parameters, cg_metadata = None, cg_traffic = TrafficNone,
       cg_retry_attempt = retry_attempt\<rparr>)"

definition connecting_dial :: "world \<Rightarrow> 32 word \<Rightarrow> shared \<Rightarrow> entered" where
  "connecting_dial w retry_attempt s =
     (case wa_params (answer w s) retry_attempt of
        Inl err \<Rightarrow> error_enter w (TunnelParameterError err) (tick s)
      | Inr params \<Rightarrow>
          let s1 = tick s;
              params = params\<lparr>wp_include_only := sv_include_only s1,
                              wp_lan_networks := Some (lan_routes_subscribe (sv_lan_routes s1))\<rparr>
          in case connecting_set_firewall_policy w (from_params params) None TrafficNone s1 of
               (s2, Inl error) \<Rightarrow> error_enter w (SetFirewallPolicyError error) s2
             | (s2, Inr _) \<Rightarrow>
                 (case start_tunnel_warren params retry_attempt s2 of
                    (s3, st) \<Rightarrow>
                      (s3, StConnecting st, TrConnecting (warren_tunnel_endpoint (cg_params st)))))"

definition connecting_enter :: "world \<Rightarrow> 32 word \<Rightarrow> shared \<Rightarrow> entered" where
  "connecting_enter w retry_attempt s =
     (if retry_attempt = 0 then connecting_dial w retry_attempt (s\<lparr>sv_refusals := forget_run\<rparr>)
      else case refusal_block_reason w s of
             (s1, Some cause) \<Rightarrow> error_enter w cause s1
           | (s1, None) \<Rightarrow> connecting_dial w retry_attempt s1)"

section \<open>Connected\<close>

definition OFFLINE_GRACE :: duration where "OFFLINE_GRACE = from_secs 15"

datatype GraceAction = Arm | Hold | Cancel | GraceBlock

fun grace_action :: "bool \<Rightarrow> bool \<Rightarrow> bool \<Rightarrow> GraceAction" where
  "grace_action multi_hop grace_armed False = Cancel"
| "grace_action False grace_armed True = GraceBlock"
| "grace_action True False True = Arm"
| "grace_action True True True = Hold"

definition connected_tunnel_endpoint :: "WarrenBackendInfo \<Rightarrow> TunnelMetadata \<Rightarrow> TunnelEndpoint" where
  "connected_tunnel_endpoint params metadata =
     (warren_tunnel_endpoint params)\<lparr>te_tunnel_interface := Some (tm_interface metadata),
        te_daita := tm_daita_active metadata, te_effective_mtu := tm_effective_mtu metadata,
        te_legs_bonded := tm_legs_bonded metadata,
        te_legs_not_delivering := tm_legs_not_delivering metadata\<rparr>"

definition resolve_dns :: "TunnelMetadata \<Rightarrow> shared \<Rightarrow> ResolvedDnsConfig" where
  "resolve_dns metadata s = dns_resolve (sv_dns_config s) (gateways metadata)"

definition allowed_peers :: "ConnectedState \<Rightarrow> AllowedEndpoint list" where
  "allowed_peers st = relay_peers (cd_peer_endpoints st)"

definition get_firewall_policy :: "ConnectedState \<Rightarrow> shared \<Rightarrow> FirewallPolicy" where
  "get_firewall_policy st s =
     Connected (allowed_peers st) (cd_metadata st) (sv_allow_lan s) (sv_lan_networks s)
       (resolve_dns (cd_metadata st) s)"

definition connected_set_firewall_policy ::
    "world \<Rightarrow> ConnectedState \<Rightarrow> shared \<Rightarrow> shared \<times> (FirewallPolicyError, unit) result" where
  "connected_set_firewall_policy w st s =
     (case fw_apply w (get_firewall_policy st s) s of
        (s1, Inl _) \<Rightarrow> (s1, Err Generic)
      | (s1, Inr _) \<Rightarrow> (s1, Ok ()))"

definition connected_set_dns :: "world \<Rightarrow> ConnectedState \<Rightarrow> shared \<Rightarrow> shared \<times> bool" where
  "connected_set_dns w st s =
     dns_set w (tm_interface (cd_metadata st)) (resolve_dns (cd_metadata st) s) s"

definition connected_enter ::
    "world \<Rightarrow> TunnelMetadata \<Rightarrow> WarrenBackendInfo \<Rightarrow> shared \<Rightarrow> entered" where
  "connected_enter w metadata params s =
     (let st = \<lparr>cd_metadata = metadata, cd_params = params, cd_offline_grace_deadline = None,
                cd_peer_endpoints = get_next_hop_endpoints params\<rparr>
      in if is_offline (sv_connectivity s) \<and> \<not> is_multi_hop params
         then disconnecting_enter (AfterBlock IsOffline) s
         else
           let (s1, st1) =
                 (if is_offline (sv_connectivity s)
                  then (tick s, st\<lparr>cd_offline_grace_deadline := Some (wa_now (answer w s) + OFFLINE_GRACE)\<rparr>)
                  else (s, st));
               tunnel_endpoint = connected_tunnel_endpoint params metadata
           in case connected_set_firewall_policy w st1 s1 of
                (s2, Inl error) \<Rightarrow> disconnecting_enter (AfterBlock (SetFirewallPolicyError error)) s2
              | (s2, Inr _) \<Rightarrow>
                  (case connected_set_dns w st1 s2 of
                     (s3, False) \<Rightarrow> disconnecting_enter (AfterBlock SetDnsError) s3
                   | (s3, True) \<Rightarrow> (s3, StConnected st1, TrConnected tunnel_endpoint)))"

end
