(* ===== verification/Tunnel_Handlers.thy ===== *)
theory Tunnel_Handlers
  imports Tunnel_States
begin

text \<open>
  The event handlers of the five states. An event that a state cannot receive is the \<open>unreachable!\<close>
  of the source: the handler panics.
\<close>

section \<open>Disconnected\<close>

definition reset_dns :: "shared \<Rightarrow> shared" where
  "reset_dns s = emit DnsReset s"

fun disconnected_command :: "world \<Rightarrow> TunnelCommand option \<Rightarrow> shared \<Rightarrow> shared \<times> consequence" where
  "disconnected_command w (Some (CmdAllowLan allow_lan lan_networks)) s =
     (case set_allow_lan s allow_lan lan_networks of
        (s1, changed) \<Rightarrow>
          (emit Ack (if changed then disconnected_set_firewall_policy w False s1 else s1),
           SameState StDisconnected))"
| "disconnected_command w (Some (CmdAllowEndpoint endpoint)) s =
     (emit Ack
        (if sv_allowed_endpoint s \<noteq> endpoint
         then disconnected_set_firewall_policy w False (s\<lparr>sv_allowed_endpoint := endpoint\<rparr>) else s),
      SameState StDisconnected)"
| "disconnected_command w (Some (CmdDns servers)) s =
     (emit Ack (fst (set_dns_config s servers)), SameState StDisconnected)"
| "disconnected_command w (Some (CmdLockdownMode lockdown_mode)) s =
     (let toggled = (\<not> lockdown_eq (sv_lockdown_mode s) lockdown_mode);
          s1 = set_lockdown_mode s lockdown_mode
      in if toggled
         then let s2 = disconnected_set_firewall_policy w True s1
              in (emit Ack s2, NewState StDisconnected (disconnected_transition s2))
         else (emit Ack s1, SameState StDisconnected))"
| "disconnected_command w (Some CmdTailnetInterfacesChanged) s = (s, SameState StDisconnected)"
| "disconnected_command w (Some (CmdConnectivity connectivity)) s =
     (s\<lparr>sv_connectivity := connectivity\<rparr>, SameState StDisconnected)"
| "disconnected_command w (Some CmdConnect) s = new_state (connecting_enter w 0 s)"
| "disconnected_command w (Some (CmdBlock _)) s = (s, SameState StDisconnected)"
| "disconnected_command w (Some (CmdSetSplitApps apps)) s =
     (case set_split_apps s apps of
        (s1, changed) \<Rightarrow>
          (emit Ack (if changed then disconnected_set_firewall_policy w False s1 else s1),
           SameState StDisconnected))"
| "disconnected_command w None s = (reset_dns s, Finished)"
| "disconnected_command w (Some CmdDisconnect) s = (s, SameState StDisconnected)"

section \<open>Disconnecting\<close>

fun disconnecting_command ::
    "AfterDisconnect \<Rightarrow> TunnelCommand option \<Rightarrow> shared \<Rightarrow> shared \<times> AfterDisconnect" where
  "disconnecting_command after (Some (CmdAllowLan allow_lan lan_networks)) s =
     (emit Ack (fst (set_allow_lan s allow_lan lan_networks)), after)"
| "disconnecting_command after (Some (CmdAllowEndpoint endpoint)) s =
     (emit Ack (s\<lparr>sv_allowed_endpoint := endpoint\<rparr>), after)"
| "disconnecting_command after (Some (CmdDns servers)) s =
     (emit Ack (fst (set_dns_config s servers)), after)"
| "disconnecting_command after (Some (CmdLockdownMode lockdown_mode)) s =
     (emit Ack (set_lockdown_mode s lockdown_mode), after)"
| "disconnecting_command after (Some CmdTailnetInterfacesChanged) s = (s, after)"
| "disconnecting_command after (Some (CmdConnectivity connectivity)) s =
     (s\<lparr>sv_connectivity := connectivity\<rparr>,
      (case after of
         AfterReconnect _ \<Rightarrow> if is_offline connectivity then AfterBlock IsOffline else after
       | AfterBlock IsOffline \<Rightarrow> if \<not> is_offline connectivity then AfterReconnect 0 else after
       | _ \<Rightarrow> after))"
| "disconnecting_command after (Some CmdConnect) s =
     (s, (case after of AfterReconnect retry_attempt \<Rightarrow> AfterReconnect retry_attempt | _ \<Rightarrow> AfterReconnect 0))"
| "disconnecting_command after (Some CmdDisconnect) s = (s, AfterNothing)"
| "disconnecting_command after (Some (CmdBlock reason)) s =
     (s, (case after of AfterNothing \<Rightarrow> AfterNothing | _ \<Rightarrow> AfterBlock reason))"
| "disconnecting_command after None s =
     (s, (case after of AfterReconnect _ \<Rightarrow> AfterNothing | _ \<Rightarrow> after))"
| "disconnecting_command after (Some (CmdSetSplitApps apps)) s =
     (emit Ack (fst (set_split_apps s apps)), after)"

definition after_disconnect ::
    "world \<Rightarrow> AfterDisconnect \<Rightarrow> ErrorStateCause option \<Rightarrow> shared \<Rightarrow> entered" where
  "after_disconnect w after block_reason s =
     (case block_reason of
        Some reason \<Rightarrow> error_enter w reason s
      | None \<Rightarrow>
          (case after of
             AfterNothing \<Rightarrow> disconnected_enter w True s
           | AfterBlock cause \<Rightarrow> error_enter w cause s
           | AfterReconnect retry_attempt \<Rightarrow> connecting_enter w retry_attempt s))"

definition unwrap_close :: "(unit, ErrorStateCause option) result \<Rightarrow> ErrorStateCause option" where
  "unwrap_close r = (case r of Inl _ \<Rightarrow> None | Inr reason \<Rightarrow> reason)"

fun disconnecting_handle ::
    "world \<Rightarrow> AfterDisconnect \<Rightarrow> EventResult \<Rightarrow> shared \<Rightarrow> shared \<times> consequence" where
  "disconnecting_handle w after (RCommand command) s =
     (case disconnecting_command after command s of
        (s1, after') \<Rightarrow> (s1, SameState (StDisconnecting after')))"
| "disconnecting_handle w after (RClose result) s =
     new_state (after_disconnect w after (unwrap_close result) (reset_routes s))"
| "disconnecting_handle w after _ s = (s, Panicked)"

text \<open>
  How the disconnecting state picks its next event. Once the close event has been taken (\<open>terminated\<close>)
  it drains the commands without waiting: \<open>ended\<close> says the command stream has ended, \<open>queued\<close> what
  the queue holds (\<open>None\<close> when it is closed). Otherwise the select takes the first that is ready.
\<close>

definition disconnecting_next ::
    "bool \<Rightarrow> bool \<Rightarrow> TunnelCommand list option \<Rightarrow> EventResult \<Rightarrow> EventResult" where
  "disconnecting_next terminated ended queued selected =
     (if terminated then
        (if ended then RClose (Ok None)
         else case queued of
                Some (command # _) \<Rightarrow> RCommand (Some command)
              | Some [] \<Rightarrow> RCommand None
              | None \<Rightarrow> RClose (Ok None))
      else selected)"

section \<open>Connecting\<close>

definition connecting_disconnect :: "AfterDisconnect \<Rightarrow> shared \<Rightarrow> shared \<times> consequence" where
  "connecting_disconnect after s = new_state (disconnecting_enter after s)"

definition connecting_reset_firewall ::
    "world \<Rightarrow> ConnectingState \<Rightarrow> shared \<Rightarrow> shared \<times> consequence" where
  "connecting_reset_firewall w st s =
     (case connecting_set_firewall_policy w (cg_params st) (cg_metadata st) (cg_traffic st) s of
        (s1, Inr _) \<Rightarrow> (s1, SameState (StConnecting st))
      | (s1, Inl error) \<Rightarrow> connecting_disconnect (AfterBlock (SetFirewallPolicyError error)) s1)"

fun connecting_command ::
    "world \<Rightarrow> ConnectingState \<Rightarrow> TunnelCommand option \<Rightarrow> shared \<Rightarrow> shared \<times> consequence" where
  "connecting_command w st (Some (CmdAllowLan allow_lan lan_networks)) s =
     (case set_allow_lan s allow_lan lan_networks of
        (s1, True) \<Rightarrow> acked (connecting_reset_firewall w st s1)
      | (s1, False) \<Rightarrow> acked (s1, SameState (StConnecting st)))"
| "connecting_command w st (Some (CmdAllowEndpoint endpoint)) s =
     (if sv_allowed_endpoint s \<noteq> endpoint
      then (case connecting_set_firewall_policy w (cg_params st) (cg_metadata st) (cg_traffic st)
                   (s\<lparr>sv_allowed_endpoint := endpoint\<rparr>) of
              (s1, Inl error) \<Rightarrow>
                connecting_disconnect (AfterBlock (SetFirewallPolicyError error)) (emit Ack s1)
            | (s1, Inr _) \<Rightarrow> (emit Ack s1, SameState (StConnecting st)))
      else (emit Ack s, SameState (StConnecting st)))"
| "connecting_command w st (Some (CmdDns servers)) s =
     acked (fst (set_dns_config s servers), SameState (StConnecting st))"
| "connecting_command w st (Some (CmdLockdownMode lockdown_mode)) s =
     (emit Ack (set_lockdown_mode s lockdown_mode), SameState (StConnecting st))"
| "connecting_command w st (Some CmdTailnetInterfacesChanged) s = connecting_reset_firewall w st s"
| "connecting_command w st (Some (CmdConnectivity connectivity)) s =
     (let s1 = s\<lparr>sv_connectivity := connectivity\<rparr>
      in if is_offline connectivity then connecting_disconnect (AfterBlock IsOffline) s1
         else (s1, SameState (StConnecting st)))"
| "connecting_command w st (Some CmdConnect) s = connecting_disconnect (AfterReconnect 0) s"
| "connecting_command w st (Some CmdDisconnect) s = connecting_disconnect AfterNothing s"
| "connecting_command w st None s = connecting_disconnect AfterNothing s"
| "connecting_command w st (Some (CmdBlock reason)) s = connecting_disconnect (AfterBlock reason) s"
| "connecting_command w st (Some (CmdSetSplitApps apps)) s =
     (case set_split_apps s apps of
        (s1, mode_changed) \<Rightarrow>
          if mode_changed then connecting_disconnect (AfterReconnect 0) (emit Ack s1)
          else (emit Ack s1, SameState (StConnecting st)))"

fun connecting_tunnel_event ::
    "world \<Rightarrow> ConnectingState \<Rightarrow> TunnelEvent option \<Rightarrow> shared \<Rightarrow> shared \<times> consequence" where
  "connecting_tunnel_event w st (Some (EvAuthFailed reason)) s =
     connecting_disconnect (AfterBlock (AuthFailed reason)) s"
| "connecting_tunnel_event w st (Some (EvInterfaceUp metadata traffic)) s =
     (let st1 = st\<lparr>cg_traffic := traffic, cg_metadata := Some metadata\<rparr>
      in case connecting_set_firewall_policy w (cg_params st1) (cg_metadata st1) (cg_traffic st1) s of
           (s1, Inr _) \<Rightarrow> (s1, SameState (StConnecting st1))
         | (s1, Inl error) \<Rightarrow> connecting_disconnect (AfterBlock (SetFirewallPolicyError error)) s1)"
| "connecting_tunnel_event w st (Some (EvUp metadata)) s =
     new_state (connected_enter w metadata (cg_params st) s)"
| "connecting_tunnel_event w st (Some (EvPeerEndpoints _)) s = (s, SameState (StConnecting st))"
| "connecting_tunnel_event w st (Some EvDown) s =
     (s, SameState (StConnecting (st\<lparr>cg_traffic := TrafficNone, cg_metadata := None\<rparr>)))"
| "connecting_tunnel_event w st None s =
     connecting_disconnect (AfterReconnect (cg_retry_attempt st + 1)) s"

text \<open>The flap detector's clock and window.\<close>

definition note_reconnect :: "world \<Rightarrow> shared \<Rightarrow> shared \<times> bool" where
  "note_reconnect w s =
     (case note_reconnect_and_is_flapping (sv_recent_reconnects s) (wa_now (answer w s)) of
        (laps, flapping) \<Rightarrow> (tick s\<lparr>sv_recent_reconnects := laps\<rparr>, flapping))"

definition reset_flaps :: "shared \<Rightarrow> shared" where
  "reset_flaps s = s\<lparr>sv_recent_reconnects := reset_flap_detector\<rparr>"

definition connecting_close ::
    "world \<Rightarrow> ConnectingState \<Rightarrow> ErrorStateCause option \<Rightarrow> shared \<Rightarrow> shared \<times> consequence" where
  "connecting_close w st block_reason s =
     (case block_reason of
        Some reason \<Rightarrow> new_state (error_enter w reason (reset_routes (reset_flaps s)))
      | None \<Rightarrow>
          if is_offline (sv_connectivity s)
          then new_state (error_enter w IsOffline (reset_routes (reset_flaps s)))
          else if run_is_open (sv_refusals s)
          then new_state (connecting_enter w (cg_retry_attempt st + 1) (reset_routes s))
          else
            (case note_reconnect w s of
               (s1, True) \<Rightarrow>
                 new_state (error_enter w WarrenTunnelFlapping (reset_routes (reset_flaps s1)))
             | (s1, False) \<Rightarrow>
                 new_state (connecting_enter w (cg_retry_attempt st + 1) (reset_routes s1))))"

fun connecting_handle ::
    "world \<Rightarrow> ConnectingState \<Rightarrow> EventResult \<Rightarrow> shared \<Rightarrow> shared \<times> consequence" where
  "connecting_handle w st (RCommand command) s = connecting_command w st command s"
| "connecting_handle w st (REvent event) s = connecting_tunnel_event w st event s"
| "connecting_handle w st (RClose result) s = connecting_close w st (unwrap_close result) s"
| "connecting_handle w st ROfflineGraceExpired s = (s, Panicked)"

section \<open>Connected\<close>

definition connected_disconnect :: "AfterDisconnect \<Rightarrow> shared \<Rightarrow> shared \<times> consequence" where
  "connected_disconnect after s = new_state (disconnecting_enter after (emit DnsResetBeforeRemoval s))"

text \<open>Applying the policy again: the state goes on, or the tunnel comes down to be blocked.\<close>

definition connected_reapply :: "world \<Rightarrow> ConnectedState \<Rightarrow> shared \<Rightarrow> shared \<times> consequence" where
  "connected_reapply w st s =
     (case connected_set_firewall_policy w st s of
        (s1, Inr _) \<Rightarrow> (s1, SameState (StConnected st))
      | (s1, Inl error) \<Rightarrow> connected_disconnect (AfterBlock (SetFirewallPolicyError error)) s1)"

fun connected_command ::
    "world \<Rightarrow> ConnectedState \<Rightarrow> TunnelCommand option \<Rightarrow> shared \<Rightarrow> shared \<times> consequence" where
  "connected_command w st (Some (CmdAllowLan allow_lan lan_networks)) s =
     (case set_allow_lan s allow_lan lan_networks of
        (s1, True) \<Rightarrow> acked (connected_reapply w st s1)
      | (s1, False) \<Rightarrow> acked (s1, SameState (StConnected st)))"
| "connected_command w st (Some (CmdAllowEndpoint endpoint)) s =
     (emit Ack (s\<lparr>sv_allowed_endpoint := endpoint\<rparr>), SameState (StConnected st))"
| "connected_command w st (Some (CmdDns servers)) s =
     (case set_dns_config s servers of
        (s1, True) \<Rightarrow>
          (case connected_set_firewall_policy w st s1 of
             (s2, Inl error) \<Rightarrow> connected_disconnect (AfterBlock (SetFirewallPolicyError error)) s2
           | (s2, Inr _) \<Rightarrow>
               (case connected_set_dns w st s2 of
                  (s3, True) \<Rightarrow> acked (s3, SameState (StConnected st))
                | (s3, False) \<Rightarrow> acked (connected_disconnect (AfterBlock SetDnsError) s3)))
      | (s1, False) \<Rightarrow> acked (s1, SameState (StConnected st)))"
| "connected_command w st (Some (CmdLockdownMode lockdown_mode)) s =
     (emit Ack (set_lockdown_mode s lockdown_mode), SameState (StConnected st))"
| "connected_command w st (Some CmdTailnetInterfacesChanged) s = connected_reapply w st s"
| "connected_command w st (Some (CmdConnectivity connectivity)) s =
     (let s1 = s\<lparr>sv_connectivity := connectivity\<rparr>
      in case grace_action (is_multi_hop (cd_params st)) (cd_offline_grace_deadline st \<noteq> None)
                (is_offline connectivity) of
           GraceBlock \<Rightarrow> connected_disconnect (AfterBlock IsOffline) s1
         | Arm \<Rightarrow>
             (tick s1, SameState (StConnected
                (st\<lparr>cd_offline_grace_deadline := Some (wa_now (answer w s1) + OFFLINE_GRACE)\<rparr>)))
         | Hold \<Rightarrow> (s1, SameState (StConnected st))
         | Cancel \<Rightarrow> (s1, SameState (StConnected (st\<lparr>cd_offline_grace_deadline := None\<rparr>))))"
| "connected_command w st (Some CmdConnect) s = connected_disconnect (AfterReconnect 0) s"
| "connected_command w st (Some CmdDisconnect) s = connected_disconnect AfterNothing s"
| "connected_command w st None s = connected_disconnect AfterNothing s"
| "connected_command w st (Some (CmdBlock reason)) s = connected_disconnect (AfterBlock reason) s"
| "connected_command w st (Some (CmdSetSplitApps apps)) s =
     (case set_split_apps s apps of
        (s1, mode_changed) \<Rightarrow>
          if mode_changed then connected_disconnect (AfterReconnect 0) (emit Ack s1)
          else (emit Ack s1, SameState (StConnected st)))"

fun connected_tunnel_event ::
    "world \<Rightarrow> ConnectedState \<Rightarrow> TunnelEvent option \<Rightarrow> shared \<Rightarrow> shared \<times> consequence" where
  "connected_tunnel_event w st (Some EvDown) s = connected_disconnect (AfterReconnect 0) s"
| "connected_tunnel_event w st None s = connected_disconnect (AfterReconnect 0) s"
| "connected_tunnel_event w st (Some (EvPeerEndpoints peers)) s =
     connected_reapply w (st\<lparr>cd_peer_endpoints := peers\<rparr>) s"
| "connected_tunnel_event w st (Some (EvUp new_metadata)) s =
     (let st1 = st\<lparr>cd_metadata := new_metadata\<rparr>
      in (s, NewState (StConnected st1)
               (TrConnected (connected_tunnel_endpoint (cd_params st1) (cd_metadata st1)))))"
| "connected_tunnel_event w st (Some _) s = (s, SameState (StConnected st))"

definition connected_teardown :: "shared \<Rightarrow> shared" where
  "connected_teardown s = reset_routes (emit DnsResetBeforeRemoval s)"

definition connected_close ::
    "world \<Rightarrow> ErrorStateCause option \<Rightarrow> shared \<Rightarrow> shared \<times> consequence" where
  "connected_close w block_reason s =
     (case block_reason of
        Some reason \<Rightarrow> new_state (error_enter w reason (connected_teardown (reset_flaps s)))
      | None \<Rightarrow>
          if is_offline (sv_connectivity s)
          then new_state (error_enter w IsOffline (connected_teardown (reset_flaps s)))
          else
            (case note_reconnect w s of
               (s1, True) \<Rightarrow>
                 new_state (error_enter w WarrenTunnelFlapping (connected_teardown (reset_flaps s1)))
             | (s1, False) \<Rightarrow> new_state (connecting_enter w 0 (connected_teardown s1))))"

fun connected_handle ::
    "world \<Rightarrow> ConnectedState \<Rightarrow> EventResult \<Rightarrow> shared \<Rightarrow> shared \<times> consequence" where
  "connected_handle w st (RCommand command) s = connected_command w st command s"
| "connected_handle w st (REvent event) s = connected_tunnel_event w st event s"
| "connected_handle w st (RClose result) s = connected_close w (unwrap_close result) s"
| "connected_handle w st ROfflineGraceExpired s =
     (if is_offline (sv_connectivity s) then connected_disconnect (AfterBlock IsOffline) s
      else (s, SameState (StConnected (st\<lparr>cd_offline_grace_deadline := None\<rparr>))))"

section \<open>Error\<close>

fun error_command ::
    "world \<Rightarrow> ErrorStateCause \<Rightarrow> TunnelCommand option \<Rightarrow> shared \<Rightarrow> shared \<times> consequence" where
  "error_command w cause (Some (CmdAllowLan allow_lan lan_networks)) s =
     (case set_allow_lan s allow_lan lan_networks of
        (s1, changed) \<Rightarrow>
          (emit Ack (if changed then fst (error_set_firewall_policy w s1) else s1), SameState (StError cause)))"
| "error_command w cause (Some (CmdAllowEndpoint endpoint)) s =
     (emit Ack
        (if sv_allowed_endpoint s \<noteq> endpoint
         then fst (error_set_firewall_policy w (s\<lparr>sv_allowed_endpoint := endpoint\<rparr>)) else s),
      SameState (StError cause))"
| "error_command w cause (Some (CmdDns servers)) s =
     (case set_dns_config s servers of
        (s1, changed) \<Rightarrow>
          (emit Ack (if changed then fst (error_set_firewall_policy w s1) else s1), SameState (StError cause)))"
| "error_command w cause (Some (CmdLockdownMode lockdown_mode)) s =
     (emit Ack (fst (error_set_firewall_policy w (set_lockdown_mode s lockdown_mode))),
      SameState (StError cause))"
| "error_command w cause (Some CmdTailnetInterfacesChanged) s = (s, SameState (StError cause))"
| "error_command w cause (Some (CmdConnectivity connectivity)) s =
     (let s1 = s\<lparr>sv_connectivity := connectivity\<rparr>
      in if reconnects_on_connectivity cause connectivity
         then new_state (connecting_enter w 0 (reset_dns s1))
         else (s1, SameState (StError cause)))"
| "error_command w cause (Some CmdConnect) s = new_state (connecting_enter w 0 (reset_dns s))"
| "error_command w cause (Some CmdDisconnect) s =
     new_state (disconnected_enter w True (reset_dns (reset_connectivity_check w s)))"
| "error_command w cause None s =
     new_state (disconnected_enter w True (reset_dns (reset_connectivity_check w s)))"
| "error_command w cause (Some (CmdBlock reason)) s = new_state (error_enter w reason s)"
| "error_command w cause (Some (CmdSetSplitApps apps)) s =
     (case set_split_apps s apps of
        (s1, changed) \<Rightarrow>
          (emit Ack (if changed then fst (error_set_firewall_policy w s1) else s1), SameState (StError cause)))"

section \<open>All states\<close>

text \<open>The disconnected and the error state wait for a command alone.\<close>

fun handle_event :: "world \<Rightarrow> tunnel_state \<Rightarrow> EventResult \<Rightarrow> shared \<Rightarrow> shared \<times> consequence" where
  "handle_event w StDisconnected (RCommand c) s = disconnected_command w c s"
| "handle_event w (StError cause) (RCommand c) s = error_command w cause c s"
| "handle_event w (StDisconnecting after) r s = disconnecting_handle w after r s"
| "handle_event w (StConnecting st) r s = connecting_handle w st r s"
| "handle_event w (StConnected st) r s = connected_handle w st r s"
| "handle_event w StDisconnected _ s = (s, Panicked)"
| "handle_event w (StError cause) _ s = (s, Panicked)"

end
