(* ===== verification/Tunnel_Thread.thy ===== *)
theory Tunnel_Thread
  imports Reconnect
begin

text \<open>
  One lap of the thread that runs a tunnel: the errors of the tunnel monitor
  (\<open>tunnel_monitor.rs\<close> and the error type of \<open>talpid-warren-tunnel/src/lib.rs\<close>), which of them are
  retried, how a failed lap is reported to the refusal policy, and the padding of the lap
  (\<open>connecting_state.rs\<close>, the blocking task of \<open>start_tunnel_warren\<close>). The tunnel engine itself is
  the outcome handed to the lap.
\<close>

datatype WarrenError =
    Handshake string
  | TunSetup string
  | BackendTransient string
  | SessionRejected Refusal
  | BackendFatal string
  | NoCircuit

definition warren_is_recoverable :: "WarrenError \<Rightarrow> bool" where
  "warren_is_recoverable e =
     (case e of Handshake _ \<Rightarrow> True | BackendTransient _ \<Rightarrow> True | SessionRejected _ \<Rightarrow> True | _ \<Rightarrow> False)"

definition session_rejection :: "WarrenError \<Rightarrow> Refusal option" where
  "session_rejection e = (case e of SessionRejected refusal \<Rightarrow> Some refusal | _ \<Rightarrow> None)"

datatype MonitorError =
    EnableIpv6
  | UnsupportedPlatform
  | RotateLogError
  | WarrenTunnelMonitoring WarrenError

fun monitor_error_cause :: "MonitorError \<Rightarrow> ErrorStateCause" where
  "monitor_error_cause EnableIpv6 = Ipv6Unavailable"
| "monitor_error_cause (WarrenTunnelMonitoring (BackendFatal reason)) = AuthFailed (Some reason)"
| "monitor_error_cause _ = StartTunnelError"

definition monitor_is_recoverable :: "MonitorError \<Rightarrow> bool" where
  "monitor_is_recoverable e =
     (case e of WarrenTunnelMonitoring error \<Rightarrow> warren_is_recoverable error | _ \<Rightarrow> False)"

definition warren_session_rejection :: "MonitorError \<Rightarrow> Refusal option" where
  "warren_session_rejection e =
     (case e of WarrenTunnelMonitoring error \<Rightarrow> session_rejection error | _ \<Rightarrow> None)"

definition should_retry :: "MonitorError \<Rightarrow> 32 word \<Rightarrow> bool" where
  "should_retry e retry_attempt = monitor_is_recoverable e"

definition note_failed_attempt :: "MonitorError \<Rightarrow> instant \<Rightarrow> Refusals \<Rightarrow> Refusals" where
  "note_failed_attempt e now run = note_attempt run (warren_session_rejection e) now"

text \<open>The monitor either fails to start or runs until it stops, cleanly or with an error.\<close>

datatype lap_outcome = StartFailed MonitorError | Stopped "MonitorError option"

definition wait_for_tunnel_monitor ::
    "MonitorError option \<Rightarrow> 32 word \<Rightarrow> instant \<Rightarrow> Refusals \<Rightarrow> ErrorStateCause option \<times> Refusals" where
  "wait_for_tunnel_monitor stopped retry_attempt now run =
     (case stopped of
        None \<Rightarrow> (None, run)
      | Some error \<Rightarrow>
          if \<not> should_retry error retry_attempt then (Some StartTunnelError, run)
          else (None, note_failed_attempt error now run))"

text \<open>\<open>noted\<close> and \<open>now\<close> are the clock's readings, \<open>elapsed\<close> the time since the lap started.\<close>

definition tunnel_lap ::
    "lap_outcome \<Rightarrow> 32 word \<Rightarrow> instant \<Rightarrow> instant \<Rightarrow> duration \<Rightarrow> Refusals \<Rightarrow>
     ErrorStateCause option \<times> Refusals \<times> duration" where
  "tunnel_lap outcome retry_attempt noted now elapsed run =
     (let (block_reason, run') =
        (case outcome of
           Stopped stopped \<Rightarrow> wait_for_tunnel_monitor stopped retry_attempt noted run
         | StartFailed error \<Rightarrow>
             if should_retry error retry_attempt then (None, note_failed_attempt error noted run)
             else (Some (monitor_error_cause error), run))
      in (block_reason, run', lap_padding block_reason retry_attempt (pacing run' now) elapsed))"

section \<open>Properties\<close>

text \<open>
  C22. A lap of the tunnel: it ends with a cause to block on exactly when its error is not worth
  retrying, and a lap that is to be retried lasts at least the retry interval of its attempt, which
  is shortened only under a freshly confirmed active subscription.
\<close>

theorem tunnel_lap_paced:
  assumes "tunnel_lap outcome retry_attempt noted now elapsed run = (block_reason, run', padding)"
  shows "(block_reason = None \<longleftrightarrow>
       (case outcome of
          StartFailed e \<Rightarrow> monitor_is_recoverable e
        | Stopped (Some e) \<Rightarrow> monitor_is_recoverable e
        | Stopped None \<Rightarrow> True)) \<and>
     (block_reason = None \<longrightarrow> reconnect_floor retry_attempt (pacing run' now) \<le> elapsed + padding) \<and>
     (confirmed_transient (pacing run' now) \<longrightarrow>
       (\<exists>r at. run' = Some r \<and> run_answer r = Some (Active, at) \<and> now < at + from_secs 15))"
proof -
  have fresh: "\<exists>r at. x = Some r \<and> run_answer r = Some (Active, at) \<and> now < at + from_secs 15"
    if "confirmed_transient (pacing x now)" for x
  proof (cases x)
    case (Some r)
    with that show ?thesis
      by (auto simp: pacing_def ANTI_SPIN_def STATUS_TTL_def duration_since_def from_secs_def
          split: option.splits SubscriptionStatus.splits if_splits)
  qed (use that in \<open>simp add: pacing_def ANTI_SPIN_def\<close>)
  have run': "padding = lap_padding block_reason retry_attempt (pacing run' now) elapsed"
    using assms by (auto simp: tunnel_lap_def Let_def split: prod.splits)
  have "block_reason = None \<longleftrightarrow>
       (case outcome of
          StartFailed e \<Rightarrow> monitor_is_recoverable e
        | Stopped (Some e) \<Rightarrow> monitor_is_recoverable e
        | Stopped None \<Rightarrow> True)"
    using assms
    by (auto simp: tunnel_lap_def Let_def wait_for_tunnel_monitor_def should_retry_def
        split: prod.splits lap_outcome.splits option.splits if_splits)
  moreover have "block_reason = None \<longrightarrow> reconnect_floor retry_attempt (pacing run' now) \<le> elapsed + padding"
    by (simp add: run' lap_padding_def)
  ultimately show ?thesis using fresh by blast
qed

theorem tunnel_lap_paced_witness:
  "tunnel_lap (StartFailed (WarrenTunnelMonitoring (Handshake ''timeout''))) 0 5 5 (from_millis 300) None =
     (None, None, from_millis 700) \<and>
   reconnect_floor 0 ANTI_SPIN \<le> from_millis 300 + from_millis 700"
proof -
  have lap: "tunnel_lap (StartFailed (WarrenTunnelMonitoring (Handshake ''timeout''))) 0 5 5 (from_millis 300) None =
     (None, None, from_millis 700)"
    by (simp add: tunnel_lap_def should_retry_def monitor_is_recoverable_def warren_is_recoverable_def
        note_failed_attempt_def warren_session_rejection_def session_rejection_def note_attempt_def
        pacing_def ANTI_SPIN_def lap_padding_def reconnect_floor_eq pacing_floor_def
        MIN_TUNNEL_ALIVE_TIME_def MAX_RECONNECT_FLOOR_def from_millis_def from_secs_def)
  from tunnel_lap_paced [OF lap] lap show ?thesis
    by (simp add: pacing_def)
qed

end
