(* ===== verification/Tunnel_Machine.thy ===== *)
theory Tunnel_Machine
  imports Tunnel_Handlers Tunnel_Thread
begin

text \<open>
  The machine itself (\<open>TunnelStateMachine::new\<close> and \<open>run\<close> in
  \<open>talpid-core/src/tunnel_state_machine/mod.rs\<close>): how it starts, its step relation and what it
  leaves behind when it stops or panics. The transitions reported to the listener are kept, newest
  first.
\<close>

section \<open>Start\<close>

record InitialTunnelState =
  in_allow_lan :: bool
  in_lan_networks :: "IpNetwork list"
  in_lockdown_mode :: LockdownMode
  in_dns_config :: DnsConfig
  in_allowed_endpoint :: AllowedEndpoint
  in_reset_firewall :: bool
  in_initial_block :: "ErrorStateCause option"
  in_split_apps :: SplitApps

record LinuxNetworkingIdentifiers =
  li_fwmark :: "32 word"
  li_excluded_cgroup2 :: "nat option"
  li_net_cls :: "32 word option"
  li_included_cgroup2 :: "nat option"

datatype machine =
    MRunning tunnel_state shared "TunnelStateTransition list"
  | MStopped shared "TunnelStateTransition list"
  | MCrashed shared

text \<open>The firewall the machine starts with and the split mode it can enforce.\<close>

definition initial_firewall ::
    "LinuxNetworkingIdentifiers \<Rightarrow> InitialTunnelState \<Rightarrow> Firewall \<times> SplitTunnelMode" where
  "initial_firewall ids settings =
     (let fw = fw_from_args (li_fwmark ids) (li_excluded_cgroup2 ids) (li_net_cls ids)
                 (li_included_cgroup2 ids)
                 (if lockdown_bool (in_lockdown_mode settings) \<or> \<not> in_reset_firewall settings
                  then Some (in_allowed_endpoint settings) else None);
          split_mode = enforceable_mode (sa_mode (in_split_apps settings)) (can_include fw)
      in (set_include_only fw (split_mode = IncludeOnly), split_mode))"

definition initial_shared ::
    "string \<Rightarrow> net_kernel \<Rightarrow> LinuxNetworkingIdentifiers \<Rightarrow> InitialTunnelState \<Rightarrow> Connectivity \<Rightarrow> shared" where
  "initial_shared table k0 ids settings connectivity =
     (case initial_firewall ids settings of
        (firewall, split_mode) \<Rightarrow>
          \<lparr>sv_tick = 0, sv_log = [], sv_table = table, sv_kernel = k0, sv_split_mode = split_mode,
           sv_firewall = firewall,
           sv_allow_lan = in_allow_lan settings, sv_lan_networks = in_lan_networks settings,
           sv_lan_routes = lan_routes_new (in_allow_lan settings) (in_lan_networks settings),
           sv_lockdown_mode = in_lockdown_mode settings, sv_connectivity = connectivity,
           sv_dns_config = in_dns_config settings, sv_allowed_endpoint = in_allowed_endpoint settings,
           sv_connectivity_check_was_enabled = None, sv_recent_reconnects = [], sv_refusals = None\<rparr>)"

definition machine_new :: "world \<Rightarrow> InitialTunnelState \<Rightarrow> shared \<Rightarrow> machine" where
  "machine_new w settings s =
     (case in_initial_block settings of
        Some cause \<Rightarrow> (case error_enter w cause s of (s1, st, t) \<Rightarrow> MRunning st s1 [t])
      | None \<Rightarrow>
          (case disconnected_enter w (in_reset_firewall settings) s of (s1, st, _) \<Rightarrow> MRunning st s1 []))"

section \<open>Steps\<close>

text \<open>What the select of each state can hand to its handler.\<close>

fun receivable :: "tunnel_state \<Rightarrow> EventResult \<Rightarrow> bool" where
  "receivable _ (RCommand _) = True"
| "receivable (StConnecting _) (REvent _) = True"
| "receivable (StConnected _) (REvent _) = True"
| "receivable (StConnecting _) (RClose _) = True"
| "receivable (StConnected _) (RClose _) = True"
| "receivable (StDisconnecting _) (RClose _) = True"
| "receivable (StConnected st) ROfflineGraceExpired = (cd_offline_grace_deadline st \<noteq> None)"
| "receivable _ _ = False"

text \<open>
  A graceful stop: the firewall is reset unless the lockdown is armed, then it is dropped, which
  resets it again unless it was told to keep its policy.
\<close>

definition shutdown :: "world \<Rightarrow> shared \<Rightarrow> shared" where
  "shutdown w s =
     (let s1 = (if lockdown_bool (sv_lockdown_mode s) \<and> should_persist (sv_lockdown_mode s)
                then s\<lparr>sv_firewall := keep_policy_on_drop (sv_firewall s)\<rparr>
                else fst (fw_reset w s))
      in tick s1\<lparr>sv_kernel := fw_drop (sv_table s1) (wa_fw (answer w s1)) (sv_firewall s1) (sv_kernel s1)\<rparr>)"

definition crash :: "shared \<Rightarrow> shared" where
  "crash s = emit ForceRouteCleanup s"

text \<open>
  \<open>listening\<close> says whether the listener takes a transition; a listener that is gone ends the loop.
\<close>

definition machine_step ::
    "world \<Rightarrow> bool \<Rightarrow> EventResult \<Rightarrow> tunnel_state \<Rightarrow> shared \<Rightarrow> TunnelStateTransition list \<Rightarrow> machine" where
  "machine_step w listening r st s ts =
     (case handle_event w st r s of
        (s1, NewState st1 t) \<Rightarrow>
          if listening then MRunning st1 s1 (t # ts) else MStopped (shutdown w s1) ts
      | (s1, SameState st1) \<Rightarrow> MRunning st1 s1 ts
      | (s1, Finished) \<Rightarrow> MStopped (shutdown w s1) ts
      | (s1, Panicked) \<Rightarrow> MCrashed (crash s1))"

text \<open>Beside the machine's own steps, the tunnel's thread reports its failed laps.\<close>

datatype label = LHandle EventResult | LThread "Refusal option" instant

inductive step :: "world \<Rightarrow> machine \<Rightarrow> label \<Rightarrow> machine \<Rightarrow> bool" for w where
  handle: "receivable st r \<Longrightarrow> step w (MRunning st s ts) (LHandle r) (machine_step w listening r st s ts)"
| thread: "step w (MRunning st s ts) (LThread rejection now)
     (MRunning st (s\<lparr>sv_refusals := note_attempt (sv_refusals s) rejection now\<rparr>) ts)"

inductive steps :: "world \<Rightarrow> machine \<Rightarrow> label list \<Rightarrow> machine \<Rightarrow> bool" for w where
  steps_Nil: "steps w m [] m"
| steps_snoc: "steps w m ls m' \<Longrightarrow> step w m' l m'' \<Longrightarrow> steps w m (ls @ [l]) m''"

inductive_cases step_stopped: "step w (MStopped s ts) l m"
inductive_cases step_crashed: "step w (MCrashed s) l m"
inductive_cases step_running: "step w (MRunning st s ts) l m"

text \<open>An invariant of the running machine, kept by every step, holds wherever a run leads.\<close>

lemma steps_invariant:
  assumes "steps w m ls m'" and "I m"
    and "\<And>m l m'. I m \<Longrightarrow> step w m l m' \<Longrightarrow> I m'"
  shows "I m'"
  using assms(1,2) by (induction rule: steps.induct) (auto intro: assms(3))

section \<open>Frame lemmas\<close>

lemma emit_frame [simp]:
  "sv_kernel (emit e s) = sv_kernel s" "sv_table (emit e s) = sv_table s" "sv_firewall (emit e s) = sv_firewall s"
  "sv_allow_lan (emit e s) = sv_allow_lan s" "sv_lan_networks (emit e s) = sv_lan_networks s"
  "sv_lan_routes (emit e s) = sv_lan_routes s" "sv_lockdown_mode (emit e s) = sv_lockdown_mode s"
  "sv_connectivity (emit e s) = sv_connectivity s" "sv_dns_config (emit e s) = sv_dns_config s"
  "sv_allowed_endpoint (emit e s) = sv_allowed_endpoint s" "sv_split_mode (emit e s) = sv_split_mode s"
  "sv_log (emit e s) = e # sv_log s" "sv_refusals (emit e s) = sv_refusals s"
  "sv_recent_reconnects (emit e s) = sv_recent_reconnects s"
  by (simp_all add: emit_def)

lemma tick_frame [simp]:
  "sv_kernel (tick s) = sv_kernel s" "sv_table (tick s) = sv_table s" "sv_firewall (tick s) = sv_firewall s"
  "sv_allow_lan (tick s) = sv_allow_lan s" "sv_lan_networks (tick s) = sv_lan_networks s"
  "sv_lan_routes (tick s) = sv_lan_routes s" "sv_lockdown_mode (tick s) = sv_lockdown_mode s"
  "sv_connectivity (tick s) = sv_connectivity s" "sv_dns_config (tick s) = sv_dns_config s"
  "sv_allowed_endpoint (tick s) = sv_allowed_endpoint s" "sv_split_mode (tick s) = sv_split_mode s"
  "sv_log (tick s) = sv_log s" "sv_refusals (tick s) = sv_refusals s"
  "sv_recent_reconnects (tick s) = sv_recent_reconnects s"
  by (simp_all add: tick_def)

text \<open>The values a policy is built from.\<close>

definition same_settings :: "shared \<Rightarrow> shared \<Rightarrow> bool" where
  "same_settings s s' \<longleftrightarrow>
     sv_table s' = sv_table s \<and> sv_firewall s' = sv_firewall s \<and> sv_allow_lan s' = sv_allow_lan s \<and>
     sv_lan_networks s' = sv_lan_networks s \<and> sv_dns_config s' = sv_dns_config s \<and>
     sv_allowed_endpoint s' = sv_allowed_endpoint s \<and> sv_lockdown_mode s' = sv_lockdown_mode s \<and>
     sv_connectivity s' = sv_connectivity s \<and> sv_split_mode s' = sv_split_mode s \<and>
     sv_lan_routes s' = sv_lan_routes s"

lemma same_settings_refl [simp]: "same_settings s s"
  by (simp add: same_settings_def)

lemma same_settings_trans: "same_settings s s' \<Longrightarrow> same_settings s' s'' \<Longrightarrow> same_settings s s''"
  by (simp add: same_settings_def)

lemma same_settings_steps [simp]:
  "same_settings s (emit e s') = same_settings s s'"
  "same_settings s (tick s') = same_settings s s'"
  "same_settings s (s'\<lparr>sv_kernel := k\<rparr>) = same_settings s s'"
  "same_settings s (s'\<lparr>sv_refusals := run\<rparr>) = same_settings s s'"
  "same_settings s (s'\<lparr>sv_recent_reconnects := laps\<rparr>) = same_settings s s'"
  "same_settings s (s'\<lparr>sv_connectivity_check_was_enabled := c\<rparr>) = same_settings s s'"
  by (simp_all add: same_settings_def)

lemma calls_same_settings [simp]:
  "same_settings s (fst (fw_apply w policy s))"
  "same_settings s (fst (fw_reset w s))"
  "same_settings s (disable_connectivity_check w s)"
  "same_settings s (reset_connectivity_check w s)"
  by (simp_all add: fw_apply_def fw_reset_def disable_connectivity_check_def reset_connectivity_check_def
      Let_def split: prod.splits option.splits)

lemma check_frame [simp]:
  "sv_kernel (disable_connectivity_check w s) = sv_kernel s"
  "sv_kernel (reset_connectivity_check w s) = sv_kernel s"
  "sv_log (disable_connectivity_check w s) = sv_log s"
  by (simp_all add: disable_connectivity_check_def reset_connectivity_check_def Let_def split: option.splits)

lemma policies_same_settings:
  assumes "same_settings s s'"
  shows "sv_blocked_policy s' = sv_blocked_policy s"
    "connecting_policy s' params m t = connecting_policy s params m t"
    "get_firewall_policy st s' = get_firewall_policy st s"
  using assms
  by (simp_all add: same_settings_def sv_blocked_policy_def connecting_policy_def get_firewall_policy_def
      resolve_dns_def)

end
