(* ===== verification/Tunnel_Safety.thy ===== *)
theory Tunnel_Safety
  imports Tunnel_Machine
begin

text \<open>
  The kill switch as an invariant of the machine: which policy is in force in which state. The
  proofs rest on the firewall's contract (\<open>firewall_interface\<close>, interpreted in \<open>Firewall_Laws\<close>).
\<close>

section \<open>The policy in force\<close>

definition in_force :: "shared \<Rightarrow> FirewallPolicy \<Rightarrow> bool" where
  "in_force s policy \<longleftrightarrow> linux_enforces (sv_table s) (sv_kernel s) policy"

definition guarded :: "shared \<Rightarrow> bool" where
  "guarded s \<longleftrightarrow> (\<exists>policy. in_force s policy \<and> root_peers policy)"

lemma root_peers_policies [simp]:
  "root_peers (connecting_policy s params m t)" "root_peers (get_firewall_policy st s)"
  "root_peers (Blocked lan nets ep)"
  by (simp_all add: root_peers_def connecting_policy_def get_firewall_policy_def allowed_peers_def
      relay_peers_def list_all_iff clients_allow_all_def)

lemma guardedI: "in_force s policy \<Longrightarrow> root_peers policy \<Longrightarrow> guarded s"
  by (auto simp: guarded_def)

lemma in_force_frame [simp]:
  "in_force (emit e s) p = in_force s p" "in_force (tick s) p = in_force s p"
  "guarded (emit e s) = guarded s" "guarded (tick s) = guarded s"
  by (simp_all add: in_force_def guarded_def)

lemma in_force_cong: "sv_table s' = sv_table s \<Longrightarrow> sv_kernel s' = sv_kernel s \<Longrightarrow> in_force s' p = in_force s p"
  by (simp add: in_force_def)

lemma guarded_cong: "sv_table s' = sv_table s \<Longrightarrow> sv_kernel s' = sv_kernel s \<Longrightarrow> guarded s' = guarded s"
  by (simp add: guarded_def in_force_def)

lemma same_settings_table: "same_settings s s' \<Longrightarrow> sv_table s' = sv_table s"
  by (simp add: same_settings_def)

lemma fw_apply_force:
  assumes "fw_apply w policy s = (s', r)"
  shows "same_settings s s'" "sv_kernel s' = sv_kernel s \<or> in_force s' policy"
    "is_ok r \<Longrightarrow> in_force s' policy"
proof -
  obtain k where k: "apply_policy (sv_table s) (wa_fw (answer w s)) policy (sv_firewall s) (sv_kernel s) = (k, r)"
    and s': "s' = emit (FwApply policy (is_ok r)) (tick s\<lparr>sv_kernel := k\<rparr>)"
    using assms by (auto simp: fw_apply_def split: prod.splits)
  have "k = sv_kernel s \<or> linux_enforces (sv_table s) k policy"
    using linux_fw.apply_any [of "sv_table s" "(wa_fw (answer w s), sv_firewall s)"] k by simp
  then show "sv_kernel s' = sv_kernel s \<or> in_force s' policy" by (auto simp: s' in_force_def)
  show "is_ok r \<Longrightarrow> in_force s' policy"
    using linux_fw.apply_ok [of "sv_table s" "(wa_fw (answer w s), sv_firewall s)" policy] k
    by (cases r) (simp_all add: s' in_force_def)
  show "same_settings s s'" using calls_same_settings(1) [of s w policy] assms by simp
qed

lemma fw_apply_keeps_guard:
  assumes "fw_apply w policy s = (s', r)" "guarded s" "root_peers policy"
  shows "guarded s'"
  using fw_apply_force [OF assms(1)] assms(2,3) guarded_cong [OF same_settings_table] guardedI by blast

lemma error_set_policy_force:
  assumes "error_set_firewall_policy w s = (s', r)"
  shows "same_settings s s'" "sv_kernel s' = sv_kernel s \<or> in_force s' (sv_blocked_policy s)"
    "is_ok r \<Longrightarrow> in_force s' (sv_blocked_policy s)"
proof -
  obtain r1 where a: "fw_apply w (sv_blocked_policy s) (disable_connectivity_check w s) = (s', r1)"
    and r: "is_ok r \<longleftrightarrow> is_ok r1"
    using assms by (auto simp: error_set_firewall_policy_def Let_def split: prod.splits sum.splits)
  from fw_apply_force [OF a] r show "same_settings s s'"
    "sv_kernel s' = sv_kernel s \<or> in_force s' (sv_blocked_policy s)"
    "is_ok r \<Longrightarrow> in_force s' (sv_blocked_policy s)"
    using same_settings_trans [OF calls_same_settings(3)] by auto
qed

lemma connecting_set_policy_force:
  assumes "connecting_set_firewall_policy w params m t s = (s', r)"
  shows "same_settings s s'" "sv_kernel s' = sv_kernel s \<or> in_force s' (connecting_policy s params m t)"
    "is_ok r \<Longrightarrow> in_force s' (connecting_policy s params m t)"
proof -
  let ?s = "disable_connectivity_check w s"
  obtain r1 where a: "fw_apply w (connecting_policy ?s params m t) ?s = (s', r1)"
    and r: "is_ok r \<longleftrightarrow> is_ok r1"
    using assms by (auto simp: connecting_set_firewall_policy_def Let_def split: prod.splits sum.splits)
  have p: "connecting_policy ?s params m t = connecting_policy s params m t"
    by (rule policies_same_settings(2)) simp
  from fw_apply_force [OF a] r show "same_settings s s'"
    "sv_kernel s' = sv_kernel s \<or> in_force s' (connecting_policy s params m t)"
    "is_ok r \<Longrightarrow> in_force s' (connecting_policy s params m t)"
    using same_settings_trans [OF calls_same_settings(3)] by (auto simp: p)
qed

lemma connected_set_policy_force:
  assumes "connected_set_firewall_policy w st s = (s', r)"
  shows "same_settings s s'" "sv_kernel s' = sv_kernel s \<or> in_force s' (get_firewall_policy st s)"
    "is_ok r \<Longrightarrow> in_force s' (get_firewall_policy st s)"
proof -
  obtain r1 where a: "fw_apply w (get_firewall_policy st s) s = (s', r1)" and r: "is_ok r \<longleftrightarrow> is_ok r1"
    using assms by (auto simp: connected_set_firewall_policy_def split: prod.splits sum.splits)
  from fw_apply_force [OF a] r show "same_settings s s'"
    "sv_kernel s' = sv_kernel s \<or> in_force s' (get_firewall_policy st s)"
    "is_ok r \<Longrightarrow> in_force s' (get_firewall_policy st s)"
    by auto
qed

section \<open>The invariant\<close>

definition error_guard :: "ErrorStateCause \<Rightarrow> shared \<Rightarrow> TunnelStateTransition list \<Rightarrow> bool" where
  "error_guard cause s ts \<longleftrightarrow>
     (\<exists>info ts'. ts = TrError info # ts' \<and> es_cause info = cause \<and>
        (es_is_blocking info \<longrightarrow> (\<exists>lan nets ep. in_force s (Blocked lan nets (Some ep)))))"

definition connecting_guard :: "ConnectingState \<Rightarrow> shared \<Rightarrow> bool" where
  "connecting_guard st s \<longleftrightarrow>
     (\<exists>m t. in_force s (connecting_policy s (cg_params st) m t) \<and>
        (cg_metadata st = None \<or> m = cg_metadata st \<and> t = cg_traffic st))"

definition connected_guard :: "ConnectedState \<Rightarrow> shared \<Rightarrow> bool" where
  "connected_guard st s \<longleftrightarrow> (\<exists>m. in_force s (get_firewall_policy (st\<lparr>cd_metadata := m\<rparr>) s))"

fun kill_switch :: "tunnel_state \<Rightarrow> shared \<Rightarrow> TunnelStateTransition list \<Rightarrow> bool" where
  "kill_switch StDisconnected s ts = True"
| "kill_switch (StDisconnecting _) s ts = guarded s"
| "kill_switch (StConnecting st) s ts = connecting_guard st s"
| "kill_switch (StConnected st) s ts = connected_guard st s"
| "kill_switch (StError cause) s ts = error_guard cause s ts"

lemma guards_guarded:
  "connecting_guard st s \<Longrightarrow> guarded s" "connected_guard st' s \<Longrightarrow> guarded s"
  by (auto simp: connecting_guard_def connected_guard_def intro: guardedI)

fun entered_ok :: "TunnelStateTransition list \<Rightarrow> entered \<Rightarrow> bool" where
  "entered_ok ts (s, st, t) = kill_switch st s (t # ts)"

fun consequence_ok :: "TunnelStateTransition list \<Rightarrow> shared \<times> consequence \<Rightarrow> bool" where
  "consequence_ok ts (s, NewState st t) = kill_switch st s (t # ts)"
| "consequence_ok ts (s, SameState st) = kill_switch st s ts"
| "consequence_ok ts (s, Finished) = True"
| "consequence_ok ts (s, Panicked) = True"

lemma consequence_ok_new_state [simp]: "consequence_ok ts (new_state e) = entered_ok ts e"
  by (cases e) (simp add: new_state_def)

lemma kill_switch_emit [simp]: "kill_switch st (emit e s) ts = kill_switch st s ts"
  by (cases st) (simp_all add: connecting_guard_def connected_guard_def error_guard_def
      connecting_policy_def get_firewall_policy_def resolve_dns_def)

lemma consequence_ok_acked [simp]: "consequence_ok ts (acked r) = consequence_ok ts r"
  by (cases r; cases "snd r") (simp_all add: acked_def)

section \<open>Entering a state\<close>

lemma error_enter_ok: "entered_ok ts (error_enter w cause s)"
proof -
  obtain s' r where p: "error_set_firewall_policy w s = (s', r)"
    by (cases "error_set_firewall_policy w s")
  have "err_of r = None \<longrightarrow> (\<exists>lan nets ep. in_force s' (Blocked lan nets (Some ep)))"
    using error_set_policy_force(3) [OF p]
    by (auto simp: err_of_None_iff sv_blocked_policy_def blocked_policy_def)
  then show ?thesis by (simp add: error_enter_def p error_guard_def es_is_blocking_def)
qed

lemma disconnected_enter_ok: "entered_ok ts (disconnected_enter w b s)"
  by (simp add: disconnected_enter_def Let_def)

lemma disconnecting_enter_ok: "guarded s \<Longrightarrow> entered_ok ts (disconnecting_enter after s)"
  by (simp add: disconnecting_enter_def)

lemma connecting_dial_ok: "entered_ok ts (connecting_dial w retry s)"
proof (cases "wa_params (answer w s) retry")
  case (Inl e)
  then show ?thesis by (simp add: connecting_dial_def error_enter_ok)
next
  case (Inr params)
  let ?params = "params\<lparr>wp_include_only := sv_include_only (tick s),
     wp_lan_networks := Some (lan_routes_subscribe (sv_lan_routes (tick s)))\<rparr>"
  obtain s' r where p: "connecting_set_firewall_policy w (from_params ?params) None TrafficNone (tick s) = (s', r)"
    by (cases "connecting_set_firewall_policy w (from_params ?params) None TrafficNone (tick s)")
  show ?thesis
  proof (cases r)
    case (Inl e)
    with Inr p show ?thesis by (simp add: connecting_dial_def Let_def error_enter_ok)
  next
    case (Inr u)
    have "same_settings (tick s) s'" "in_force s' (connecting_policy (tick s) (from_params ?params) None TrafficNone)"
      using connecting_set_policy_force [OF p] Inr by simp_all
    then have "in_force s' (connecting_policy s' (from_params ?params) None TrafficNone)"
      by (simp add: policies_same_settings)
    with \<open>wa_params (answer w s) retry = Inr params\<close> Inr p show ?thesis
      by (auto simp: connecting_dial_def Let_def start_tunnel_warren_def connecting_guard_def
          connecting_policy_def)
  qed
qed

lemma connecting_enter_ok: "entered_ok ts (connecting_enter w retry s)"
  by (auto simp: connecting_enter_def error_enter_ok connecting_dial_ok split: prod.splits option.splits)

lemma dns_set_frame:
  assumes "dns_set w i c s = (s', b)"
  shows "sv_kernel s' = sv_kernel s" "sv_table s' = sv_table s" "same_settings s s'"
  using assms by (auto simp: dns_set_def)

lemma connected_force_guard:
  assumes "same_settings s s'" "in_force s' (get_firewall_policy st s)"
  shows "connected_guard st s'"
  using assms policies_same_settings(3) [OF assms(1), of st]
  by (auto simp: connected_guard_def intro!: exI [of _ "cd_metadata st"])

lemma connected_enter_ok:
  assumes "guarded s"
  shows "entered_ok ts (connected_enter w metadata params s)"
proof -
  have core: "entered_ok ts (case connected_set_firewall_policy w st s0 of
        (s2, Inl error) \<Rightarrow> disconnecting_enter (AfterBlock (SetFirewallPolicyError error)) s2
      | (s2, Inr _) \<Rightarrow>
          (case connected_set_dns w st s2 of
             (s3, False) \<Rightarrow> disconnecting_enter (AfterBlock SetDnsError) s3
           | (s3, True) \<Rightarrow> (s3, StConnected st, TrConnected endpoint)))"
    if "guarded s0" for st s0 endpoint
  proof -
    obtain s2 r where p: "connected_set_firewall_policy w st s0 = (s2, r)"
      by (cases "connected_set_firewall_policy w st s0")
    note force = connected_set_policy_force [OF p]
    have g: "guarded s2"
      using force(1,2) that guardedI root_peers_policies
        guarded_cong [OF same_settings_table [OF force(1)]] by blast
    obtain s3 b where d: "connected_set_dns w st s2 = (s3, b)" by (cases "connected_set_dns w st s2")
    note frame = dns_set_frame [OF d [unfolded connected_set_dns_def]]
    show ?thesis
    proof (cases r)
      case (Inl e)
      with g p show ?thesis by (simp add: disconnecting_enter_ok)
    next
      case (Inr u)
      have "in_force s3 (get_firewall_policy st s0)"
        using force(3) Inr in_force_cong [OF frame(2,1)] by simp
      then have "connected_guard st s3"
        using connected_force_guard [OF same_settings_trans [OF force(1) frame(3)]] by blast
      moreover have "guarded s3" using g guarded_cong [OF frame(2,1)] by simp
      ultimately show ?thesis
        using Inr p d by (cases b) (simp_all add: disconnecting_enter_ok)
    qed
  qed
  show ?thesis
    using assms
    by (auto simp: connected_enter_def Let_def core disconnecting_enter_ok)
qed

section \<open>Handling an event\<close>

lemma set_allow_lan_frame:
  assumes "set_allow_lan s a n = (s', changed)"
  shows "sv_kernel s' = sv_kernel s" "sv_table s' = sv_table s" "\<not> changed \<Longrightarrow> s' = s"
  using assms by (auto simp: set_allow_lan_def split: if_splits)

lemma set_dns_config_frame:
  assumes "set_dns_config s c = (s', changed)"
  shows "sv_kernel s' = sv_kernel s" "sv_table s' = sv_table s" "\<not> changed \<Longrightarrow> s' = s"
  using assms by (auto simp: set_dns_config_def split: if_splits)

lemma set_split_apps_frame:
  assumes "set_split_apps s apps = (s', changed)"
  shows "sv_kernel s' = sv_kernel s" "sv_table s' = sv_table s" "sv_allow_lan s' = sv_allow_lan s"
    "sv_lan_networks s' = sv_lan_networks s" "sv_dns_config s' = sv_dns_config s"
    "sv_allowed_endpoint s' = sv_allowed_endpoint s"
  using assms by (auto simp: set_split_apps_def Let_def)

text \<open>A guard only looks at the kernel and the values its policy is built from.\<close>

lemma guards_cong:
  assumes "sv_kernel s' = sv_kernel s" "sv_table s' = sv_table s" "sv_allow_lan s' = sv_allow_lan s"
    "sv_lan_networks s' = sv_lan_networks s"
  shows "sv_allowed_endpoint s' = sv_allowed_endpoint s \<Longrightarrow> connecting_guard c s' = connecting_guard c s"
    and "sv_dns_config s' = sv_dns_config s \<Longrightarrow> connected_guard d s' = connected_guard d s"
    and "error_guard cause s' ts = error_guard cause s ts"
    and "guarded s' = guarded s"
  using assms
  by (simp_all add: connecting_guard_def connected_guard_def error_guard_def connecting_policy_def
      get_firewall_policy_def resolve_dns_def in_force_def guarded_def)

lemma error_guard_cong:
  "sv_kernel s' = sv_kernel s \<Longrightarrow> sv_table s' = sv_table s \<Longrightarrow> error_guard cause s' ts = error_guard cause s ts"
  by (simp add: error_guard_def in_force_def)

lemma connecting_reset_firewall_ok:
  assumes "guarded s"
  shows "consequence_ok ts (connecting_reset_firewall w st s)"
proof -
  obtain s' r where p: "connecting_set_firewall_policy w (cg_params st) (cg_metadata st) (cg_traffic st) s = (s', r)"
    by (cases "connecting_set_firewall_policy w (cg_params st) (cg_metadata st) (cg_traffic st) s")
  note force = connecting_set_policy_force [OF p]
  have g: "guarded s'"
    using force(1,2) assms guardedI root_peers_policies
        guarded_cong [OF same_settings_table [OF force(1)]] by blast
  have "is_ok r \<Longrightarrow> connecting_guard st s'"
    using force(3) policies_same_settings(2) [OF force(1)] by (auto simp: connecting_guard_def)
  with p g show ?thesis
    by (cases r)
       (simp_all add: connecting_reset_firewall_def connecting_disconnect_def disconnecting_enter_ok)
qed

lemma connected_reapply_ok:
  assumes "guarded s"
  shows "consequence_ok ts (connected_reapply w st s)"
proof -
  obtain s' r where p: "connected_set_firewall_policy w st s = (s', r)"
    by (cases "connected_set_firewall_policy w st s")
  note force = connected_set_policy_force [OF p]
  have g: "guarded s'"
    using force(1,2) assms guardedI root_peers_policies
        guarded_cong [OF same_settings_table [OF force(1)]] by blast
  have "is_ok r \<Longrightarrow> connected_guard st s'"
    using force(3) connected_force_guard [OF force(1)] by blast
  with p g show ?thesis
    by (cases r) (simp_all add: connected_reapply_def connected_disconnect_def disconnecting_enter_ok)
qed

lemma error_reapply_ok:
  assumes "error_guard cause s ts"
  shows "error_guard cause (fst (error_set_firewall_policy w s)) ts"
proof -
  obtain s' r where p: "error_set_firewall_policy w s = (s', r)" by (cases "error_set_firewall_policy w s")
  note force = error_set_policy_force [OF p]
  from assms obtain info ts' where
    i: "ts = TrError info # ts'" "es_cause info = cause"
      "es_is_blocking info \<longrightarrow> (\<exists>lan nets ep. in_force s (Blocked lan nets (Some ep)))"
    unfolding error_guard_def by blast
  have "\<exists>lan nets ep. in_force s' (Blocked lan nets (Some ep))" if "es_is_blocking info"
    using force(2) i(3) that in_force_cong [OF same_settings_table [OF force(1)]]
    by (auto simp: sv_blocked_policy_def blocked_policy_def)
  with i p show ?thesis by (auto simp: error_guard_def)
qed

lemma connecting_disconnect_ok: "guarded s \<Longrightarrow> consequence_ok ts (connecting_disconnect after s)"
  by (simp add: connecting_disconnect_def disconnecting_enter_ok)

lemma connected_disconnect_ok: "guarded s \<Longrightarrow> consequence_ok ts (connected_disconnect after s)"
  by (simp add: connected_disconnect_def disconnecting_enter_ok)

lemma guarded_updates [simp]:
  "guarded (s\<lparr>sv_allowed_endpoint := ep\<rparr>) = guarded s" "guarded (s\<lparr>sv_connectivity := c\<rparr>) = guarded s"
  "guarded (set_lockdown_mode s m) = guarded s"
  "connecting_guard st (s\<lparr>sv_connectivity := c\<rparr>) = connecting_guard st s"
  "connecting_guard st (set_lockdown_mode s m) = connecting_guard st s"
  "connected_guard st' (s\<lparr>sv_connectivity := c\<rparr>) = connected_guard st' s"
  "connected_guard st' (set_lockdown_mode s m) = connected_guard st' s"
  "connected_guard st' (s\<lparr>sv_allowed_endpoint := ep\<rparr>) = connected_guard st' s"
  "error_guard cause (s\<lparr>sv_connectivity := c\<rparr>) ts = error_guard cause s ts"
  "error_guard cause (s\<lparr>sv_allowed_endpoint := ep\<rparr>) ts = error_guard cause s ts"
  "error_guard cause (set_lockdown_mode s m) ts = error_guard cause s ts"
  by (simp_all add: guarded_def in_force_def connecting_guard_def connected_guard_def error_guard_def
      connecting_policy_def get_firewall_policy_def resolve_dns_def set_lockdown_mode_def)

lemma guards_emit [simp]:
  "connecting_guard st (emit e s) = connecting_guard st s" "connected_guard st' (emit e s) = connected_guard st' s"
  "error_guard cause (emit e s) ts = error_guard cause s ts"
  using kill_switch_emit [of "StConnecting st" e s ts] kill_switch_emit [of "StConnected st'" e s ts]
    kill_switch_emit [of "StError cause" e s ts] by (simp_all only: kill_switch.simps)

lemma connecting_split_ok:
  assumes "connecting_guard st s"
  shows "consequence_ok ts (connecting_command w st (Some (CmdSetSplitApps apps)) s)"
proof -
  obtain s1 changed where x: "set_split_apps s apps = (s1, changed)" by (cases "set_split_apps s apps")
  note frame = set_split_apps_frame [OF x]
  have "connecting_guard st s1" "guarded s1"
    using assms guards_guarded(1) [OF assms] guards_cong(1,4) [OF frame(1-4)] frame(6) by simp_all
  with x show ?thesis by (simp add: connecting_disconnect_ok)
qed

lemma connecting_command_ok:
  assumes "connecting_guard st s"
  shows "consequence_ok ts (connecting_command w st c s)"
proof (cases c)
  case None
  with guards_guarded(1) [OF assms] show ?thesis by (simp add: connecting_disconnect_ok)
next
  case (Some cmd)
  note g = guards_guarded(1) [OF assms]
  show ?thesis
  proof (cases cmd)
    case (CmdAllowLan a n)
    obtain s1 changed where x: "set_allow_lan s a n = (s1, changed)" by (cases "set_allow_lan s a n")
    note frame = set_allow_lan_frame [OF x]
    have "guarded s1" using g guarded_cong [OF frame(2,1)] by simp
    with assms frame(3) show ?thesis
      by (cases changed) (simp_all add: Some CmdAllowLan x connecting_reset_firewall_ok)
  next
    case (CmdAllowEndpoint ep)
    have "consequence_ok ts (connecting_reset_firewall w st (s\<lparr>sv_allowed_endpoint := ep\<rparr>))"
      using g by (intro connecting_reset_firewall_ok) simp
    with assms show ?thesis
      by (auto simp: Some CmdAllowEndpoint connecting_reset_firewall_def connecting_disconnect_def
          disconnecting_enter_def split: prod.splits sum.splits)
  next
    case (CmdDns servers)
    have "connecting_guard st (fst (set_dns_config s servers))"
      using assms by (subst guards_cong(1)) (simp_all add: set_dns_config_def)
    with Some CmdDns show ?thesis by simp
  next
    case (CmdSetSplitApps apps)
    with Some connecting_split_ok [OF assms] show ?thesis by simp
  qed (use assms g in \<open>simp_all add: Some Let_def connecting_disconnect_ok connecting_reset_firewall_ok\<close>)
qed

lemma connecting_event_ok:
  assumes "connecting_guard st s"
  shows "consequence_ok ts (connecting_tunnel_event w st e s)"
proof (cases e)
  case None
  with guards_guarded(1) [OF assms] show ?thesis by (simp add: connecting_disconnect_ok)
next
  case (Some ev)
  note g = guards_guarded(1) [OF assms]
  show ?thesis
  proof (cases ev)
    case (EvInterfaceUp metadata traffic)
    have "consequence_ok ts
       (connecting_reset_firewall w (st\<lparr>cg_traffic := traffic, cg_metadata := Some metadata\<rparr>) s)"
      using g by (rule connecting_reset_firewall_ok)
    with Some EvInterfaceUp show ?thesis by (simp add: connecting_reset_firewall_def Let_def)
  next
    case EvDown
    from assms have "connecting_guard (st\<lparr>cg_traffic := TrafficNone, cg_metadata := None\<rparr>) s"
      by (auto simp: connecting_guard_def)
    with Some EvDown show ?thesis by simp
  qed (use assms g in \<open>simp_all add: Some connecting_disconnect_ok connected_enter_ok\<close>)
qed

lemma closes_ok:
  "consequence_ok ts (connecting_close w st reason s)"
  "consequence_ok ts (connected_close w reason s)"
  by (auto simp: connecting_close_def connected_close_def error_enter_ok connecting_enter_ok
      split: option.splits prod.splits bool.splits)

lemma connected_dns_ok:
  assumes "connected_guard st s"
  shows "consequence_ok ts (connected_command w st (Some (CmdDns servers)) s)"
proof -
  obtain s1 changed where x: "set_dns_config s servers = (s1, changed)" by (cases "set_dns_config s servers")
  note frame = set_dns_config_frame [OF x]
  have g1: "guarded s1" using guards_guarded(2) [OF assms] guarded_cong [OF frame(2,1)] by simp
  obtain s2 r where p: "connected_set_firewall_policy w st s1 = (s2, r)"
    by (cases "connected_set_firewall_policy w st s1")
  note force = connected_set_policy_force [OF p]
  have g2: "guarded s2"
    using force(1,2) g1 guardedI root_peers_policies
        guarded_cong [OF same_settings_table [OF force(1)]] by blast
  obtain s3 b where d: "connected_set_dns w st s2 = (s3, b)" by (cases "connected_set_dns w st s2")
  note dframe = dns_set_frame [OF d [unfolded connected_set_dns_def]]
  have g3: "guarded s3" using g2 guarded_cong [OF dframe(2,1)] by simp
  have "is_ok r \<Longrightarrow> connected_guard st s3"
    using connected_force_guard [OF same_settings_trans [OF force(1) dframe(3)]] force(3)
      in_force_cong [OF dframe(2,1)] by blast
  with x p d g2 g3 frame(3) assms show ?thesis
    by (cases changed; cases r; cases b) (simp_all add: connected_disconnect_ok)
qed

lemma connected_split_ok:
  assumes "connected_guard st s"
  shows "consequence_ok ts (connected_command w st (Some (CmdSetSplitApps apps)) s)"
proof -
  obtain s1 changed where x: "set_split_apps s apps = (s1, changed)" by (cases "set_split_apps s apps")
  note frame = set_split_apps_frame [OF x]
  have "connected_guard st s1" "guarded s1"
    using assms guards_guarded(2) [OF assms] guards_cong(2,4) [OF frame(1-4)] frame(5) by simp_all
  with x show ?thesis by (simp add: connected_disconnect_ok)
qed

lemma connected_guard_grace [simp]:
  "connected_guard (st\<lparr>cd_offline_grace_deadline := d\<rparr>) s = connected_guard st s"
  "connected_guard (st\<lparr>cd_metadata := m\<rparr>) s = connected_guard st s"
  "connected_guard st (tick s) = connected_guard st s"
  by (simp_all add: connected_guard_def get_firewall_policy_def allowed_peers_def resolve_dns_def)

lemma connected_command_ok:
  assumes "connected_guard st s"
  shows "consequence_ok ts (connected_command w st c s)"
proof (cases c)
  case None
  with guards_guarded(2) [OF assms] show ?thesis by (simp add: connected_disconnect_ok)
next
  case (Some cmd)
  note g = guards_guarded(2) [OF assms]
  show ?thesis
  proof (cases cmd)
    case (CmdAllowLan a n)
    obtain s1 changed where x: "set_allow_lan s a n = (s1, changed)" by (cases "set_allow_lan s a n")
    note frame = set_allow_lan_frame [OF x]
    have "guarded s1" using g guarded_cong [OF frame(2,1)] by simp
    with assms frame(3) show ?thesis
      by (cases changed) (simp_all add: Some CmdAllowLan x connected_reapply_ok)
  next
    case (CmdDns servers)
    with Some connected_dns_ok [OF assms] show ?thesis by simp
  next
    case (CmdSetSplitApps apps)
    with Some connected_split_ok [OF assms] show ?thesis by simp
  next
    case (CmdConnectivity connectivity)
    with assms g show ?thesis
      by (auto simp: Some Let_def connected_disconnect_ok split: GraceAction.splits)
  qed (use assms g in \<open>simp_all add: Some connected_disconnect_ok connected_reapply_ok\<close>)
qed

lemma connected_event_ok:
  assumes "connected_guard st s"
  shows "consequence_ok ts (connected_tunnel_event w st e s)"
proof (cases e)
  case None
  with guards_guarded(2) [OF assms] show ?thesis by (simp add: connected_disconnect_ok)
next
  case (Some ev)
  with assms guards_guarded(2) [OF assms] show ?thesis
    by (cases ev) (simp_all add: Let_def connected_disconnect_ok connected_reapply_ok)
qed

lemma error_command_ok:
  assumes "error_guard cause s ts"
  shows "consequence_ok ts (error_command w cause c s)"
proof (cases c)
  case None
  then show ?thesis by (simp add: disconnected_enter_ok)
next
  case (Some cmd)
  show ?thesis
  proof (cases cmd)
    case (CmdAllowLan a n)
    obtain s1 changed where x: "set_allow_lan s a n = (s1, changed)" by (cases "set_allow_lan s a n")
    have "error_guard cause s1 ts" using assms error_guard_cong [OF set_allow_lan_frame(1) [OF x] set_allow_lan_frame(2) [OF x]] by simp
    with Some CmdAllowLan x show ?thesis by (simp add: error_reapply_ok)
  next
    case (CmdDns servers)
    obtain s1 changed where x: "set_dns_config s servers = (s1, changed)" by (cases "set_dns_config s servers")
    have "error_guard cause s1 ts" using assms error_guard_cong [OF set_dns_config_frame(1) [OF x] set_dns_config_frame(2) [OF x]] by simp
    with Some CmdDns x show ?thesis by (simp add: error_reapply_ok)
  next
    case (CmdSetSplitApps apps)
    obtain s1 changed where x: "set_split_apps s apps = (s1, changed)" by (cases "set_split_apps s apps")
    have "error_guard cause s1 ts" using assms error_guard_cong [OF set_split_apps_frame(1) [OF x] set_split_apps_frame(2) [OF x]] by simp
    with Some CmdSetSplitApps x show ?thesis by (simp add: error_reapply_ok)
  qed (use assms in \<open>simp_all add: Some Let_def error_reapply_ok connecting_enter_ok disconnected_enter_ok
      error_enter_ok\<close>)
qed

lemma disconnecting_handle_ok:
  assumes "guarded s"
  shows "consequence_ok ts (disconnecting_handle w after r s)"
proof (cases r)
  case (RCommand c)
  have "guarded (fst (disconnecting_command after c s))"
    using assms
    by (cases "(after, c, s)" rule: disconnecting_command.cases)
       (auto simp: set_allow_lan_def set_dns_config_def set_split_apps_def Let_def guarded_def in_force_def
         set_lockdown_mode_def)
  with RCommand show ?thesis by (cases "disconnecting_command after c s") simp
next
  case (RClose c)
  then show ?thesis
    by (simp add: after_disconnect_def error_enter_ok disconnected_enter_ok connecting_enter_ok
        split: option.split AfterDisconnect.split)
qed simp_all

lemma disconnected_command_ok: "consequence_ok ts (disconnected_command w c s)"
  by (cases "(w, c, s)" rule: disconnected_command.cases)
     (simp_all add: Let_def connecting_enter_ok split: prod.split)

lemma handle_event_ok:
  assumes "kill_switch st s ts"
  shows "consequence_ok ts (handle_event w st r s)"
proof (cases st)
  case StDisconnected
  then show ?thesis by (cases r) (simp_all add: disconnected_command_ok)
next
  case (StError cause)
  with assms show ?thesis by (cases r) (simp_all add: error_command_ok)
next
  case (StDisconnecting after)
  with assms show ?thesis by (simp add: disconnecting_handle_ok)
next
  case (StConnecting c)
  with assms show ?thesis
    by (cases r) (simp_all add: connecting_command_ok connecting_event_ok closes_ok)
next
  case (StConnected c)
  with assms guards_guarded(2) [of c s] show ?thesis
    by (cases r) (simp_all add: connected_command_ok connected_event_ok closes_ok connected_disconnect_ok)
qed

fun machine_guarded :: "machine \<Rightarrow> bool" where
  "machine_guarded (MRunning st s ts) = kill_switch st s ts"
| "machine_guarded _ = True"

lemma machine_new_guarded: "machine_guarded (machine_new w settings s)"
proof (cases "in_initial_block settings")
  case (Some cause)
  with error_enter_ok [of "[]" w cause s] show ?thesis
    by (cases "error_enter w cause s") (simp add: machine_new_def)
qed (simp add: machine_new_def disconnected_enter_def Let_def)

lemma step_guarded:
  assumes "step w m l m'" "machine_guarded m"
  shows "machine_guarded m'"
  using assms
proof (cases rule: step.cases)
  case (handle st r s ts listening)
  then have "consequence_ok ts (handle_event w st r s)" using assms(2) handle_event_ok by simp
  with handle show ?thesis
    by (auto simp: machine_step_def split: prod.splits consequence.splits)
next
  case (thread st s ts rejection now)
  have "kill_switch st (s\<lparr>sv_refusals := run\<rparr>) ts = kill_switch st s ts" for run
    by (cases st)
       (simp_all add: guarded_def in_force_def connecting_guard_def connected_guard_def error_guard_def
         connecting_policy_def get_firewall_policy_def resolve_dns_def)
  with thread assms(2) show ?thesis by simp
qed

lemma steps_guarded:
  assumes "steps w (machine_new w settings s) ls m"
  shows "machine_guarded m"
  using assms machine_new_guarded step_guarded by (rule steps_invariant)

end
