(* ===== verification/Tunnel_Settings.thy ===== *)
theory Tunnel_Settings
  imports Tunnel_Safety
begin

text \<open>
  What the machine keeps coherent beside the kill switch: the published LAN networks follow the
  allow-LAN setting, the split mode of the firewall is the one the settings enforce, a tunnel that is
  dialled or up was started in that mode and the table in force is of that mode, and in the
  disconnected state the last call to the firewall is the one the lockdown asks for.
\<close>

section \<open>The invariant\<close>

fun start_of :: "effect \<Rightarrow> WarrenTunnelParameters option" where
  "start_of (StartTunnel p _) = Some p"
| "start_of _ = None"

fun firewall_call :: "effect \<Rightarrow> bool" where
  "firewall_call (FwApply _ _) = True"
| "firewall_call (FwReset _) = True"
| "firewall_call _ = False"

primrec last_start :: "effect list \<Rightarrow> WarrenTunnelParameters option" where
  "last_start [] = None"
| "last_start (e # es) = (case start_of e of Some p \<Rightarrow> Some p | None \<Rightarrow> last_start es)"

primrec last_firewall_call :: "effect list \<Rightarrow> effect option" where
  "last_firewall_call [] = None"
| "last_firewall_call (e # es) = (if firewall_call e then Some e else last_firewall_call es)"

definition settings_ok :: "shared \<Rightarrow> bool" where
  "settings_ok s \<longleftrightarrow>
     lr_current (sv_lan_routes s) = routed (sv_allow_lan s) (sv_lan_networks s) \<and>
     fw_include_only (sv_firewall s) = sv_include_only s \<and>
     (sv_include_only s \<longrightarrow> can_include (sv_firewall s))"

text \<open>A policy in force in the mode of the settings, unlike \<^const>\<open>in_force\<close>, which leaves the mode open.
  Its batch was built on the host as the world described it at one of the calls.\<close>

definition in_mode :: "world \<Rightarrow> shared \<Rightarrow> FirewallPolicy \<Rightarrow> bool" where
  "in_mode w s policy \<longleftrightarrow>
     (\<exists>n msgs. finalize (fe_host (wa_fw (w n))) policy (sv_firewall s) = Inr msgs \<and>
        nk_tables (sv_kernel s) (sv_table s) = Some (policy_table msgs))"

definition connecting_mode :: "world \<Rightarrow> ConnectingState \<Rightarrow> shared \<Rightarrow> bool" where
  "connecting_mode w st s \<longleftrightarrow>
     (\<exists>m t. in_mode w s (connecting_policy s (cg_params st) m t) \<and>
        (cg_metadata st = None \<or> m = cg_metadata st \<and> t = cg_traffic st))"

definition connected_mode :: "world \<Rightarrow> ConnectedState \<Rightarrow> shared \<Rightarrow> bool" where
  "connected_mode w st s \<longleftrightarrow> (\<exists>m. in_mode w s (get_firewall_policy (st\<lparr>cd_metadata := m\<rparr>) s))"

definition started :: "WarrenBackendInfo \<Rightarrow> shared \<Rightarrow> bool" where
  "started params s \<longleftrightarrow>
     (\<exists>p. last_start (sv_log s) = Some p \<and> params = from_params p \<and> wp_include_only p = sv_include_only s)"

definition lockdown_guard :: "shared \<Rightarrow> bool" where
  "lockdown_guard s \<longleftrightarrow>
     (if lockdown_bool (sv_lockdown_mode s)
      then \<exists>done. last_firewall_call (sv_log s) = Some (FwApply (sv_blocked_policy s) done) \<and>
             (done \<longrightarrow> in_force s (sv_blocked_policy s))
      else last_firewall_call (sv_log s) = Some (FwReset True) \<longrightarrow> linux_lifted (sv_table s) (sv_kernel s))"

fun state_ok :: "world \<Rightarrow> tunnel_state \<Rightarrow> shared \<Rightarrow> bool" where
  "state_ok w StDisconnected s = lockdown_guard s"
| "state_ok w (StConnecting c) s \<longleftrightarrow> started (cg_params c) s \<and> connecting_mode w c s"
| "state_ok w (StConnected c) s \<longleftrightarrow> started (cd_params c) s \<and> connected_mode w c s"
| "state_ok w _ s = True"

definition coherent :: "world \<Rightarrow> tunnel_state \<Rightarrow> shared \<Rightarrow> bool" where
  "coherent w st s \<longleftrightarrow> settings_ok s \<and> state_ok w st s"

section \<open>Frames\<close>

text \<open>What a call leaves: the settings and the tunnel started last.\<close>

definition keeps :: "shared \<Rightarrow> shared \<Rightarrow> bool" where
  "keeps s s' \<longleftrightarrow> same_settings s s' \<and> last_start (sv_log s') = last_start (sv_log s)"

lemma keeps_refl [simp]: "keeps s s"
  by (simp add: keeps_def)

lemma keeps_trans: "keeps s s' \<Longrightarrow> keeps s' s'' \<Longrightarrow> keeps s s''"
  by (auto simp: keeps_def intro: same_settings_trans)

lemma in_mode_cong:
  "sv_table s' = sv_table s \<Longrightarrow> sv_kernel s' = sv_kernel s \<Longrightarrow> sv_firewall s' = sv_firewall s \<Longrightarrow>
     in_mode w s' policy = in_mode w s policy"
  by (simp add: in_mode_def)

lemma modes_cong:
  assumes "sv_table s' = sv_table s" "sv_kernel s' = sv_kernel s" "sv_firewall s' = sv_firewall s"
    "sv_allow_lan s' = sv_allow_lan s" "sv_lan_networks s' = sv_lan_networks s"
  shows "sv_allowed_endpoint s' = sv_allowed_endpoint s \<Longrightarrow> connecting_mode w st s' = connecting_mode w st s"
    "sv_dns_config s' = sv_dns_config s \<Longrightarrow> connected_mode w st' s' = connected_mode w st' s"
  using assms
  by (simp_all add: connecting_mode_def connected_mode_def in_mode_cong [OF assms(1-3)] connecting_policy_def
      get_firewall_policy_def resolve_dns_def)

lemma modes_frame [simp]:
  "connecting_mode w st (emit e s) = connecting_mode w st s" "connected_mode w st' (emit e s) = connected_mode w st' s"
  "connecting_mode w st (tick s) = connecting_mode w st s" "connected_mode w st' (tick s) = connected_mode w st' s"
  "connecting_mode w st (s\<lparr>sv_refusals := run\<rparr>) = connecting_mode w st s"
  "connected_mode w st' (s\<lparr>sv_refusals := run\<rparr>) = connected_mode w st' s"
  "connecting_mode w st (s\<lparr>sv_connectivity := conn\<rparr>) = connecting_mode w st s"
  "connected_mode w st' (s\<lparr>sv_connectivity := conn\<rparr>) = connected_mode w st' s"
  "connected_mode w st' (s\<lparr>sv_allowed_endpoint := ep\<rparr>) = connected_mode w st' s"
  "connecting_mode w st (set_lockdown_mode s m) = connecting_mode w st s"
  "connected_mode w st' (set_lockdown_mode s m) = connected_mode w st' s"
  "connecting_mode w st (fst (set_dns_config s d)) = connecting_mode w st s"
  by (rule modes_cong; simp add: set_lockdown_mode_def set_dns_config_def)+

lemma modes_of_same:
  assumes "same_settings s s'"
  shows "in_mode w s' (connecting_policy s (cg_params st) (cg_metadata st) (cg_traffic st)) \<Longrightarrow> connecting_mode w st s'"
    "in_mode w s' (get_firewall_policy st' s) \<Longrightarrow> connected_mode w st' s'"
proof -
  note same = policies_same_settings(2,3) [OF assms]
  show "in_mode w s' (connecting_policy s (cg_params st) (cg_metadata st) (cg_traffic st)) \<Longrightarrow> connecting_mode w st s'"
    unfolding same(1) [symmetric] connecting_mode_def by blast
  show "connected_mode w st' s'" if "in_mode w s' (get_firewall_policy st' s)"
    unfolding connected_mode_def same(2)
    by (rule exI [of _ "cd_metadata st'"]) (use that in simp)
qed

lemma connecting_mode_down:
  "connecting_mode w st s \<Longrightarrow> connecting_mode w (st\<lparr>cg_traffic := t, cg_metadata := None\<rparr>) s"
  by (auto simp: connecting_mode_def)

lemma connected_mode_grace [simp]:
  "connected_mode w (st\<lparr>cd_offline_grace_deadline := d\<rparr>) s = connected_mode w st s"
  "connected_mode w (st\<lparr>cd_metadata := m\<rparr>) s = connected_mode w st s"
  by (simp_all add: connected_mode_def get_firewall_policy_def allowed_peers_def)

lemma keeps_updates [simp]:
  "keeps s (tick s') = keeps s s'"
  "keeps s (s'\<lparr>sv_refusals := run\<rparr>) = keeps s s'"
  "keeps s (s'\<lparr>sv_recent_reconnects := laps\<rparr>) = keeps s s'"
  "keeps s (s'\<lparr>sv_connectivity_check_was_enabled := c\<rparr>) = keeps s s'"
  by (simp_all add: keeps_def)

lemma keeps_emit [simp]: "start_of e = None \<Longrightarrow> keeps s (emit e s') = keeps s s'"
  by (simp add: keeps_def)

lemma keeps_fw_apply:
  assumes "fw_apply w policy s = (s', r)"
  shows "keeps s s'" "is_ok r \<Longrightarrow> in_mode w s' policy"
proof -
  obtain k where k: "apply_policy (sv_table s) (wa_fw (answer w s)) policy (sv_firewall s) (sv_kernel s) = (k, r)"
    and s': "s' = emit (FwApply policy (is_ok r)) (tick s\<lparr>sv_kernel := k\<rparr>)"
    using assms by (auto simp: fw_apply_def split: prod.splits)
  show "is_ok r \<Longrightarrow> in_mode w s' policy"
    using k by (cases rule: apply_policy_cases) (auto simp: s' in_mode_def answer_def)
  show "keeps s s'" by (simp add: keeps_def s')
qed

lemma keeps_checks [simp]:
  "keeps s (disable_connectivity_check w s') = keeps s s'"
  "keeps s (reset_connectivity_check w s') = keeps s s'"
  by (auto simp: disable_connectivity_check_def reset_connectivity_check_def Let_def split: option.split)

lemma keeps_resets [simp]:
  "keeps s (reset_routes s') = keeps s s'" "keeps s (reset_dns s') = keeps s s'"
  "keeps s (reset_flaps s') = keeps s s'" "keeps s (connected_teardown s') = keeps s s'"
  by (simp_all add: reset_routes_def reset_dns_def reset_flaps_def connected_teardown_def)

lemma keeps_policies:
  "error_set_firewall_policy w s = (s', r) \<Longrightarrow> keeps s s'"
  "connecting_set_firewall_policy w a m t s = (s', r) \<Longrightarrow>
     keeps s s' \<and> (is_ok r \<longrightarrow> in_mode w s' (connecting_policy s a m t))"
  "connected_set_firewall_policy w st s = (s', r) \<Longrightarrow>
     keeps s s' \<and> (is_ok r \<longrightarrow> connected_mode w st s')"
proof -
  assume "error_set_firewall_policy w s = (s', r)"
  then obtain r1 where a: "fw_apply w (sv_blocked_policy s) (disable_connectivity_check w s) = (s', r1)"
    by (auto simp: error_set_firewall_policy_def Let_def split: prod.splits sum.splits)
  show "keeps s s'" by (rule keeps_trans [OF _ keeps_fw_apply(1) [OF a]]) simp
next
  let ?s = "disable_connectivity_check w s"
  have p: "connecting_policy ?s a m t = connecting_policy s a m t"
    by (rule policies_same_settings(2)) simp
  assume "connecting_set_firewall_policy w a m t s = (s', r)"
  then obtain r1 where a: "fw_apply w (connecting_policy ?s a m t) ?s = (s', r1)" and "is_ok r \<longleftrightarrow> is_ok r1"
    by (auto simp: connecting_set_firewall_policy_def Let_def split: prod.splits sum.splits)
  moreover have "keeps s s'" by (rule keeps_trans [OF _ keeps_fw_apply(1) [OF a]]) simp
  ultimately show "keeps s s' \<and> (is_ok r \<longrightarrow> in_mode w s' (connecting_policy s a m t))"
    using keeps_fw_apply(2) [OF a] p by simp
next
  assume "connected_set_firewall_policy w st s = (s', r)"
  then obtain r1 where a: "fw_apply w (get_firewall_policy st s) s = (s', r1)" and "is_ok r \<longleftrightarrow> is_ok r1"
    by (auto simp: connected_set_firewall_policy_def split: prod.splits sum.splits)
  then show "keeps s s' \<and> (is_ok r \<longrightarrow> connected_mode w st s')"
    using keeps_fw_apply [OF a] modes_of_same(2) by (auto simp: keeps_def)
qed

lemma connecting_mode_set:
  assumes "connecting_set_firewall_policy w (cg_params st) (cg_metadata st) (cg_traffic st) s = (s', r)"
  shows "keeps s s'" "is_ok r \<Longrightarrow> connecting_mode w st s'"
  using keeps_policies(2) [OF assms] modes_of_same(1) by (auto simp: keeps_def)

lemma connected_set_dns_frame:
  assumes "connected_set_dns w st s = (s', b)"
  shows "connected_mode w st' s' = connected_mode w st' s"
  using assms by (auto simp: connected_set_dns_def dns_set_def)

lemma keeps_calls:
  "connected_set_dns w st s = (s', b) \<Longrightarrow> keeps s s'"
  "refusal_block_reason w s = (s', cause) \<Longrightarrow> keeps s s'"
  "note_reconnect w s = (s', flapping) \<Longrightarrow> keeps s s'"
  by (auto simp: connected_set_dns_def dns_set_def refusal_block_reason_def note_reconnect_def Let_def
      split: prod.splits if_splits)

lemma keeps_coherent:
  assumes "keeps s s'"
  shows "settings_ok s' = settings_ok s" "started params s' = started params s"
  using assms by (auto simp: keeps_def same_settings_def settings_ok_def started_def sv_include_only_def)

section \<open>Entering\<close>

fun entry_coherent :: "world \<Rightarrow> entered \<Rightarrow> bool" where
  "entry_coherent w (s, st, t) = coherent w st s"

lemma error_enter_coherent: "settings_ok s \<Longrightarrow> entry_coherent w (error_enter w cause s)"
  by (auto simp: error_enter_def coherent_def keeps_coherent(1) split: prod.split dest!: keeps_policies(1))

lemma disconnecting_enter_coherent: "settings_ok s \<Longrightarrow> entry_coherent w (disconnecting_enter after s)"
  using keeps_coherent(1) [of s "emit SendClose s"] by (simp add: disconnecting_enter_def coherent_def)

lemma fw_reset_lifts:
  assumes "fw_reset w s = (s', r)"
  shows "same_settings s s'" "is_ok r \<Longrightarrow> linux_lifted (sv_table s') (sv_kernel s')"
    "sv_log s' = FwReset (is_ok r) # sv_log s"
proof -
  obtain k where k: "reset_policy (sv_table s) (wa_fw (answer w s)) (sv_kernel s) = (k, r)"
    and s': "s' = emit (FwReset (is_ok r)) (tick s\<lparr>sv_kernel := k\<rparr>)"
    using assms by (auto simp: fw_reset_def split: prod.splits)
  show "is_ok r \<Longrightarrow> linux_lifted (sv_table s') (sv_kernel s')"
    using linux_fw.reset_ok [of "sv_table s" "(wa_fw (answer w s), sv_firewall s)"] k
    by (cases r) (simp_all add: s')
  show "same_settings s s'" "sv_log s' = FwReset (is_ok r) # sv_log s" by (simp_all add: s')
qed

lemma fw_apply_log: "fw_apply w policy s = (s', r) \<Longrightarrow> sv_log s' = FwApply policy (is_ok r) # sv_log s"
  by (auto simp: fw_apply_def split: prod.splits)

lemma same_settings_ok: "same_settings s s' \<Longrightarrow> settings_ok s' = settings_ok s"
  by (simp add: same_settings_def settings_ok_def sv_include_only_def)

lemma lockdown_guard_apply:
  assumes "fw_apply w (sv_blocked_policy s) s = (s', r)" "lockdown_bool (sv_lockdown_mode s)"
  shows "lockdown_guard s'"
proof -
  note force = fw_apply_force [OF assms(1)]
  have "sv_blocked_policy s' = sv_blocked_policy s" "sv_lockdown_mode s' = sv_lockdown_mode s"
    using policies_same_settings(1) [OF force(1)] force(1) by (simp_all add: same_settings_def)
  with force(3) fw_apply_log [OF assms(1)] assms(2) show ?thesis by (simp add: lockdown_guard_def)
qed

lemma lockdown_guard_reset:
  assumes "fw_reset w s = (s', r)" "\<not> lockdown_bool (sv_lockdown_mode s)"
  shows "lockdown_guard s'"
  using fw_reset_lifts [OF assms(1)] assms(2) by (auto simp: lockdown_guard_def same_settings_def)

text \<open>
  Setting the policy of the disconnected state: with the lockdown armed or a reset asked for it calls
  the firewall; otherwise the guard must hold already.
\<close>

lemma disconnected_policy_coherent:
  assumes "settings_ok s" "lockdown_bool (sv_lockdown_mode s) \<or> should_reset \<or> lockdown_guard s"
  shows "coherent w StDisconnected (disconnected_set_firewall_policy w should_reset s)"
proof -
  obtain s1 r1 where a: "fw_apply w (sv_blocked_policy s) s = (s1, r1)"
    by (cases "fw_apply w (sv_blocked_policy s) s")
  obtain s2 r2 where r: "fw_reset w s = (s2, r2)" by (cases "fw_reset w s")
  have "settings_ok s1" "settings_ok s2"
    using assms(1) same_settings_ok [OF fw_apply_force(1) [OF a]] same_settings_ok [OF fw_reset_lifts(1) [OF r]]
    by simp_all
  with assms lockdown_guard_apply [OF a] lockdown_guard_reset [OF r] show ?thesis
    using a r by (auto simp: disconnected_set_firewall_policy_def coherent_def sv_blocked_policy_def blocked_policy_def)
qed

lemma lockdown_guard_cong:
  assumes "same_settings s s'" "sv_kernel s' = sv_kernel s"
    "last_firewall_call (sv_log s') = last_firewall_call (sv_log s)"
  shows "lockdown_guard s' = lockdown_guard s"
  using assms policies_same_settings(1) [OF assms(1)] by (simp add: lockdown_guard_def in_force_def same_settings_def)

lemma lockdown_guard_emit [simp]: "\<not> firewall_call e \<Longrightarrow> lockdown_guard (emit e s) = lockdown_guard s"
  by (rule lockdown_guard_cong) simp_all

lemma coherent_emit [simp]: "\<not> firewall_call e \<Longrightarrow> start_of e = None \<Longrightarrow> coherent w st (emit e s) = coherent w st s"
  using keeps_coherent [of s "emit e s"] by (cases st) (simp_all add: coherent_def)

lemma lockdown_guard_check [simp]: "lockdown_guard (reset_connectivity_check w s) = lockdown_guard s"
  by (rule lockdown_guard_cong) (simp_all add: reset_connectivity_check_def Let_def split: option.split)

lemma settings_ok_keeps [simp]:
  "settings_ok (emit e s) = settings_ok s" "settings_ok (tick s) = settings_ok s"
  "settings_ok (reset_connectivity_check w s) = settings_ok s" "settings_ok (reset_routes s) = settings_ok s"
  "settings_ok (reset_dns s) = settings_ok s" "settings_ok (reset_flaps s) = settings_ok s"
  "settings_ok (connected_teardown s) = settings_ok s"
  "settings_ok (s\<lparr>sv_refusals := run\<rparr>) = settings_ok s"
  "settings_ok (s\<lparr>sv_connectivity := conn\<rparr>) = settings_ok s"
  "settings_ok (s\<lparr>sv_allowed_endpoint := ep\<rparr>) = settings_ok s"
  "settings_ok (set_lockdown_mode s m) = settings_ok s"
  by (simp_all add: same_settings_ok [of s "reset_connectivity_check w s"])
     (simp_all add: settings_ok_def sv_include_only_def reset_routes_def reset_dns_def reset_flaps_def
      connected_teardown_def set_lockdown_mode_def)

lemma disconnected_enter_coherent:
  assumes "settings_ok s" "lockdown_bool (sv_lockdown_mode s) \<or> reset \<or> lockdown_guard s"
  shows "entry_coherent w (disconnected_enter w reset s)"
  using disconnected_policy_coherent [of "emit ForceRouteCleanup s" reset w] assms
  by (auto simp: disconnected_enter_def Let_def coherent_def)

lemma connecting_dial_coherent:
  assumes "settings_ok s"
  shows "entry_coherent w (connecting_dial w retry s)"
proof (cases "wa_params (answer w s) retry")
  case (Inl e)
  with assms show ?thesis by (simp add: connecting_dial_def error_enter_coherent)
next
  case (Inr params)
  let ?p = "params\<lparr>wp_include_only := sv_include_only (tick s),
     wp_lan_networks := Some (lan_routes_subscribe (sv_lan_routes s))\<rparr>"
  obtain s' r where p: "connecting_set_firewall_policy w (from_params ?p) None TrafficNone (tick s) = (s', r)"
    by (cases "connecting_set_firewall_policy w (from_params ?p) None TrafficNone (tick s)")
  note keep = keeps_policies(2) [OF p]
  have ok: "settings_ok s'" "sv_include_only s' = sv_include_only (tick s)"
    using keep assms keeps_coherent(1) [of "tick s" s'] by (simp_all add: keeps_def same_settings_def sv_include_only_def)
  show ?thesis
  proof (cases r)
    case (Inl e)
    with Inr p ok show ?thesis by (simp add: connecting_dial_def Let_def error_enter_coherent)
  next
    case r: (Inr u)
    let ?st = "\<lparr>cg_params = from_params ?p, cg_metadata = None, cg_traffic = TrafficNone, cg_retry_attempt = retry\<rparr>"
    have "connecting_mode w ?st s'"
      using connecting_mode_set(2) [of w ?st "tick s" s' r] p r by simp
    with Inr p r ok show ?thesis
      by (simp add: connecting_dial_def Let_def start_tunnel_warren_def coherent_def started_def)
         (simp add: sv_include_only_def)
  qed
qed

lemma connecting_enter_coherent:
  assumes "settings_ok s"
  shows "entry_coherent w (connecting_enter w retry s)"
proof -
  obtain s1 cause where r: "refusal_block_reason w s = (s1, cause)" by (cases "refusal_block_reason w s")
  have "settings_ok s1" using assms keeps_coherent(1) [OF keeps_calls(2) [OF r]] by simp
  with r assms show ?thesis
    by (simp add: connecting_enter_def connecting_dial_coherent error_enter_coherent split: option.split)
qed

lemma connected_enter_coherent:
  assumes "settings_ok s" "started params s"
  shows "entry_coherent w (connected_enter w metadata params s)"
proof -
  have core: "entry_coherent w (case connected_set_firewall_policy w st s0 of
        (s2, Inl error) \<Rightarrow> disconnecting_enter (AfterBlock (SetFirewallPolicyError error)) s2
      | (s2, Inr _) \<Rightarrow>
          (case connected_set_dns w st s2 of
             (s3, False) \<Rightarrow> disconnecting_enter (AfterBlock SetDnsError) s3
           | (s3, True) \<Rightarrow> (s3, StConnected st, TrConnected endpoint)))"
    if "keeps s s0" "cd_params st = params" for st s0 endpoint
  proof -
    obtain s2 r where p: "connected_set_firewall_policy w st s0 = (s2, r)"
      by (cases "connected_set_firewall_policy w st s0")
    obtain s3 b where d: "connected_set_dns w st s2 = (s3, b)" by (cases "connected_set_dns w st s2")
    have k2: "keeps s s2" and f: "is_ok r \<Longrightarrow> connected_mode w st s2"
      using that(1) keeps_policies(3) [OF p] keeps_trans by blast+
    have k3: "keeps s s3" and f3: "is_ok r \<Longrightarrow> connected_mode w st s3"
      using k2 f keeps_calls(1) [OF d] keeps_trans connected_set_dns_frame [OF d] by blast+
    from keeps_coherent(1,2) [OF k2] keeps_coherent(1,2) [OF k3] f3 assms that(2) p d show ?thesis
      by (cases r; cases b) (simp_all add: disconnecting_enter_coherent coherent_def)
  qed
  show ?thesis
    using assms by (auto simp: connected_enter_def Let_def core disconnecting_enter_coherent)
qed

section \<open>Handling\<close>

fun result_coherent :: "world \<Rightarrow> shared \<times> consequence \<Rightarrow> bool" where
  "result_coherent w (s, NewState st t) = coherent w st s"
| "result_coherent w (s, SameState st) = coherent w st s"
| "result_coherent w (s, Finished) = coherent w StDisconnected s"
| "result_coherent w (s, Panicked) = True"

lemma result_new_state [simp]: "result_coherent w (new_state e) = entry_coherent w e"
  by (cases e) (simp add: new_state_def)

lemma result_acked [simp]: "result_coherent w (acked r) = result_coherent w r"
  by (cases r; cases "snd r") (simp_all add: acked_def)

lemma set_split_apps_ok:
  assumes "set_split_apps s apps = (s1, changed)" "settings_ok s"
  shows "settings_ok s1" "\<not> changed \<Longrightarrow> s1 = s"
proof -
  let ?mode = "enforceable_mode (sa_mode apps) (can_include (sv_firewall s))"
  have s1: "s1 = s\<lparr>sv_split_mode := ?mode, sv_firewall := set_include_only (sv_firewall s) (?mode = IncludeOnly)\<rparr>"
    and changed: "changed \<longleftrightarrow> sv_split_mode s \<noteq> ?mode"
    using assms(1) by (auto simp: set_split_apps_def Let_def)
  have "?mode = IncludeOnly \<longrightarrow> can_include (sv_firewall s)"
    by (simp add: enforceable_mode_def split: if_splits)
  with assms(2) show "settings_ok s1"
    by (simp add: s1 settings_ok_def sv_include_only_def set_include_only_def can_include_def)
  assume "\<not> changed"
  with changed have m: "?mode = sv_split_mode s" by simp
  have "set_include_only (sv_firewall s) (sv_split_mode s = IncludeOnly) = sv_firewall s"
    using assms(2) by (simp add: settings_ok_def sv_include_only_def set_include_only_def)
  then show "s1 = s" by (simp add: s1 m)
qed

lemma set_allow_lan_ok:
  assumes "set_allow_lan s allow nets = (s1, changed)" "settings_ok s"
  shows "settings_ok s1" "\<not> changed \<Longrightarrow> s1 = s" "sv_log s1 = sv_log s"
    "started params s1 = started params s"
proof -
  have s1: "s1 = fst (set_allow_lan s allow nets)" and changed: "changed = snd (set_allow_lan s allow nets)"
    using assms(1) by simp_all
  show "\<not> changed \<Longrightarrow> s1 = s" "sv_log s1 = sv_log s" "started params s1 = started params s"
    by (simp_all add: s1 changed set_allow_lan_def started_def sv_include_only_def split: if_splits)
  show "settings_ok s1"
    using assms(2)
    by (simp add: s1 set_allow_lan_def settings_ok_def sv_include_only_def lan_routes_update_def Let_def)
qed

lemma set_dns_config_ok:
  assumes "set_dns_config s servers = (s1, changed)"
  shows "settings_ok s1 = settings_ok s" "started params s1 = started params s"
    "connecting_mode w st s1 = connecting_mode w st s" "lockdown_guard s1 = lockdown_guard s"
    "\<not> changed \<Longrightarrow> s1 = s"
proof -
  show "\<not> changed \<Longrightarrow> s1 = s" using assms by (auto simp: set_dns_config_def split: if_splits)
  have s1: "s1 = fst (set_dns_config s servers)" using assms by simp
  show "connecting_mode w st s1 = connecting_mode w st s" by (simp add: s1)
  show "settings_ok s1 = settings_ok s" "started params s1 = started params s" "lockdown_guard s1 = lockdown_guard s"
    by (simp_all add: s1 set_dns_config_def settings_ok_def started_def sv_include_only_def
        lockdown_guard_def sv_blocked_policy_def in_force_def)
qed

lemma started_frame [simp]:
  "started params (s\<lparr>sv_allowed_endpoint := ep\<rparr>) = started params s"
  "started params (s\<lparr>sv_connectivity := conn\<rparr>) = started params s"
  "started params (s\<lparr>sv_refusals := run\<rparr>) = started params s"
  "started params (set_lockdown_mode s m) = started params s"
  "started params (tick s) = started params s"
  "start_of e = None \<Longrightarrow> started params (emit e s) = started params s"
  by (simp_all add: started_def sv_include_only_def set_lockdown_mode_def)

lemma connecting_disconnect_coherent: "settings_ok s \<Longrightarrow> result_coherent w (connecting_disconnect after s)"
  by (simp add: connecting_disconnect_def disconnecting_enter_coherent)

lemma connected_disconnect_coherent: "settings_ok s \<Longrightarrow> result_coherent w (connected_disconnect after s)"
  by (simp add: connected_disconnect_def disconnecting_enter_coherent)

lemma connecting_reset_coherent:
  assumes "settings_ok s" "started (cg_params st) s"
  shows "result_coherent w (connecting_reset_firewall w st s)"
proof -
  obtain s1 r where p: "connecting_set_firewall_policy w (cg_params st) (cg_metadata st) (cg_traffic st) s = (s1, r)"
    by (cases "connecting_set_firewall_policy w (cg_params st) (cg_metadata st) (cg_traffic st) s")
  with connecting_mode_set [OF p] keeps_coherent(1,2) [of s s1] assms show ?thesis
    by (cases r) (simp_all add: connecting_reset_firewall_def connecting_disconnect_coherent coherent_def)
qed

lemma connected_reapply_coherent:
  assumes "settings_ok s" "started (cd_params st) s"
  shows "result_coherent w (connected_reapply w st s)"
proof -
  obtain s1 r where p: "connected_set_firewall_policy w st s = (s1, r)"
    by (cases "connected_set_firewall_policy w st s")
  with keeps_policies(3) [OF p] keeps_coherent(1,2) [of s s1] assms show ?thesis
    by (cases r) (simp_all add: connected_reapply_def connected_disconnect_coherent coherent_def)
qed

lemma connecting_command_coherent:
  assumes "coherent w (StConnecting st) s"
  shows "result_coherent w (connecting_command w st c s)"
proof (cases c)
  case (Some cmd)
  have a: "settings_ok s" "started (cg_params st) s" "connecting_mode w st s"
    using assms by (simp_all add: coherent_def)
  show ?thesis
  proof (cases cmd)
    case (CmdAllowLan allow nets)
    obtain s1 changed where x: "set_allow_lan s allow nets = (s1, changed)" by (cases "set_allow_lan s allow nets")
    note ok = set_allow_lan_ok [OF x a(1)]
    have "settings_ok s1" "started (cg_params st) s1" using ok(1,4) a by simp_all
    with ok(2) assms show ?thesis
      by (cases changed) (simp_all add: Some CmdAllowLan x connecting_reset_coherent)
  next
    case (CmdAllowEndpoint ep)
    have "result_coherent w (connecting_reset_firewall w st (s\<lparr>sv_allowed_endpoint := ep\<rparr>))"
      using a by (intro connecting_reset_coherent) simp_all
    with assms show ?thesis
      by (auto simp: Some CmdAllowEndpoint connecting_reset_firewall_def connecting_disconnect_def
          disconnecting_enter_def coherent_def split: prod.splits sum.splits)
  next
    case (CmdDns servers)
    obtain s1 changed where x: "set_dns_config s servers = (s1, changed)" by (cases "set_dns_config s servers")
    with set_dns_config_ok [OF x] a show ?thesis by (simp add: Some CmdDns coherent_def)
  next
    case (CmdSetSplitApps apps)
    obtain s1 changed where x: "set_split_apps s apps = (s1, changed)" by (cases "set_split_apps s apps")
    with set_split_apps_ok [OF x a(1)] assms show ?thesis
      by (cases changed) (simp_all add: Some CmdSetSplitApps connecting_disconnect_coherent)
  qed (use a in \<open>simp_all add: Some Let_def coherent_def connecting_disconnect_coherent connecting_reset_coherent\<close>)
qed (use assms in \<open>simp add: coherent_def connecting_disconnect_coherent\<close>)

lemma connecting_event_coherent:
  assumes "coherent w (StConnecting st) s"
  shows "result_coherent w (connecting_tunnel_event w st e s)"
proof (cases e)
  case (Some ev)
  have a: "settings_ok s" "started (cg_params st) s" "connecting_mode w st s"
    using assms by (simp_all add: coherent_def)
  show ?thesis
  proof (cases ev)
    case (EvInterfaceUp m t)
    have "result_coherent w (connecting_reset_firewall w (st\<lparr>cg_traffic := t, cg_metadata := Some m\<rparr>) s)"
      using a by (intro connecting_reset_coherent) simp_all
    with Some EvInterfaceUp show ?thesis by (simp add: connecting_reset_firewall_def Let_def)
  qed (use a in \<open>simp_all add: Some coherent_def connecting_disconnect_coherent connected_enter_coherent connecting_mode_down\<close>)
qed (use assms in \<open>simp add: coherent_def connecting_disconnect_coherent\<close>)

lemma closes_coherent:
  assumes "settings_ok s"
  shows "result_coherent w (connecting_close w st reason s)" "result_coherent w (connected_close w reason s)"
proof -
  obtain s1 flapping where n: "note_reconnect w s = (s1, flapping)" by (cases "note_reconnect w s")
  have "settings_ok s1" using assms keeps_coherent(1) [OF keeps_calls(3) [OF n]] by simp
  with assms n show "result_coherent w (connecting_close w st reason s)" "result_coherent w (connected_close w reason s)"
    by (auto simp: connecting_close_def connected_close_def error_enter_coherent connecting_enter_coherent
        split: option.split bool.split)
qed

lemma connected_command_coherent:
  assumes "coherent w (StConnected st) s"
  shows "result_coherent w (connected_command w st c s)"
proof (cases c)
  case (Some cmd)
  have a: "settings_ok s" "started (cd_params st) s" "connected_mode w st s"
    using assms by (simp_all add: coherent_def)
  show ?thesis
  proof (cases cmd)
    case (CmdAllowLan allow nets)
    obtain s1 changed where x: "set_allow_lan s allow nets = (s1, changed)" by (cases "set_allow_lan s allow nets")
    note ok = set_allow_lan_ok [OF x a(1)]
    have "settings_ok s1" "started (cd_params st) s1" using ok(1,4) a by simp_all
    with ok(2) assms show ?thesis
      by (cases changed) (simp_all add: Some CmdAllowLan x connected_reapply_coherent)
  next
    case (CmdDns servers)
    obtain s1 changed where x: "set_dns_config s servers = (s1, changed)" by (cases "set_dns_config s servers")
    obtain s2 r where p: "connected_set_firewall_policy w st s1 = (s2, r)"
      by (cases "connected_set_firewall_policy w st s1")
    obtain s3 b where d: "connected_set_dns w st s2 = (s3, b)" by (cases "connected_set_dns w st s2")
    have k2: "settings_ok s2" "started (cd_params st) s2" "is_ok r \<longrightarrow> connected_mode w st s2"
      using set_dns_config_ok [OF x] a keeps_policies(3) [OF p] keeps_coherent(1,2) [of s1 s2] by simp_all
    have k3: "settings_ok s3" "started (cd_params st) s3" "is_ok r \<longrightarrow> connected_mode w st s3"
      using k2 keeps_coherent [OF keeps_calls(1) [OF d]] connected_set_dns_frame [OF d] by simp_all
    show ?thesis
      using set_dns_config_ok(1,2,5) [OF x] a k2 k3
      by (cases changed; cases r; cases b)
         (simp_all add: Some CmdDns x p d connected_disconnect_coherent coherent_def)
  next
    case (CmdSetSplitApps apps)
    obtain s1 changed where x: "set_split_apps s apps = (s1, changed)" by (cases "set_split_apps s apps")
    with set_split_apps_ok [OF x a(1)] assms show ?thesis
      by (cases changed) (simp_all add: Some CmdSetSplitApps connected_disconnect_coherent)
  next
    case (CmdConnectivity conn)
    with a show ?thesis
      by (auto simp: Some Let_def coherent_def connected_disconnect_coherent split: GraceAction.split)
  qed (use a in \<open>simp_all add: Some coherent_def connected_disconnect_coherent connected_reapply_coherent\<close>)
qed (use assms in \<open>simp add: coherent_def connected_disconnect_coherent\<close>)

lemma connected_event_coherent:
  assumes "coherent w (StConnected st) s"
  shows "result_coherent w (connected_tunnel_event w st e s)"
proof (cases e)
  case (Some ev)
  with assms show ?thesis
    by (cases ev) (simp_all add: Let_def coherent_def connected_disconnect_coherent connected_reapply_coherent)
qed (use assms in \<open>simp add: coherent_def connected_disconnect_coherent\<close>)

lemma lockdown_guard_frame:
  "lockdown_guard (s\<lparr>sv_connectivity := conn\<rparr>) = lockdown_guard s"
  "\<not> lockdown_bool (sv_lockdown_mode s) \<Longrightarrow> lockdown_guard (s\<lparr>sv_allowed_endpoint := ep\<rparr>) = lockdown_guard s"
  "\<not> lockdown_bool (sv_lockdown_mode s) \<Longrightarrow>
     lockdown_guard (fst (set_allow_lan s allow nets)) = lockdown_guard s"
  "\<not> lockdown_bool (sv_lockdown_mode s) \<Longrightarrow> lockdown_guard (fst (set_split_apps s apps)) = lockdown_guard s"
  "lockdown_eq (sv_lockdown_mode s) m \<Longrightarrow> lockdown_guard (set_lockdown_mode s m) = lockdown_guard s"
  by (simp_all add: lockdown_guard_def sv_blocked_policy_def in_force_def set_allow_lan_def set_split_apps_def
      set_lockdown_mode_def lockdown_eq_def Let_def)

lemma lockdown_modes:
  "sv_lockdown_mode (fst (set_allow_lan s allow nets)) = sv_lockdown_mode s"
  "sv_lockdown_mode (fst (set_split_apps s apps)) = sv_lockdown_mode s"
  by (simp_all add: set_allow_lan_def set_split_apps_def Let_def)

lemma disconnected_command_coherent:
  assumes "coherent w StDisconnected s"
  shows "result_coherent w (disconnected_command w c s)"
proof (cases c)
  case None
  with assms show ?thesis by (simp add: reset_dns_def)
next
  case (Some cmd)
  have a: "settings_ok s" "lockdown_guard s" using assms by (simp_all add: coherent_def)
  show ?thesis
  proof (cases cmd)
    case (CmdAllowLan allow nets)
    obtain s1 changed where x: "set_allow_lan s allow nets = (s1, changed)" by (cases "set_allow_lan s allow nets")
    note ok = set_allow_lan_ok [OF x a(1)]
    have "lockdown_bool (sv_lockdown_mode s1) \<or> lockdown_guard s1"
      using a(2) lockdown_guard_frame(3) [of s allow nets] lockdown_modes(1) [of s allow nets] x by auto
    with ok(1,2) assms disconnected_policy_coherent [of s1 False w] show ?thesis
      by (cases changed) (auto simp: Some CmdAllowLan x)
  next
    case (CmdAllowEndpoint ep)
    have "lockdown_bool (sv_lockdown_mode s) \<or> lockdown_guard (s\<lparr>sv_allowed_endpoint := ep\<rparr>)"
      using a(2) lockdown_guard_frame(2) [of s ep] by blast
    with a assms disconnected_policy_coherent [of "s\<lparr>sv_allowed_endpoint := ep\<rparr>" False w] show ?thesis
      by (auto simp: Some CmdAllowEndpoint)
  next
    case (CmdSetSplitApps apps)
    obtain s1 changed where x: "set_split_apps s apps = (s1, changed)" by (cases "set_split_apps s apps")
    note ok = set_split_apps_ok [OF x a(1)]
    have "lockdown_bool (sv_lockdown_mode s1) \<or> lockdown_guard s1"
      using a(2) lockdown_guard_frame(4) [of s apps] lockdown_modes(2) [of s apps] x by auto
    with ok assms disconnected_policy_coherent [of s1 False w] show ?thesis
      by (cases changed) (auto simp: Some CmdSetSplitApps x)
  next
    case (CmdDns servers)
    obtain s1 changed where x: "set_dns_config s servers = (s1, changed)" by (cases "set_dns_config s servers")
    with set_dns_config_ok [OF x] a show ?thesis by (simp add: Some CmdDns coherent_def)
  next
    case (CmdLockdownMode m)
    with a disconnected_policy_coherent [of "set_lockdown_mode s m" True w] lockdown_guard_frame(5) [of s m]
    show ?thesis by (simp add: Some Let_def coherent_def)
  qed (use a in \<open>simp_all add: Some coherent_def lockdown_guard_frame(1) connecting_enter_coherent\<close>)
qed

lemma error_policy_coherent: "settings_ok s \<Longrightarrow> coherent w (StError cause) (fst (error_set_firewall_policy w s))"
  by (cases "error_set_firewall_policy w s") (simp add: coherent_def keeps_coherent(1) [OF keeps_policies(1)])

lemma error_command_coherent:
  assumes "coherent w (StError cause) s"
  shows "result_coherent w (error_command w cause c s)"
proof (cases c)
  case None
  with assms show ?thesis by (simp add: coherent_def disconnected_enter_coherent)
next
  case (Some cmd)
  have a: "settings_ok s" using assms by (simp add: coherent_def)
  show ?thesis
  proof (cases cmd)
    case (CmdAllowLan allow nets)
    obtain s1 changed where x: "set_allow_lan s allow nets = (s1, changed)" by (cases "set_allow_lan s allow nets")
    with set_allow_lan_ok(1) [OF x a] show ?thesis
      by (auto simp: Some CmdAllowLan error_policy_coherent) (simp add: coherent_def)
  next
    case (CmdDns servers)
    obtain s1 changed where x: "set_dns_config s servers = (s1, changed)" by (cases "set_dns_config s servers")
    with set_dns_config_ok(1) [OF x] a show ?thesis
      by (auto simp: Some CmdDns error_policy_coherent) (simp add: coherent_def)
  next
    case (CmdSetSplitApps apps)
    obtain s1 changed where x: "set_split_apps s apps = (s1, changed)" by (cases "set_split_apps s apps")
    with set_split_apps_ok(1) [OF x a] show ?thesis
      by (auto simp: Some CmdSetSplitApps error_policy_coherent) (simp add: coherent_def)
  qed (use a assms in \<open>simp_all add: Some Let_def error_policy_coherent connecting_enter_coherent
      disconnected_enter_coherent error_enter_coherent\<close>, simp_all add: coherent_def)
qed

lemma disconnecting_handle_coherent:
  assumes "settings_ok s"
  shows "result_coherent w (disconnecting_handle w after r s)"
proof (cases r)
  case (RCommand c)
  have "settings_ok (fst (disconnecting_command after c s))"
  proof (cases "(after, c, s)" rule: disconnecting_command.cases)
    case (1 a allow nets s)
    with assms set_allow_lan_ok(1) [of s allow nets] show ?thesis by (cases "set_allow_lan s allow nets") simp
  next
    case (3 a servers s)
    with assms set_dns_config_ok(1) [of s servers] show ?thesis by (cases "set_dns_config s servers") simp
  next
    case (11 a apps s)
    with assms set_split_apps_ok(1) [of s apps] show ?thesis by (cases "set_split_apps s apps") simp
  qed (use assms in simp_all)
  with RCommand show ?thesis by (cases "disconnecting_command after c s") (simp add: coherent_def)
next
  case (RClose c)
  with assms show ?thesis
    by (simp add: after_disconnect_def error_enter_coherent disconnected_enter_coherent connecting_enter_coherent
        split: option.split AfterDisconnect.split)
qed simp_all

lemma handle_event_coherent:
  assumes "coherent w st s"
  shows "result_coherent w (handle_event w st r s)"
proof (cases st)
  case StDisconnected
  with assms show ?thesis by (cases r) (simp_all add: disconnected_command_coherent)
next
  case (StError cause)
  with assms show ?thesis by (cases r) (simp_all add: error_command_coherent)
next
  case (StDisconnecting after)
  with assms show ?thesis by (simp add: coherent_def disconnecting_handle_coherent)
next
  case (StConnecting c)
  with assms closes_coherent(1) [of s] show ?thesis
    by (cases r) (simp_all add: connecting_command_coherent connecting_event_coherent coherent_def)
next
  case (StConnected c)
  with assms closes_coherent(2) [of s] show ?thesis
    by (cases r)
       (simp_all add: connected_command_coherent connected_event_coherent connected_disconnect_coherent,
        simp_all add: coherent_def connected_disconnect_coherent)
qed

section \<open>Runs\<close>

fun machine_coherent :: "world \<Rightarrow> machine \<Rightarrow> bool" where
  "machine_coherent w (MRunning st s ts) = coherent w st s"
| "machine_coherent w _ = True"

lemma initial_settings_ok: "settings_ok (initial_shared table k ids settings conn)"
  by (simp add: initial_shared_def initial_firewall_def Let_def settings_ok_def sv_include_only_def lan_routes_new_def
      set_include_only_def fw_from_args_def fw_new_def can_include_def enforceable_mode_def)

lemma machine_new_coherent:
  assumes "settings_ok s" "sv_log s = []"
  shows "machine_coherent w (machine_new w settings s)"
proof -
  have "lockdown_bool (sv_lockdown_mode s) \<or> lockdown_guard s"
    using assms(2) by (simp add: lockdown_guard_def)
  with error_enter_coherent [OF assms(1)] disconnected_enter_coherent [OF assms(1), of "in_reset_firewall settings" w]
  show ?thesis
    by (auto simp: machine_new_def split: option.split prod.splits) (metis entry_coherent.simps)+
qed

lemma step_coherent:
  assumes "step w m l m'" "machine_coherent w m"
  shows "machine_coherent w m'"
  using assms
proof (cases rule: step.cases)
  case (handle st r s ts listening)
  then have "result_coherent w (handle_event w st r s)" using assms(2) handle_event_coherent by simp
  with handle show ?thesis
    by (auto simp: machine_step_def split: prod.splits consequence.splits)
next
  case (thread st s ts rejection now)
  have "coherent w st (s\<lparr>sv_refusals := run\<rparr>) = coherent w st s" for run
    by (cases st) (simp_all add: coherent_def lockdown_guard_def sv_blocked_policy_def in_force_def)
  with thread assms(2) show ?thesis by simp
qed

lemma steps_coherent:
  assumes "steps w (machine_new w settings s) ls m" "settings_ok s" "sv_log s = []"
  shows "machine_coherent w m"
  using assms(1) machine_new_coherent [OF assms(2,3)] step_coherent by (rule steps_invariant)

end
