(* ===== verification/Tunnel_Life.thy ===== *)
theory Tunnel_Life
  imports Tunnel_Machine
begin

text \<open>
  The life of the tunnels in a run: how many were started and how often the routes were cleared,
  read off the log of effects, against the closes the machine was told of.
\<close>

fun is_start :: "effect \<Rightarrow> bool" where
  "is_start (StartTunnel _ _) = True"
| "is_start _ = False"

definition starts :: "shared \<Rightarrow> nat" where
  "starts s = length (filter is_start (sv_log s))"

definition clears :: "shared \<Rightarrow> nat" where
  "clears s = count_list (sv_log s) ClearRoutes"

text \<open>The states that hold a tunnel which has not closed yet.\<close>

fun owns :: "tunnel_state \<Rightarrow> nat" where
  "owns (StConnecting _) = 1"
| "owns (StConnected _) = 1"
| "owns (StDisconnecting _) = 1"
| "owns _ = 0"

lemma starts_emit [simp]:
  "starts (emit e s) = (if is_start e then Suc (starts s) else starts s)"
  "clears (emit e s) = (if e = ClearRoutes then Suc (clears s) else clears s)"
  by (simp_all add: starts_def clears_def)

lemma counts_log: "sv_log s' = sv_log s \<Longrightarrow> starts s' = starts s" "sv_log s' = sv_log s \<Longrightarrow> clears s' = clears s"
  by (simp_all add: starts_def clears_def)

lemma counts_updates [simp]:
  "starts (tick s) = starts s" "clears (tick s) = clears s"
  "starts (s\<lparr>sv_kernel := k\<rparr>) = starts s" "clears (s\<lparr>sv_kernel := k\<rparr>) = clears s"
  "starts (s\<lparr>sv_refusals := run\<rparr>) = starts s" "clears (s\<lparr>sv_refusals := run\<rparr>) = clears s"
  "starts (s\<lparr>sv_allowed_endpoint := ep\<rparr>) = starts s" "clears (s\<lparr>sv_allowed_endpoint := ep\<rparr>) = clears s"
  "starts (s\<lparr>sv_connectivity := c\<rparr>) = starts s" "clears (s\<lparr>sv_connectivity := c\<rparr>) = clears s"
  "starts (s\<lparr>sv_recent_reconnects := l\<rparr>) = starts s" "clears (s\<lparr>sv_recent_reconnects := l\<rparr>) = clears s"
  "starts (s\<lparr>sv_connectivity_check_was_enabled := b\<rparr>) = starts s"
  "clears (s\<lparr>sv_connectivity_check_was_enabled := b\<rparr>) = clears s"
  "starts (set_lockdown_mode s m) = starts s" "clears (set_lockdown_mode s m) = clears s"
  "starts (fst (set_allow_lan s a n)) = starts s" "clears (fst (set_allow_lan s a n)) = clears s"
  "starts (fst (set_dns_config s d)) = starts s" "clears (fst (set_dns_config s d)) = clears s"
  "starts (fst (set_split_apps s apps)) = starts s" "clears (fst (set_split_apps s apps)) = clears s"
  by (simp_all add: starts_def clears_def set_lockdown_mode_def set_allow_lan_def set_dns_config_def
      set_split_apps_def Let_def)

lemma counts_calls [simp]:
  "starts (fst (fw_apply w p s)) = starts s" "clears (fst (fw_apply w p s)) = clears s"
  "starts (fst (fw_reset w s)) = starts s" "clears (fst (fw_reset w s)) = clears s"
  "starts (fst (dns_set w i c s)) = starts s" "clears (fst (dns_set w i c s)) = clears s"
  "starts (disable_connectivity_check w s) = starts s" "clears (disable_connectivity_check w s) = clears s"
  "starts (reset_connectivity_check w s) = starts s" "clears (reset_connectivity_check w s) = clears s"
  "starts (reset_routes s) = starts s" "clears (reset_routes s) = Suc (clears s)"
  "starts (reset_dns s) = starts s" "clears (reset_dns s) = clears s"
  "starts (reset_flaps s) = starts s" "clears (reset_flaps s) = clears s"
  "starts (fst (note_reconnect w s)) = starts s" "clears (fst (note_reconnect w s)) = clears s"
  by (simp_all add: fw_apply_def fw_reset_def dns_set_def disable_connectivity_check_def
      reset_connectivity_check_def reset_routes_def reset_dns_def reset_flaps_def note_reconnect_def Let_def
      split: prod.split option.split)

lemma policies_apply:
  "fst (error_set_firewall_policy w s) = fst (fw_apply w (sv_blocked_policy s) (disable_connectivity_check w s))"
  "fst (connecting_set_firewall_policy w a m t s) =
     fst (fw_apply w (connecting_policy (disable_connectivity_check w s) a m t) (disable_connectivity_check w s))"
  "fst (connected_set_firewall_policy w st s) = fst (fw_apply w (get_firewall_policy st s) s)"
  by (simp_all add: error_set_firewall_policy_def connecting_set_firewall_policy_def
      connected_set_firewall_policy_def Let_def split: prod.split sum.split)

lemma counts_policies [simp]:
  "starts (fst (error_set_firewall_policy w s)) = starts s" "clears (fst (error_set_firewall_policy w s)) = clears s"
  "starts (fst (connecting_set_firewall_policy w a m t s)) = starts s"
  "clears (fst (connecting_set_firewall_policy w a m t s)) = clears s"
  "starts (fst (connected_set_firewall_policy w st s)) = starts s"
  "clears (fst (connected_set_firewall_policy w st s)) = clears s"
  "starts (disconnected_set_firewall_policy w b s) = starts s"
  "clears (disconnected_set_firewall_policy w b s) = clears s"
  "starts (fst (connected_set_dns w st s)) = starts s" "clears (fst (connected_set_dns w st s)) = clears s"
  "starts (fst (refusal_block_reason w s)) = starts s" "clears (fst (refusal_block_reason w s)) = clears s"
  by (simp_all add: policies_apply disconnected_set_firewall_policy_def connected_set_dns_def
      refusal_block_reason_def Let_def split: prod.split)

lemma counts_of:
  "error_set_firewall_policy w s = (s', r) \<Longrightarrow> starts s' = starts s \<and> clears s' = clears s"
  "connecting_set_firewall_policy w a m t s = (s', r) \<Longrightarrow> starts s' = starts s \<and> clears s' = clears s"
  "connected_set_firewall_policy w st s = (s', r) \<Longrightarrow> starts s' = starts s \<and> clears s' = clears s"
  "connected_set_dns w st s = (s', b) \<Longrightarrow> starts s' = starts s \<and> clears s' = clears s"
  "refusal_block_reason w s = (s', c) \<Longrightarrow> starts s' = starts s \<and> clears s' = clears s"
  "set_allow_lan s al n = (s', ch) \<Longrightarrow> starts s' = starts s \<and> clears s' = clears s"
  "set_dns_config s d = (s', ch) \<Longrightarrow> starts s' = starts s \<and> clears s' = clears s"
  "set_split_apps s apps = (s', ch) \<Longrightarrow> starts s' = starts s \<and> clears s' = clears s"
  "note_reconnect w s = (s', fl) \<Longrightarrow> starts s' = starts s \<and> clears s' = clears s"
  by (metis counts_policies counts_calls counts_updates fst_conv)+

section \<open>Entering\<close>

text \<open>Entered with no tunnel left: a tunnel is started exactly when the state entered holds one.\<close>

fun fresh_entry :: "shared \<Rightarrow> entered \<Rightarrow> bool" where
  "fresh_entry s (s', st, t) \<longleftrightarrow> starts s' = starts s + owns st \<and> clears s' = clears s"

text \<open>Entered with a tunnel: the state entered holds it.\<close>

fun kept_entry :: "shared \<Rightarrow> entered \<Rightarrow> bool" where
  "kept_entry s (s', st, t) \<longleftrightarrow> starts s' = starts s \<and> clears s' = clears s \<and> owns st = 1"

lemma error_enter_life: "fresh_entry s (error_enter w cause s)"
  by (auto simp: error_enter_def split: prod.split dest: counts_of(1))

lemma disconnected_enter_life: "fresh_entry s (disconnected_enter w b s)"
  by (simp add: disconnected_enter_def Let_def)

lemma disconnecting_enter_life: "kept_entry s (disconnecting_enter after s)"
  by (simp add: disconnecting_enter_def)

lemma fresh_entry_trans: "starts s0 = starts s \<Longrightarrow> clears s0 = clears s \<Longrightarrow> fresh_entry s0 e = fresh_entry s e"
  by (cases e) simp

lemma kept_entry_trans: "starts s0 = starts s \<Longrightarrow> clears s0 = clears s \<Longrightarrow> kept_entry s0 e = kept_entry s e"
  by (cases e) simp

lemma connecting_dial_life: "fresh_entry s (connecting_dial w retry s)"
proof (cases "wa_params (answer w s) retry")
  case (Inl e)
  then show ?thesis
    using error_enter_life [of "tick s" w] fresh_entry_trans [of "tick s" s] by (simp add: connecting_dial_def)
next
  case (Inr params)
  let ?params = "params\<lparr>wp_include_only := sv_include_only (tick s),
     wp_lan_networks := Some (lan_routes_subscribe (sv_lan_routes s))\<rparr>"
  obtain s' r where p: "connecting_set_firewall_policy w (from_params ?params) None TrafficNone (tick s) = (s', r)"
    by (cases "connecting_set_firewall_policy w (from_params ?params) None TrafficNone (tick s)")
  have c: "starts s' = starts s" "clears s' = clears s"
    using counts_of(2) [OF p] by simp_all
  show ?thesis
    using error_enter_life [of s' w] fresh_entry_trans [OF c] c
    by (cases r) (simp_all add: connecting_dial_def Inr p Let_def start_tunnel_warren_def)
qed

lemma connecting_enter_life: "fresh_entry s (connecting_enter w retry s)"
proof (cases "retry = 0")
  case True
  have c: "starts (s\<lparr>sv_refusals := forget_run\<rparr>) = starts s" "clears (s\<lparr>sv_refusals := forget_run\<rparr>) = clears s"
    by simp_all
  show ?thesis
    using True connecting_dial_life [of "s\<lparr>sv_refusals := forget_run\<rparr>" w retry] fresh_entry_trans [OF c]
    by (simp add: connecting_enter_def)
next
  case False
  obtain s1 cause where r: "refusal_block_reason w s = (s1, cause)" by (cases "refusal_block_reason w s")
  have c: "starts s1 = starts s" "clears s1 = clears s"
    using counts_of(5) [OF r] by simp_all
  show ?thesis
    using False r error_enter_life [of s1 w] connecting_dial_life [of s1 w retry] fresh_entry_trans [OF c]
    by (cases cause) (simp_all add: connecting_enter_def)
qed

lemma connected_enter_life: "kept_entry s (connected_enter w metadata params s)"
proof -
  have core: "kept_entry s (case connected_set_firewall_policy w st s0 of
        (s2, Inl error) \<Rightarrow> disconnecting_enter (AfterBlock (SetFirewallPolicyError error)) s2
      | (s2, Inr _) \<Rightarrow>
          (case connected_set_dns w st s2 of
             (s3, False) \<Rightarrow> disconnecting_enter (AfterBlock SetDnsError) s3
           | (s3, True) \<Rightarrow> (s3, StConnected st, TrConnected endpoint)))"
    if "starts s0 = starts s" "clears s0 = clears s" for st s0 endpoint
  proof -
    obtain s2 r where p: "connected_set_firewall_policy w st s0 = (s2, r)"
      by (cases "connected_set_firewall_policy w st s0")
    obtain s3 b where d: "connected_set_dns w st s2 = (s3, b)" by (cases "connected_set_dns w st s2")
    have c: "starts s2 = starts s" "clears s2 = clears s" "starts s3 = starts s" "clears s3 = clears s"
      using counts_of(3) [OF p] counts_of(4) [OF d] that by simp_all
    then show ?thesis
      by (cases r; cases b) (simp_all add: p d disconnecting_enter_def)
  qed
  show ?thesis
    by (auto simp: connected_enter_def Let_def core disconnecting_enter_life)
qed

section \<open>Handling\<close>

text \<open>
  What a handler may do to the counts: \<open>closed\<close> says whether the event was the close of the tunnel.
\<close>

fun life_ok :: "bool \<Rightarrow> tunnel_state \<Rightarrow> shared \<Rightarrow> shared \<times> consequence \<Rightarrow> bool" where
  "life_ok closed st s (s', NewState st' t) \<longleftrightarrow>
     starts s' + owns st = starts s + owns st' + of_bool closed \<and> clears s' = clears s + of_bool closed"
| "life_ok closed st s (s', SameState st') \<longleftrightarrow>
     starts s' + owns st = starts s + owns st' + of_bool closed \<and> clears s' = clears s + of_bool closed"
| "life_ok closed st s (s', Finished) \<longleftrightarrow> starts s' = starts s \<and> clears s' = clears s \<and> owns st = 0"
| "life_ok closed st s (s', Panicked) \<longleftrightarrow> True"

lemma life_fresh:
  assumes "fresh_entry s0 e" "starts s0 = starts s" "clears s0 = clears s + of_bool closed"
    and "owns st = of_bool closed"
  shows "life_ok closed st s (new_state e)"
  using assms by (cases e) (simp add: new_state_def)

lemma life_kept:
  assumes "kept_entry s0 e" "starts s0 = starts s" "clears s0 = clears s" "owns st = 1"
  shows "life_ok False st s (new_state e)"
  using assms by (cases e) (simp add: new_state_def)

lemma life_acked [simp]: "life_ok closed st s (acked r) = life_ok closed st s r"
  by (cases r; cases "snd r") (simp_all add: acked_def)

lemma connecting_disconnect_life:
  "starts s0 = starts s \<Longrightarrow> clears s0 = clears s \<Longrightarrow> life_ok False (StConnecting st) s (connecting_disconnect after s0)"
  unfolding connecting_disconnect_def by (rule life_kept [OF disconnecting_enter_life]) simp_all

lemma connected_disconnect_life:
  "starts s0 = starts s \<Longrightarrow> clears s0 = clears s \<Longrightarrow> life_ok False (StConnected st) s (connected_disconnect after s0)"
  unfolding connected_disconnect_def by (rule life_kept [OF disconnecting_enter_life]) simp_all

lemma connecting_reset_life:
  "starts s0 = starts s \<Longrightarrow> clears s0 = clears s \<Longrightarrow>
     life_ok False (StConnecting st') s (connecting_reset_firewall w st s0)"
  by (auto simp: connecting_reset_firewall_def connecting_disconnect_life split: prod.split sum.split
      dest!: counts_of)

lemma connected_reapply_life:
  "starts s0 = starts s \<Longrightarrow> clears s0 = clears s \<Longrightarrow> life_ok False (StConnected st') s (connected_reapply w st s0)"
  by (auto simp: connected_reapply_def connected_disconnect_life split: prod.split sum.split dest!: counts_of)

lemma connecting_command_life: "life_ok False (StConnecting st) s (connecting_command w st c s)"
proof (cases c)
  case (Some cmd)
  show ?thesis
  proof (cases cmd)
    case (CmdAllowEndpoint ep)
    have "life_ok False (StConnecting st) s (connecting_reset_firewall w st (s\<lparr>sv_allowed_endpoint := ep\<rparr>))"
      by (rule connecting_reset_life) simp_all
    then show ?thesis
      by (auto simp: Some CmdAllowEndpoint connecting_reset_firewall_def connecting_disconnect_def
          disconnecting_enter_def new_state_def split: prod.splits sum.splits)
  qed (auto simp: Some Let_def connecting_disconnect_life connecting_reset_life
      split: prod.split bool.split dest!: counts_of)
qed (simp add: connecting_disconnect_life)

lemma connecting_event_life: "life_ok False (StConnecting st) s (connecting_tunnel_event w st e s)"
proof (cases e)
  case (Some ev)
  show ?thesis
  proof (cases ev)
    case (EvInterfaceUp m t)
    have "life_ok False (StConnecting st) s
        (connecting_reset_firewall w (st\<lparr>cg_traffic := t, cg_metadata := Some m\<rparr>) s)"
      by (rule connecting_reset_life) simp_all
    with Some EvInterfaceUp show ?thesis by (simp add: connecting_reset_firewall_def Let_def)
  next
    case (EvUp m)
    then show ?thesis by (auto simp: Some intro: life_kept [OF connected_enter_life])
  qed (simp_all add: Some connecting_disconnect_life)
qed (simp add: connecting_disconnect_life)

lemma connected_command_life: "life_ok False (StConnected st) s (connected_command w st c s)"
proof (cases c)
  case (Some cmd)
  show ?thesis
  proof (cases cmd)
    case (CmdConnectivity conn)
    then show ?thesis
      by (auto simp: Some Let_def connected_disconnect_life split: GraceAction.split)
  next
    case (CmdDns servers)
    then show ?thesis
      by (auto simp: Some connected_disconnect_life split: prod.split bool.split sum.split dest!: counts_of)
  qed (auto simp: Some Let_def connected_disconnect_life connected_reapply_life
      split: prod.split bool.split dest!: counts_of)
qed (simp add: connected_disconnect_life)

lemma connected_event_life: "life_ok False (StConnected st) s (connected_tunnel_event w st e s)"
proof (cases e)
  case (Some ev)
  then show ?thesis
    by (cases ev) (simp_all add: Let_def connected_disconnect_life connected_reapply_life)
qed (simp add: connected_disconnect_life)

lemma close_entry_life:
  assumes "starts s0 = starts s" "clears s0 = Suc (clears s)" "owns st = 1"
  shows "life_ok True st s (new_state (error_enter w cause s0))"
    "life_ok True st s (new_state (connecting_enter w retry s0))"
    "life_ok True st s (new_state (disconnected_enter w b s0))"
  using assms
  by (auto intro!: life_fresh [OF error_enter_life] life_fresh [OF connecting_enter_life]
      life_fresh [OF disconnected_enter_life])

lemma connecting_close_life: "life_ok True (StConnecting st) s (connecting_close w st reason s)"
  by (auto simp: connecting_close_def close_entry_life split: option.split prod.split bool.split dest!: counts_of)

lemma connected_close_life: "life_ok True (StConnected st) s (connected_close w reason s)"
  by (auto simp: connected_close_def close_entry_life connected_teardown_def split: option.split prod.split bool.split
      dest!: counts_of)

lemma disconnecting_command_counts:
  "disconnecting_command after c s = (s', after') \<Longrightarrow> starts s' = starts s \<and> clears s' = clears s"
  by (cases "(after, c, s)" rule: disconnecting_command.cases) auto

lemma disconnecting_close_life:
  "life_ok True (StDisconnecting a) s (new_state (after_disconnect w a reason (reset_routes s)))"
  by (auto simp: after_disconnect_def close_entry_life split: option.split AfterDisconnect.split)

lemma disconnected_command_life: "life_ok False StDisconnected s (disconnected_command w c s)"
  by (cases "(w, c, s)" rule: disconnected_command.cases)
     (auto simp: Let_def reset_dns_def intro!: life_fresh [OF connecting_enter_life] split: prod.split dest!: counts_of)

lemma error_command_life: "life_ok False (StError cause) s (error_command w cause c s)"
  by (cases "(w, cause, c, s)" rule: error_command.cases)
     (auto simp: Let_def intro!: life_fresh [OF connecting_enter_life] life_fresh [OF disconnected_enter_life]
       life_fresh [OF error_enter_life] split: prod.split dest!: counts_of)

fun is_close :: "EventResult \<Rightarrow> bool" where
  "is_close (RClose _) = True"
| "is_close _ = False"

lemma handle_event_life: "life_ok (is_close r) st s (handle_event w st r s)"
proof (cases st)
  case StDisconnected
  then show ?thesis by (cases r) (simp_all add: disconnected_command_life)
next
  case (StError cause)
  then show ?thesis by (cases r) (simp_all add: error_command_life)
next
  case (StDisconnecting after)
  then show ?thesis
    by (cases r) (auto simp: disconnecting_close_life split: prod.split dest!: disconnecting_command_counts)
next
  case (StConnecting c)
  then show ?thesis
    by (cases r) (simp_all add: connecting_command_life connecting_event_life connecting_close_life)
next
  case (StConnected c)
  then show ?thesis
    by (cases r) (simp_all add: connected_command_life connected_event_life connected_close_life
        connected_disconnect_life)
qed

section \<open>Runs\<close>

fun is_close_label :: "label \<Rightarrow> bool" where
  "is_close_label (LHandle r) = is_close r"
| "is_close_label (LThread _ _) = False"

definition closes :: "label list \<Rightarrow> nat" where
  "closes ls = length (filter is_close_label ls)"

text \<open>
  What the counts of a running machine are after a run: every tunnel but the one still held has
  closed, and the routes were cleared once for each.
\<close>

fun life_of :: "label list \<Rightarrow> machine \<Rightarrow> bool" where
  "life_of ls (MRunning st s ts) \<longleftrightarrow> starts s = closes ls + owns st \<and> clears s = closes ls"
| "life_of ls _ = True"

lemma machine_new_life:
  assumes "sv_log s = []"
  shows "life_of [] (machine_new w settings s)"
proof -
  have "starts s = 0" "clears s = 0" using assms by (simp_all add: starts_def clears_def)
  with error_enter_life [of s w] disconnected_enter_life [of s w "in_reset_firewall settings"] show ?thesis
    by (auto simp: machine_new_def closes_def error_enter_def disconnected_enter_def Let_def
        split: option.split prod.splits)
qed

lemma step_life:
  assumes "step w m l m'" "life_of ls m"
  shows "life_of (ls @ [l]) m'"
  using assms
proof (cases rule: step.cases)
  case (handle st r s ts listening)
  from handle_event_life [of r st s w] handle assms(2) show ?thesis
    by (auto simp: machine_step_def closes_def split: prod.splits consequence.splits)
qed (auto simp: closes_def)

lemma steps_life:
  assumes "steps w (machine_new w settings s) ls m" "sv_log s = []"
  shows "life_of ls m"
  using assms
  by (induction "machine_new w settings s" ls m rule: steps.induct) (auto simp: machine_new_life intro: step_life)

end
