(* ===== verification/Firewall_Properties.thy ===== *)
theory Firewall_Properties
  imports Firewall_Laws
begin

text \<open>
  The properties of the Linux firewall: what each policy lets out, DNS, include-only, the errors
  of applying a policy, the locked apps and recovery.
\<close>

section \<open>A concrete host\<close>

definition sample_mask :: "IpNetwork \<Rightarrow> nat" where
  "sample_mask net =
     (case net of NetV4 _ p \<Rightarrow> 2 ^ 32 - 2 ^ (32 - unat p) | NetV6 _ p \<Rightarrow> 2 ^ 128 - 2 ^ (128 - unat p))"

definition sample_host :: host where
  "sample_host =
     \<lparr>h_iface_index = (\<lambda>n. if n = ''lo'' then Some 1 else if n = ''wg0'' then Some 7 else None),
      h_net_mask = sample_mask, h_net_contains = (\<lambda>_ _. False), h_interfaces = Some [],
      h_gateway = V4 (ipv4_new 10 64 0 1), h_add_counters = False, h_feature_cgroup2 = True\<rparr>"

definition sample_fw :: Firewall where
  "sample_fw = fw_from_args 0x77 (Some 40) None (Some 41) None"

definition sample_peer :: AllowedEndpoint where
  "sample_peer =
     \<lparr>ae_endpoint = endpoint_new (V4 (ipv4_new 185 1 2 3)) 443 Udp, ae_clients = ClientsRoot\<rparr>"

definition sample_tunnel :: TunnelMetadata where
  "sample_tunnel =
     \<lparr>tm_interface = ''wg0'', tm_ips = [V4 (ipv4_new 10 64 0 7)], tm_ipv4_gateway = ipv4_new 10 64 0 1,
      tm_ipv6_gateway = None, tm_daita_active = False, tm_effective_mtu = None, tm_legs_bonded = 0,
      tm_legs_not_delivering = 0\<rparr>"

definition sample_dns :: ResolvedDnsConfig where
  "sample_dns =
     \<lparr>rd_tunnel_config = [V4 (ipv4_new 10 64 0 1)], rd_non_tunnel_config = [], rd_allow_external_dns = False\<rparr>"

definition sample_blocked :: FirewallPolicy where
  "sample_blocked = Blocked False [] (Some sample_peer)"

definition sample_connected :: FirewallPolicy where
  "sample_connected = Connected [sample_peer] sample_tunnel False [] sample_dns"

text \<open>A packet sent to 8.8.8.8 by an ordinary user through the interface with index \<open>oif\<close>.\<close>

definition sample_packet :: "nat \<Rightarrow> nat \<Rightarrow> nat \<Rightarrow> packet" where
  "sample_packet oif proto dport =
     \<lparr>pk_iif = 0, pk_oif = oif, pk_nfproto = nfproto_ipv4, pk_saddr = 0xc0a80105,
      pk_daddr = 0x08080808, pk_l4proto = proto, pk_sport = 40000, pk_dport = dport,
      pk_icmp_type = 0, pk_icmp_code = 0, pk_ct_state = 8, pk_ct_mark = 0, pk_mark = 0,
      pk_skuid = Some 1000, pk_classid = 0, pk_cgroup = (\<lambda>_. None), pk_masqueraded = False\<rparr>"

lemmas sample_defs = sample_host_def sample_fw_def sample_peer_def sample_tunnel_def sample_dns_def
  sample_blocked_def sample_connected_def sample_packet_def fw_from_args_def fw_new_def

lemma finalize_sample:
  "err_of (finalize sample_host sample_blocked fw) = None"
  "err_of (finalize sample_host sample_connected fw) = None"
  by (simp_all add: err_finalize missing_def missing_opt_def sample_defs)

lemma err_of_None_ex: "err_of r = None \<Longrightarrow> \<exists>a. r = Inr a"
  by (cases r) auto

lemma accept_iff_lets_out:
  assumes "finalize h policy fw = Inr msgs"
  shows "out_verdict msgs p = Accept \<longleftrightarrow> lets_out h policy fw p"
  using out_verdict_finalize [OF assms, of p] by (auto simp: out_cascade_verdict split: if_splits)

lemma is_dns_not_always:
  "is_dns p \<Longrightarrow> \<not> dhcp_request h p" "is_dns p \<Longrightarrow> \<not> ndp_out h p"
  by (auto simp: is_dns_def dhcp_request_def ndp_out_def at_port_def is_icmpv6_def l4proto_def proto_defs
      DHCPV4_SERVER_PORT_def DHCPV6_SERVER_PORT_def)

lemmas packet_tests = on_iface_def off_iface_def pk_if_def dhcp_request_def ndp_out_def excluded_def
  split_active_def to_allowed_def to_peer_def from_root_def at_endpoint_def at_ip_def at_port_def
  pk_addr_def pk_port_def is_icmpv6_def has_ct_mark_def split_tunnel_MARK_def proto_defs l4proto_def
  l3proto_def endpoint_new_def socket_new_def ipv4_new_def ip_nat_def is_dns_def
  DHCPV4_SERVER_PORT_def DHCPV4_CLIENT_PORT_def DHCPV6_SERVER_PORT_def DHCPV6_CLIENT_PORT_def

section \<open>Policies\<close>

text \<open>
  C11. The blocked policy (with the whole host in the tunnel): a packet passes the output chain
  exactly when it stays on loopback, is a DHCP request or neighbour discovery, belongs to an
  excluded app, goes to the allowed endpoint from a client it is open to, or goes to the local
  network while that is shared and is no DNS query.
\<close>

theorem blocked_policy_out:
  assumes "finalize h (Blocked allow_lan nets allowed) fw = Inr msgs" and "\<not> fw_include_only fw"
  shows "out_verdict msgs p = Accept \<longleftrightarrow>
     on_iface h Out ''lo'' p \<or> dhcp_request h p \<or> ndp_out h p \<or> excluded h fw p \<or>
     (\<exists>e. allowed = Some e \<and> to_allowed e p) \<or>
     allow_lan \<and> to_lan h nets p \<and> \<not> is_dns p"
  unfolding accept_iff_lets_out [OF assms(1)]
  using assms(2)
  by (auto simp: lets_out_def always_out_def permits_def named_out_def tunnel_out_def lan_out_def
      split: option.splits)

theorem blocked_policy_out_witness:
  "\<exists>msgs. finalize sample_host sample_blocked sample_fw = Inr msgs \<and>
     out_verdict msgs (sample_packet 2 ipproto_tcp 443) \<noteq> Accept \<and>
     out_verdict msgs (sample_packet 1 ipproto_tcp 443) = Accept"
proof -
  obtain msgs where msgs: "finalize sample_host sample_blocked sample_fw = Inr msgs"
    using err_of_None_ex [OF finalize_sample(1)] by blast
  have "\<not> fw_include_only sample_fw" by (simp add: sample_defs)
  note out = blocked_policy_out [OF msgs [unfolded sample_blocked_def] this]
  show ?thesis
    by (rule exI [of _ msgs], unfold out, intro conjI msgs)
       (simp_all add: sample_defs packet_tests)
qed

text \<open>
  The connected policy: a packet passes the output chain exactly when it stays on loopback, is
  a DHCP request or neighbour discovery, belongs to an excluded app, goes to a peer of the tunnel
  with the tunnel's mark or from root, is a DNS query to an allowed resolver (a tunnel resolver
  inside the tunnel, another one outside it), goes to a tailnet through its own interface, or goes
  into the tunnel or to the shared local network without being a DNS query that is not allowed.
\<close>

theorem connected_policy_out:
  assumes "finalize h (Connected peers tunnel allow_lan nets dns) fw = Inr msgs"
    and "\<not> fw_include_only fw"
  shows "out_verdict msgs p = Accept \<longleftrightarrow>
     on_iface h Out ''lo'' p \<or> dhcp_request h p \<or> ndp_out h p \<or> excluded h fw p \<or>
     (\<exists>e \<in> set peers. to_peer (fw_fwmark fw) e p) \<or>
     (\<exists>s \<in> insert (h_gateway h) (set (rd_tunnel_config dns)).
        on_iface h Out (tm_interface tunnel) p \<and> is_dns p \<and> at_ip Dst s p) \<or>
     (\<exists>s \<in> set (rd_non_tunnel_config dns).
        off_iface h Out (tm_interface tunnel) p \<and> is_dns p \<and> at_ip Dst s p) \<or>
     to_tailnet h (tailnet_interfaces h (Connected peers tunnel allow_lan nets dns)) p \<or>
     (rd_allow_external_dns dns \<or> \<not> is_dns p) \<and>
       (on_iface h Out (tm_interface tunnel) p \<or> allow_lan \<and> to_lan h nets p)"
  unfolding accept_iff_lets_out [OF assms(1)]
  using assms(2)
  by (simp add: lets_out_def always_out_def permits_def named_out_def tunnel_out_def lan_out_def
      set_allowed_tunnel_dns)

theorem connected_policy_out_witness:
  "\<exists>msgs. finalize sample_host sample_connected sample_fw = Inr msgs \<and>
     out_verdict msgs (sample_packet 7 ipproto_tcp 443) = Accept \<and>
     out_verdict msgs (sample_packet 2 ipproto_tcp 443) \<noteq> Accept \<and>
     out_verdict msgs (sample_packet 7 ipproto_udp 53) \<noteq> Accept"
proof -
  obtain msgs where msgs: "finalize sample_host sample_connected sample_fw = Inr msgs"
    using err_of_None_ex [OF finalize_sample(2)] by blast
  have "\<not> fw_include_only sample_fw" by (simp add: sample_defs)
  note out = connected_policy_out [OF msgs [unfolded sample_connected_def] this]
  show ?thesis
    by (rule exI [of _ msgs], unfold out, intro conjI msgs)
       (simp_all add: sample_defs packet_tests to_tailnet_def tailnet_interfaces_def
         current_coexisting_tailnet_interfaces_def coexisting_tailnet_interfaces_def btree_set_def)
qed

text \<open>
  C12. The connecting policy: beside what every policy lets out, a packet passes the output chain
  exactly when it goes to a peer with the tunnel's mark or from root, to the allowed endpoint, to a
  tailnet through its own interface, or is no DNS query and belongs to the tunnel traffic allowed
  so far or goes to the shared local network.
\<close>

theorem connecting_policy_out:
  assumes "finalize h (Connecting peers tunnel allow_lan nets allowed traffic) fw = Inr msgs"
    and "\<not> fw_include_only fw"
  shows "out_verdict msgs p = Accept \<longleftrightarrow>
     on_iface h Out ''lo'' p \<or> dhcp_request h p \<or> ndp_out h p \<or> excluded h fw p \<or>
     (\<exists>e \<in> set peers. to_peer (fw_fwmark fw) e p) \<or> to_allowed allowed p \<or>
     to_tailnet h (tailnet_interfaces h (Connecting peers tunnel allow_lan nets allowed traffic)) p \<or>
     \<not> is_dns p \<and>
       ((\<exists>t. tunnel = Some t \<and> tunnel_traffic h (tm_interface t) traffic p) \<or>
        allow_lan \<and> to_lan h nets p)"
  unfolding accept_iff_lets_out [OF assms(1)]
  using assms(2)
  by (auto simp: lets_out_def always_out_def permits_def named_out_def tunnel_out_def lan_out_def
      split: option.splits)

definition sample_connecting :: FirewallPolicy where
  "sample_connecting = Connecting [sample_peer] (Some sample_tunnel) False [] sample_peer
     (TrafficOne (endpoint_new (V4 (ipv4_new 8 8 8 8)) 443 Tcp))"

theorem connecting_policy_out_witness:
  "\<exists>msgs. finalize sample_host sample_connecting sample_fw = Inr msgs \<and>
     out_verdict msgs (sample_packet 7 ipproto_tcp 443) = Accept \<and>
     out_verdict msgs (sample_packet 7 ipproto_tcp 80) \<noteq> Accept \<and>
     out_verdict msgs (sample_packet 2 ipproto_tcp 443) \<noteq> Accept"
proof -
  have "err_of (finalize sample_host sample_connecting sample_fw) = None"
    by (simp add: err_finalize missing_def missing_opt_def sample_defs sample_connecting_def)
  then obtain msgs where msgs: "finalize sample_host sample_connecting sample_fw = Inr msgs"
    using err_of_None_ex by blast
  have "\<not> fw_include_only sample_fw" by (simp add: sample_defs)
  note out = connecting_policy_out [OF msgs [unfolded sample_connecting_def] this]
  show ?thesis
    by (rule exI [of _ msgs], unfold out, intro conjI msgs)
       (simp_all add: sample_defs packet_tests to_tailnet_def tailnet_interfaces_def
         current_coexisting_tailnet_interfaces_def coexisting_tailnet_interfaces_def btree_set_def)
qed



section \<open>Include-only\<close>

lemma included_egress:
  assumes "finalize h policy fw = Inr msgs" and "fw_include_only fw" and "root_peers policy"
    and "included_socket (fw_included_cgroup2 fw) p"
    and "snd (egress msgs oif p) = Accept"
  shows "h_iface_index h ''lo'' = Some oif \<or>
     (\<exists>t. tunnel_of_connected policy = Some t \<and> h_iface_index h t = Some oif)"
  using assms(1-3) _ assms(5)
proof (rule egress_included_on_tunnel)
  show "included (head_mangle h policy (fw_included_cgroup2 fw) p)"
    unfolding head_mangle_def by (rule fold_mangle_socket [OF head_marks_sockets assms(4)])
qed

text \<open>
  In include-only mode a packet of an included app's socket that passes the chains leaves by
  loopback or, while connected, by the tunnel, whatever interface the routing finally chose for it
  (for peers open to root alone, the only ones the tunnel states ask for).
\<close>

theorem included_app_never_leaks:
  assumes "finalize h policy fw = Inr msgs" and "fw_include_only fw" and "root_peers policy"
    and "included_socket (fw_included_cgroup2 fw) p"
    and "snd (egress msgs oif p) = Accept"
  shows "h_iface_index h ''lo'' = Some oif \<or>
     (\<exists>t. tunnel_of_connected policy = Some t \<and> h_iface_index h t = Some oif)"
  using assms by (rule included_egress)

definition sample_include_fw :: Firewall where
  "sample_include_fw = set_include_only sample_fw True"

definition sample_app_packet :: packet where
  "sample_app_packet = (sample_packet 2 ipproto_tcp 443)\<lparr>pk_cgroup := (\<lambda>level. if level = 1 then Some 41 else None)\<rparr>"

lemma sample_app_egress:
  assumes "finalize sample_host sample_connected sample_include_fw = Inr msgs"
  shows "snd (egress msgs 7 sample_app_packet) = Accept"
proof -
  let ?q = "head_mangle sample_host sample_connected (fw_included_cgroup2 sample_include_fw) sample_app_packet"
  have fw: "fw_include_only sample_include_fw" by (simp add: sample_include_fw_def set_include_only_def)
  have peers: "root_peers sample_connected"
    by (simp add: root_peers_def sample_defs clients_allow_all_def)
  have sock: "included_socket (fw_included_cgroup2 sample_include_fw) sample_app_packet"
    by (simp add: included_socket_def sample_include_fw_def set_include_only_def sample_defs
        sample_app_packet_def)
  have same: "same_but_marks sample_app_packet ?q" and inc: "included ?q"
    unfolding head_mangle_def
    by (rule fold_mangle_marks(1), rule fold_mangle_socket [OF head_marks_sockets sock])
  have "\<not> is_dns ?q"
    unfolding same_but_marks_tests(4) [OF same]
    by (simp add: sample_app_packet_def sample_defs packet_tests)
  then have "out_verdict msgs ?q = Accept"
    using fw inc by (simp add: accept_iff_lets_out [OF assms] lets_out_def sample_connected_def)
  moreover have "\<not> off_tunnel sample_host sample_connected (?q\<lparr>pk_oif := 7\<rparr>)"
    by (simp add: off_tunnel_def off_iface_def pk_if_def sample_defs)
  ultimately show ?thesis by (simp add: egress_include [OF assms fw peers])
qed

theorem included_app_never_leaks_witness:
  "\<exists>msgs. finalize sample_host sample_connected sample_include_fw = Inr msgs \<and>
     snd (egress msgs 7 sample_app_packet) = Accept \<and>
     (h_iface_index sample_host ''lo'' = Some 7 \<or>
      (\<exists>t. tunnel_of_connected sample_connected = Some t \<and> h_iface_index sample_host t = Some 7))"
proof -
  obtain msgs where msgs: "finalize sample_host sample_connected sample_include_fw = Inr msgs"
    using err_of_None_ex [OF finalize_sample(2)] by blast
  have "fw_include_only sample_include_fw" "root_peers sample_connected"
    "included_socket (fw_included_cgroup2 sample_include_fw) sample_app_packet"
    by (simp_all add: sample_include_fw_def set_include_only_def root_peers_def sample_defs
        clients_allow_all_def included_socket_def sample_app_packet_def)
  from included_app_never_leaks [OF msgs this sample_app_egress [OF msgs]] msgs sample_app_egress [OF msgs]
  show ?thesis by blast
qed

text \<open>
  C14. In include-only mode a packet that is not included passes the output chain in every state of
  the tunnel, except a DNS query the policy does not name, which is refused as in the full tunnel
  unless external resolvers are allowed.
\<close>

theorem not_included_out:
  assumes "finalize h policy fw = Inr msgs" and "fw_include_only fw" and "\<not> included p"
  shows "out_verdict msgs p = Accept \<longleftrightarrow>
     \<not> is_dns p \<or> on_iface h Out ''lo'' p \<or> named_out h policy (fw_fwmark fw) p \<or>
     allows_external_dns policy"
  using assms is_dns_not_always [of p h]
  by (auto simp: accept_iff_lets_out lets_out_def always_out_def)

theorem not_included_out_witness:
  "\<exists>msgs. finalize sample_host sample_blocked sample_include_fw = Inr msgs \<and>
     out_verdict msgs (sample_packet 2 ipproto_tcp 443) = Accept \<and>
     out_verdict msgs (sample_packet 2 ipproto_udp 53) \<noteq> Accept"
proof -
  obtain msgs where msgs: "finalize sample_host sample_blocked sample_include_fw = Inr msgs"
    using err_of_None_ex [OF finalize_sample(1)] by blast
  have fw: "fw_include_only sample_include_fw" by (simp add: sample_include_fw_def set_include_only_def)
  have "\<not> included (sample_packet 2 proto port)" for proto port
    by (simp add: included_def has_ct_mark_def sample_defs INCLUDE_CT_MARK_def)
  note out = not_included_out [OF msgs fw this]
  show ?thesis
    by (rule exI [of _ msgs], unfold out, intro conjI msgs)
       (simp_all add: sample_defs packet_tests named_out_def)
qed

section \<open>Applying a policy\<close>

text \<open>
  Building the batch of a policy fails exactly when the loopback interface or, for a policy
  that carries tunnel traffic, the tunnel's interface has no index; the error names the first of
  them that is missing.
\<close>

theorem finalize_error:
  "err_of (finalize h policy fw) =
     (if h_iface_index h ''lo'' = None then Some (LookupIfaceIndexError ''lo'')
      else case tunnel_iface_needed policy of
             Some t \<Rightarrow> if h_iface_index h t = None then Some (LookupIfaceIndexError t) else None
           | None \<Rightarrow> None)"
  by (simp add: err_finalize missing_def missing_opt_def split: option.splits)

text \<open>
  C15. Applying a policy is all or nothing: the product's table afterwards holds exactly the batch
  of the new policy, or nothing in the kernel changed and the caller gets an error; no other table
  is touched. When it reports success the new policy is in force.
\<close>

theorem apply_policy_atomic:
  assumes "apply_policy n env policy fw k = (k', r)"
  shows "(k' = k \<and> \<not> is_ok r \<or>
      (\<exists>msgs. finalize (fe_host env) policy fw = Inr msgs \<and>
         nk_tables k' = (nk_tables k)(n \<mapsto> policy_table msgs))) \<and>
     (is_ok r \<longrightarrow> linux_enforces n k' policy)"
  using assms by (cases rule: apply_policy_cases) (auto intro: linux_enforcesI)

definition sample_nl :: nl_env where
  "sample_nl = \<lparr>nl_open_fails = False, nl_send_fails = False, nl_refused = False, nl_fault_at = (\<lambda>_. None)\<rparr>"

definition sample_env :: fw_env where
  "sample_env =
     \<lparr>fe_host = sample_host, fe_nl = sample_nl, fe_fetch = FetchOk, fe_dont_set_src_valid_mark = False,
      fe_dont_set_arp_ignore = False, fe_src_valid_mark_fails = False, fe_arp_ignore_fails = False,
      fe_route_fails = False\<rparr>"

definition sample_kernel :: net_kernel where
  "sample_kernel =
     \<lparr>nk_tables = (\<lambda>_. None), nk_src_valid_mark = False, nk_arp_ignore = ''0'', nk_tailnet_route = None\<rparr>"

lemma await_acks_no_fault: "nl_fault_at env = (\<lambda>_. None) \<Longrightarrow> await_acks env True i n = Ok ()"
  by (induction n arbitrary: i) simp_all

lemma sample_apply_ok:
  assumes "finalize sample_host policy fw = Inr msgs"
  shows "is_ok (snd (apply_policy ''warren'' sample_env policy fw k))"
proof -
  let ?batch = "policy_batch_new ''warren'' @ map (AddRule ''warren'') msgs"
  have "send_and_process sample_nl ?batch k =
      (k\<lparr>nk_tables := (nk_tables k)(''warren'' \<mapsto> policy_table msgs)\<rparr>, Ok ())"
    by (simp add: send_and_process_def sample_nl_def run_batch_policy await_acks_no_fault)
  then show ?thesis
    by (simp add: apply_policy_def sample_env_def assms verify_tables_def Let_def)
qed

theorem apply_policy_atomic_witness:
  "is_ok (snd (apply_policy ''warren'' sample_env sample_blocked sample_fw sample_kernel)) \<and>
   linux_enforces ''warren'' (fst (apply_policy ''warren'' sample_env sample_blocked sample_fw sample_kernel))
     sample_blocked"
proof -
  obtain msgs where msgs: "finalize sample_host sample_blocked sample_fw = Inr msgs"
    using err_of_None_ex [OF finalize_sample(1)] by blast
  note ok = sample_apply_ok [OF msgs, of sample_kernel]
  with apply_policy_atomic [of "''warren''" sample_env sample_blocked sample_fw sample_kernel
      "fst (apply_policy ''warren'' sample_env sample_blocked sample_fw sample_kernel)"
      "snd (apply_policy ''warren'' sample_env sample_blocked sample_fw sample_kernel)"]
  show ?thesis by simp
qed

section \<open>Locked apps and recovery\<close>

lemma lock_table_name_other: "lock_table_name n \<noteq> n"
  by (simp add: lock_table_name_def)

lemma lock_kept:
  "nk_tables (fst (apply_policy n env policy fw k)) (lock_table_name n) = nk_tables k (lock_table_name n)"
  "nk_tables (fst (reset_policy n env k)) (lock_table_name n) = nk_tables k (lock_table_name n)"
  "nk_tables (fw_drop n env fw k) (lock_table_name n) = nk_tables k (lock_table_name n)"
proof -
  show "nk_tables (fst (apply_policy n env policy fw k)) (lock_table_name n) = nk_tables k (lock_table_name n)"
    by (cases "apply_policy n env policy fw k") (auto simp: lock_table_name_other elim!: apply_policy_cases)
  show reset: "nk_tables (fst (reset_policy n env k)) (lock_table_name n) = nk_tables k (lock_table_name n)"
    by (cases "reset_policy n env k") (auto simp: lock_table_name_other dest!: reset_policy_cases)
  show "nk_tables (fw_drop n env fw k) (lock_table_name n) = nk_tables k (lock_table_name n)"
    by (simp add: fw_drop_def reset)
qed

text \<open>
  C16. An app locked to the VPN while no tunnel is up: once the lock is set, a packet of one of its
  sockets passes the output and input hooks only on loopback or, when the local network is shared,
  to and from it; the lock does not touch other programs, and no later application, reset or drop
  of the policy removes it.
\<close>

theorem app_lock_holds:
  assumes "set_app_lock n h env locked False allow_lan k = (k', Ok ())"
  shows "\<exists>tbl. nk_tables k' (lock_table_name n) = Some tbl \<and>
     (\<forall>p. table_verdict OutChain tbl p =
        (if of_locked locked p \<and> \<not> on_iface h Out ''lo'' p \<and>
            \<not> (allow_lan \<and> (\<exists>net \<in> set ALLOWED_LAN_NETS \<union> set ALLOWED_LAN_MULTICAST_NETS. in_net h Dst net p))
         then Reject IcmpPortUnreach else Accept)) \<and>
     (\<forall>p. table_verdict InChain tbl p =
        (if of_locked locked p \<and> \<not> on_iface h In ''lo'' p \<and>
            \<not> (allow_lan \<and> (\<exists>net \<in> set ALLOWED_LAN_NETS \<union> set ALLOWED_LAN_MULTICAST_NETS. in_net h Src net p))
         then Drop else Accept)) \<and>
     (\<forall>e policy fw. nk_tables (fst (apply_policy n e policy fw k')) (lock_table_name n) = Some tbl) \<and>
     (\<forall>e fw. nk_tables (fst (reset_policy n e k')) (lock_table_name n) = Some tbl \<and>
        nk_tables (fw_drop n e fw k') (lock_table_name n) = Some tbl)"
proof -
  have lan: "set (lock_lan allow_lan) =
      (if allow_lan then set ALLOWED_LAN_NETS \<union> set ALLOWED_LAN_MULTICAST_NETS else {})"
    by (simp add: lock_lan_def)
  from assms show ?thesis
  proof (rule set_app_lock_taken)
    fix outs ins
    assume o: "lock_msgs h locked False (lock_lan allow_lan) Out OutChain = Inr outs"
      and i: "lock_msgs h locked False (lock_lan allow_lan) In InChain = Inr ins"
      and k': "k' = k\<lparr>nk_tables := (nk_tables k)(lock_table_name n \<mapsto> lock_table (outs @ ins))\<rparr>"
    show ?thesis
      by (rule exI [of _ "lock_table (outs @ ins)"])
         (simp add: k' lock_kept lock_table_verdict [OF o i] lan)
  qed
qed

lemma sample_lock_ok: "is_ok (snd (set_app_lock ''warren'' sample_host sample_nl 99 False False sample_kernel))"
  by (simp add: set_app_lock_def Let_def lock_chain_def lock_rules_def lock_lan_def locked_rule_def
      check_iface_def iface_index_def send_and_process_def sample_nl_def sample_host_def
      sample_kernel_def)

theorem app_lock_holds_witness:
  "\<exists>k' tbl. set_app_lock ''warren'' sample_host sample_nl 99 False False sample_kernel = (k', Ok ()) \<and>
     nk_tables k' (lock_table_name ''warren'') = Some tbl \<and>
     table_verdict OutChain tbl ((sample_packet 2 ipproto_tcp 443)\<lparr>pk_cgroup := (\<lambda>_. Some 99)\<rparr>) =
       Reject IcmpPortUnreach"
proof -
  obtain k' where k': "set_app_lock ''warren'' sample_host sample_nl 99 False False sample_kernel = (k', Ok ())"
    using sample_lock_ok
    by (cases "set_app_lock ''warren'' sample_host sample_nl 99 False False sample_kernel")
       (auto simp: is_ok_def split: sum.splits)
  have "of_locked 99 ((sample_packet 2 ipproto_tcp 443)\<lparr>pk_cgroup := (\<lambda>_. Some 99)\<rparr>)"
    "\<not> on_iface sample_host Out ''lo'' ((sample_packet 2 ipproto_tcp 443)\<lparr>pk_cgroup := (\<lambda>_. Some 99)\<rparr>)"
    by (simp_all add: of_locked_def sample_defs on_iface_def pk_if_def)
  with app_lock_holds [OF k'] k' show ?thesis by metis
qed

text \<open>
  Recovery: when the sweep of every product environment reports success, no policy table and no
  lock table of any environment is left; and an environment whose own exchanges succeed is swept
  even if the sweep of another one fails.
\<close>

theorem recovery_sweeps_all:
  assumes "reset_policy_all_generations env k = (k', r)" and "n \<in> set product_firewall_ids"
    and "is_ok r \<or> (\<forall>k. is_ok (snd (sweep_one (env n) n k)))"
  shows "nk_tables k' n = None \<and> nk_tables k' (lock_table_name n) = None"
proof -
  obtain e where e: "sweep_all env product_firewall_ids None k = (k', e)" and r: "is_ok r \<longleftrightarrow> e = None"
    using assms(1)
    by (cases "sweep_all env product_firewall_ids None k")
       (auto simp: reset_policy_all_generations_def split: option.splits)
  from assms(3) have "swept k' n"
  proof
    assume "is_ok r"
    with e r assms(2) sweep_all_sound [of env product_firewall_ids None k k'] show ?thesis by simp
  next
    assume "\<forall>k. is_ok (snd (sweep_one (env n) n k))"
    with sweep_all_sweeps [OF e assms(2)] show ?thesis by blast
  qed
  then show ?thesis by (simp add: swept_def)
qed

definition sample_sweep :: sweep_env where
  "sample_sweep = \<lparr>sw_delete = sample_nl, sw_fetch = FetchOk, sw_lock = sample_nl\<rparr>"

lemma sample_remove:
  "send_and_process sample_nl [AddTable n, DelTable n] k =
     (k\<lparr>nk_tables := (nk_tables k)(n := None)\<rparr>, Ok ())"
  unfolding send_and_process_def Let_def run_batch_remove
  by (simp add: sample_nl_def await_acks_no_fault del: await_acks.simps)

lemma sample_sweep_ok: "is_ok (snd (sweep_one sample_sweep n k))"
  by (simp add: sweep_one_def sample_sweep_def sample_remove verify_table_removed_def remove_app_lock_def)

theorem recovery_sweeps_all_witness:
  "nk_tables (fst (reset_policy_all_generations (\<lambda>_. sample_sweep) sample_kernel)) ''warren-beta'' = None"
proof -
  have "''warren-beta'' \<in> set product_firewall_ids" by (simp add: product_firewall_ids_def)
  from recovery_sweeps_all [of "\<lambda>_. sample_sweep" sample_kernel
      "fst (reset_policy_all_generations (\<lambda>_. sample_sweep) sample_kernel)"
      "snd (reset_policy_all_generations (\<lambda>_. sample_sweep) sample_kernel)", OF _ this]
  show ?thesis using sample_sweep_ok by simp
qed

end
