(* ===== verification/Tunnel_Properties.thy ===== *)
theory Tunnel_Properties
  imports Tunnel_Settings Tunnel_Life Firewall_Properties
begin

text \<open>
  The properties of the tunnel state machine over its runs, each with a run of a concrete machine.
\<close>

section \<open>Runs\<close>

abbreviation boot ::
    "world \<Rightarrow> string \<Rightarrow> net_kernel \<Rightarrow> LinuxNetworkingIdentifiers \<Rightarrow> InitialTunnelState \<Rightarrow> Connectivity \<Rightarrow> machine" where
  "boot w table k ids settings conn \<equiv> machine_new w settings (initial_shared table k ids settings conn)"

lemma initial_log [simp]:
  "sv_log (initial_shared table k ids settings conn) = []" "sv_table (initial_shared table k ids settings conn) = table"
  by (simp_all add: initial_shared_def initial_firewall_def Let_def)

lemma boot_guarded: "steps w (boot w table k ids settings conn) ls m \<Longrightarrow> machine_guarded m"
  by (rule steps_guarded)

lemma boot_coherent: "steps w (boot w table k ids settings conn) ls m \<Longrightarrow> machine_coherent w m"
  by (erule steps_coherent [OF _ initial_settings_ok initial_log(1)])

lemma boot_life: "steps w (boot w table k ids settings conn) ls m \<Longrightarrow> life_of ls m"
  by (erule steps_life [OF _ initial_log(1)])

lemma steps_snoc_iff: "steps w m (ls @ [l]) m' \<longleftrightarrow> (\<exists>m1. steps w m ls m1 \<and> step w m1 l m')"
  by (subst steps.simps) auto

lemma steps_Nil_iff [simp]: "steps w m [] m' \<longleftrightarrow> m' = m"
  by (subst steps.simps) auto

lemma steps_append: "steps w m (ls @ ls') m' \<longleftrightarrow> (\<exists>m1. steps w m ls m1 \<and> steps w m1 ls' m')"
proof (induction ls' arbitrary: m' rule: rev_induct)
  case (snoc l ls')
  then show ?case unfolding append_assoc [symmetric] steps_snoc_iff by blast
qed simp

lemma steps_one [simp]: "steps w m [l] m' \<longleftrightarrow> step w m l m'"
  using steps_snoc_iff [of w m "[]" l m'] by simp

lemma steps_Cons: "steps w m (l # ls) m' \<longleftrightarrow> (\<exists>m1. step w m l m1 \<and> steps w m1 ls m')"
  using steps_append [of w m "[l]" ls m'] by simp

section \<open>A concrete machine\<close>

definition sample_answer :: world_answer where
  "sample_answer =
     \<lparr>wa_fw = sample_env, wa_dns_ok = True, wa_params = (\<lambda>_. Ok sample_params), wa_subscription = Unknown,
      wa_now = 0, wa_nm_disable = None\<rparr>"

definition sample_world :: world where
  "sample_world = (\<lambda>_. sample_answer)"

definition sample_settings :: InitialTunnelState where
  "sample_settings =
     \<lparr>in_allow_lan = False, in_lan_networks = [], in_lockdown_mode = Enabled True,
      in_dns_config = dns_config_default, in_allowed_endpoint = sample_peer, in_reset_firewall = True,
      in_initial_block = None, in_split_apps = \<lparr>sa_mode = Exclude, sa_apps = []\<rparr>\<rparr>"

definition sample_ids :: LinuxNetworkingIdentifiers where
  "sample_ids = \<lparr>li_fwmark = 0x77, li_excluded_cgroup2 = Some 40, li_net_cls = None, li_included_cgroup2 = Some 41\<rparr>"

abbreviation sample_boot :: machine where
  "sample_boot \<equiv> boot sample_world ''warren'' sample_kernel sample_ids sample_settings PresumeOnline"

lemma sample_answers [simp]: "answer sample_world s = sample_answer"
  by (simp add: answer_def sample_world_def)

text \<open>On the concrete host a policy whose interfaces exist is always taken.\<close>

lemma sample_fw_apply:
  assumes "sv_table s = ''warren''" "err_of (finalize sample_host policy (sv_firewall s)) = None"
  shows "\<exists>k. fw_apply sample_world policy s = (emit (FwApply policy True) (tick s\<lparr>sv_kernel := k\<rparr>), Ok ())"
proof -
  obtain msgs where "finalize sample_host policy (sv_firewall s) = Inr msgs"
    using err_of_None_ex [OF assms(2)] by blast
  from sample_apply_ok [OF this, of "sv_kernel s"] obtain k where
    "apply_policy ''warren'' sample_env policy (sv_firewall s) (sv_kernel s) = (k, Ok ())"
    by (cases "apply_policy ''warren'' sample_env policy (sv_firewall s) (sv_kernel s)")
       (auto simp: is_ok_def split: sum.splits)
  then show ?thesis by (intro exI [of _ k]) (simp add: fw_apply_def assms(1) sample_answer_def)
qed

lemma sample_finalize_blocked: "err_of (finalize sample_host (Blocked lan nets ep) fw) = None"
  by (simp add: err_finalize missing_def missing_opt_def sample_host_def)

lemma sample_finalize_connecting:
  "err_of (finalize sample_host (Connecting peers None lan nets ep TrafficNone) fw) = None"
  by (simp add: err_finalize missing_def missing_opt_def sample_host_def)

text \<open>It boots disconnected with the lockdown in force, and dials when told to connect.\<close>

lemma sample_booted:
  "\<exists>s. sample_boot = MRunning StDisconnected s [] \<and> sv_table s = ''warren'' \<and>
     sv_lockdown_mode s = Enabled True \<and> sv_blocked_policy s = sample_blocked \<and>
     \<not> sv_include_only s \<and> sv_connectivity s = PresumeOnline \<and> can_include (sv_firewall s) \<and>
     last_firewall_call (sv_log s) = Some (FwApply sample_blocked True)"
proof -
  let ?s = "initial_shared ''warren'' sample_kernel sample_ids sample_settings PresumeOnline"
  obtain k where k: "fw_apply sample_world sample_blocked (emit ForceRouteCleanup ?s) =
      (emit (FwApply sample_blocked True) (tick (emit ForceRouteCleanup ?s)\<lparr>sv_kernel := k\<rparr>), Ok ())"
    using sample_fw_apply [of "emit ForceRouteCleanup ?s" sample_blocked]
    by (auto simp: sample_blocked_def sample_finalize_blocked initial_shared_def initial_firewall_def Let_def)
  have ini: "sv_lockdown_mode ?s = Enabled True" "sv_allow_lan ?s = False" "sv_lan_networks ?s = []"
    "sv_allowed_endpoint ?s = sample_peer" "sv_table ?s = ''warren''"
    "sv_connectivity_check_was_enabled ?s = None" "sv_split_mode ?s = Exclude"
    "sv_connectivity ?s = PresumeOnline" "can_include (sv_firewall ?s)"
    "in_initial_block sample_settings = None" "in_reset_firewall sample_settings"
    by (simp_all add: initial_shared_def initial_firewall_def Let_def sample_settings_def enforceable_mode_def can_include_def
        set_include_only_def fw_from_args_def sample_ids_def)
  show ?thesis
    using k
    by (simp add: machine_new_def disconnected_enter_def disconnected_set_firewall_policy_def ini
        lockdown_bool_def Let_def reset_connectivity_check_def
        sample_blocked_def sv_blocked_policy_def blocked_policy_def sv_include_only_def)
       (simp add: emit_def tick_def ini)
qed

lemma sample_dial:
  assumes "sv_table s = ''warren''"
  shows "\<exists>s' st t. connecting_enter sample_world 0 s = (s', StConnecting st, t) \<and> same_settings s s'"
proof -
  let ?p = "sample_params\<lparr>wp_include_only := sv_include_only s,
     wp_lan_networks := Some (lan_routes_subscribe (sv_lan_routes s))\<rparr>"
  let ?init = "tick (s\<lparr>sv_refusals := forget_run\<rparr>)"
  let ?s = "disable_connectivity_check sample_world ?init"
  have same: "same_settings s ?s"
    by (rule same_settings_trans [OF _ calls_same_settings(3)]) simp
  then have table: "sv_table ?s = ''warren''" using assms by (simp add: same_settings_def)
  have "err_of (finalize sample_host (connecting_policy ?s (from_params ?p) None TrafficNone) (sv_firewall ?s)) = None"
    by (simp add: connecting_policy_def sample_finalize_connecting)
  from sample_fw_apply [OF table this] obtain s2 where
    s2: "fw_apply sample_world (connecting_policy ?s (from_params ?p) None TrafficNone) ?s = (s2, Ok ())"
    by blast
  have "same_settings s s2"
    using same_settings_trans [OF same fw_apply_force(1) [OF s2]] .
  with s2 show ?thesis
    by (simp add: connecting_enter_def connecting_dial_def sample_answer_def Let_def
        connecting_set_firewall_policy_def start_tunnel_warren_def sv_include_only_def)
qed

lemma sample_dial_step:
  assumes "sv_table s = ''warren''"
  shows "\<exists>st s' ts'. step sample_world (MRunning StDisconnected s ts) (LHandle (RCommand (Some CmdConnect)))
     (MRunning (StConnecting st) s' ts') \<and> same_settings s s'"
proof -
  obtain s' st t where d: "connecting_enter sample_world 0 s = (s', StConnecting st, t)" "same_settings s s'"
    using sample_dial [OF assms] by blast
  have "step sample_world (MRunning StDisconnected s ts) (LHandle (RCommand (Some CmdConnect)))
      (machine_step sample_world True (RCommand (Some CmdConnect)) StDisconnected s ts)"
    by (rule step.handle) simp
  with d show ?thesis by (auto simp: machine_step_def new_state_def)
qed

lemma sample_connects:
  "\<exists>st s ts. steps sample_world sample_boot [LHandle (RCommand (Some CmdConnect))] (MRunning (StConnecting st) s ts)"
proof -
  obtain s where s: "sample_boot = MRunning StDisconnected s []" "sv_table s = ''warren''"
    using sample_booted by blast
  from sample_dial_step [OF s(2), of "[]"] show ?thesis unfolding s(1) steps_one by blast
qed

lemma sample_up:
  assumes "sv_table s = ''warren''" "\<not> is_offline (sv_connectivity s)"
  shows "\<exists>c s' ts'. step sample_world (MRunning (StConnecting st) s ts) (LHandle (REvent (Some (EvUp sample_tunnel))))
     (MRunning (StConnected c) s' ts') \<and> same_settings s s'"
proof -
  let ?c = "\<lparr>cd_metadata = sample_tunnel, cd_params = cg_params st, cd_offline_grace_deadline = None,
     cd_peer_endpoints = get_next_hop_endpoints (cg_params st)\<rparr>"
  have "err_of (finalize sample_host (get_firewall_policy ?c s) (sv_firewall s)) = None"
    by (simp add: get_firewall_policy_def err_finalize missing_def missing_opt_def sample_host_def sample_tunnel_def)
  from sample_fw_apply [OF assms(1) this] obtain s2 where s2: "fw_apply sample_world (get_firewall_policy ?c s) s = (s2, Ok ())"
    by blast
  have dns: "connected_set_dns sample_world ?c s2 =
      (emit (DnsSet ''wg0'' (resolve_dns sample_tunnel s2) True) (tick s2), True)"
    by (simp add: connected_set_dns_def dns_set_def sample_answer_def) (simp add: sample_tunnel_def)
  have "step sample_world (MRunning (StConnecting st) s ts) (LHandle (REvent (Some (EvUp sample_tunnel))))
      (machine_step sample_world True (REvent (Some (EvUp sample_tunnel))) (StConnecting st) s ts)"
    by (rule step.handle) simp
  moreover have "machine_step sample_world True (REvent (Some (EvUp sample_tunnel))) (StConnecting st) s ts =
      MRunning (StConnected ?c) (emit (DnsSet ''wg0'' (resolve_dns sample_tunnel s2) True) (tick s2))
        (TrConnected (connected_tunnel_endpoint (cg_params st) sample_tunnel) # ts)"
    using s2 dns assms(2)
    by (simp add: machine_step_def new_state_def connected_enter_def Let_def connected_set_firewall_policy_def)
  ultimately show ?thesis
    using fw_apply_force(1) [OF s2]
    by (intro exI [of _ ?c] exI [of _ "emit (DnsSet ''wg0'' (resolve_dns sample_tunnel s2) True) (tick s2)"] exI) simp
qed

lemma sample_connects_up:
  assumes "sv_table s = ''warren''" "\<not> is_offline (sv_connectivity s)"
  shows "\<exists>c s' ts'. steps sample_world (MRunning StDisconnected s ts)
      [LHandle (RCommand (Some CmdConnect)), LHandle (REvent (Some (EvUp sample_tunnel)))]
      (MRunning (StConnected c) s' ts') \<and> same_settings s s'"
proof -
  obtain st s1 ts1 where one: "step sample_world (MRunning StDisconnected s ts) (LHandle (RCommand (Some CmdConnect)))
      (MRunning (StConnecting st) s1 ts1)" "same_settings s s1"
    using sample_dial_step [OF assms(1)] by blast
  with assms obtain c s2 ts2 where two: "step sample_world (MRunning (StConnecting st) s1 ts1)
      (LHandle (REvent (Some (EvUp sample_tunnel)))) (MRunning (StConnected c) s2 ts2)" "same_settings s1 s2"
    using sample_up [of s1 st ts1] by (auto simp: same_settings_def)
  from one(1) two(1) same_settings_trans [OF one(2) two(2)] show ?thesis
    by (auto simp: steps_Cons intro!: exI)
qed

section \<open>The kill switch\<close>



text \<open>
  C5. The lockdown while disconnected: with the lockdown armed the last call to the firewall asked
  for the blocked policy of the current settings, and that policy is in force unless the call failed;
  without it, a firewall whose reset succeeded last holds no table of the product.
\<close>

theorem lockdown_while_disconnected:
  assumes "steps w (boot w table k ids settings conn) ls (MRunning StDisconnected s ts)"
  shows "(lockdown_bool (sv_lockdown_mode s) \<longrightarrow>
       (\<exists>taken. last_firewall_call (sv_log s) =
            Some (FwApply (Blocked (sv_allow_lan s) (sv_lan_networks s) (Some (sv_allowed_endpoint s))) taken) \<and>
          (taken \<longrightarrow> linux_enforces (sv_table s) (sv_kernel s)
             (Blocked (sv_allow_lan s) (sv_lan_networks s) (Some (sv_allowed_endpoint s)))))) \<and>
     (\<not> lockdown_bool (sv_lockdown_mode s) \<and> last_firewall_call (sv_log s) = Some (FwReset True) \<longrightarrow>
       nk_tables (sv_kernel s) (sv_table s) = None)"
  using boot_coherent [OF assms]
  by (simp add: coherent_def lockdown_guard_def sv_blocked_policy_def blocked_policy_def in_force_def
      linux_lifted_def split: if_splits)

theorem lockdown_while_disconnected_witness:
  "\<exists>s. steps sample_world sample_boot [] (MRunning StDisconnected s []) \<and>
     linux_enforces (sv_table s) (sv_kernel s) sample_blocked"
proof -
  obtain s where s: "sample_boot = MRunning StDisconnected s []" "sv_lockdown_mode s = Enabled True"
    "sv_blocked_policy s = sample_blocked" "last_firewall_call (sv_log s) = Some (FwApply sample_blocked True)"
    using sample_booted by blast
  have run: "steps sample_world sample_boot [] (MRunning StDisconnected s [])" by (simp add: s(1))
  from lockdown_while_disconnected [OF run] s(2-4) have "linux_enforces (sv_table s) (sv_kernel s) sample_blocked"
    by (auto simp: lockdown_bool_def sv_blocked_policy_def blocked_policy_def)
  with run show ?thesis by blast
qed

section \<open>Stopping\<close>

lemma shutdown_frame [simp]:
  "sv_table (shutdown w s) = sv_table s" "sv_lockdown_mode (shutdown w s) = sv_lockdown_mode s"
  using calls_same_settings(2) [of s w]
  by (simp_all add: shutdown_def Let_def same_settings_def)

lemma shutdown_locked:
  "lockdown_bool (sv_lockdown_mode s) \<Longrightarrow> sv_kernel (shutdown w s) = sv_kernel s"
  by (simp add: shutdown_def Let_def should_persist_def fw_drop_def keep_policy_on_drop_def)

lemma shutdown_lifted:
  assumes "\<not> lockdown_bool (sv_lockdown_mode s)" "is_ok (snd (fw_reset w s))"
  shows "linux_lifted (sv_table s) (sv_kernel (shutdown w s))"
proof -
  obtain s1 r where r: "fw_reset w s = (s1, r)" by (cases "fw_reset w s")
  with assms(2) have lifted: "linux_lifted (sv_table s) (sv_kernel s1)" and table: "sv_table s1 = sv_table s"
    using fw_reset_lifts [OF r] by (simp_all add: same_settings_def)
  obtain k2 r2 where k2: "reset_policy (sv_table s) (wa_fw (answer w s1)) (sv_kernel s1) = (k2, r2)"
    by (cases "reset_policy (sv_table s) (wa_fw (answer w s1)) (sv_kernel s1)")
  have "k2 = sv_kernel s1 \<or> linux_lifted (sv_table s) k2"
    using linux_fw.reset_any [of "sv_table s" "(wa_fw (answer w s1), sv_firewall s)"] k2 by simp
  with lifted k2 r assms(1) show ?thesis
    by (auto simp: shutdown_def Let_def fw_drop_def table)
qed

text \<open>
  C6. Stopping: when the daemon shuts the machine down from the disconnected state, an armed lockdown
  stays in force after the firewall is dropped, with the blocked policy if it was taken; without the
  lockdown, a reset the kernel takes leaves no table of the product behind.
\<close>

theorem stop_respects_lockdown:
  assumes "steps w (boot w table k ids settings conn) ls (MRunning StDisconnected s ts)"
    and "step w (MRunning StDisconnected s ts) (LHandle (RCommand None)) m"
  shows "\<exists>s'. m = MStopped s' ts \<and>
     (lockdown_bool (sv_lockdown_mode s) \<longrightarrow>
        sv_kernel s' = sv_kernel s \<and>
        (\<forall>policy. last_firewall_call (sv_log s) = Some (FwApply policy True) \<longrightarrow>
           linux_enforces (sv_table s') (sv_kernel s') policy)) \<and>
     (\<not> lockdown_bool (sv_lockdown_mode s) \<and> is_ok (snd (fw_reset w s)) \<longrightarrow>
        nk_tables (sv_kernel s') (sv_table s') = None)"
proof -
  have m: "m = MStopped (shutdown w (reset_dns s)) ts"
    using assms(2) by (auto simp: machine_step_def elim!: step_running)
  have same: "sv_lockdown_mode (reset_dns s) = sv_lockdown_mode s" "sv_kernel (reset_dns s) = sv_kernel s"
    "sv_table (reset_dns s) = sv_table s" "snd (fw_reset w (reset_dns s)) = snd (fw_reset w s)"
    by (simp_all add: reset_dns_def fw_reset_def answer_def emit_def split: prod.split)
  have "lockdown_guard s" using boot_coherent [OF assms(1)] by (simp add: coherent_def)
  then show ?thesis
    using shutdown_locked [of "reset_dns s" w] shutdown_lifted [of "reset_dns s" w]
    by (auto simp: m same lockdown_guard_def in_force_def linux_lifted_def)
qed

theorem stop_respects_lockdown_witness:
  "\<exists>s s'. step sample_world (MRunning StDisconnected s []) (LHandle (RCommand None)) (MStopped s' []) \<and>
     linux_enforces (sv_table s') (sv_kernel s') sample_blocked"
proof -
  obtain s where s: "sample_boot = MRunning StDisconnected s []" "sv_lockdown_mode s = Enabled True"
    "last_firewall_call (sv_log s) = Some (FwApply sample_blocked True)"
    using sample_booted by blast
  have run: "steps sample_world sample_boot [] (MRunning StDisconnected s [])" by (simp add: s(1))
  have stop: "step sample_world (MRunning StDisconnected s []) (LHandle (RCommand None))
      (machine_step sample_world True (RCommand None) StDisconnected s [])"
    by (rule step.handle) simp
  from stop_respects_lockdown [OF run stop] s(2,3) obtain s' where
    m: "machine_step sample_world True (RCommand None) StDisconnected s [] = MStopped s' []"
    and "linux_enforces (sv_table s') (sv_kernel s') sample_blocked"
    by (auto simp: lockdown_bool_def)
  with stop [unfolded m] show ?thesis by blast
qed

section \<open>Panics\<close>

lemma snd_results [simp]:
  "snd (new_state e) \<noteq> Panicked" "snd (acked r) = snd r"
  "snd (connecting_disconnect after s) \<noteq> Panicked" "snd (connected_disconnect after s) \<noteq> Panicked"
  by (simp_all add: new_state_def acked_def connecting_disconnect_def connected_disconnect_def split: prod.split)

lemma snd_policies [simp]:
  "snd (connecting_reset_firewall w st s) \<noteq> Panicked" "snd (connected_reapply w st' s) \<noteq> Panicked"
  by (simp_all add: connecting_reset_firewall_def connected_reapply_def split: prod.split sum.split)

lemma commands_no_panic:
  "snd (disconnected_command w c s) \<noteq> Panicked"
  "snd (connecting_command w st c s) \<noteq> Panicked"
  "snd (connected_command w st' c s) \<noteq> Panicked"
  "snd (error_command w cause c s) \<noteq> Panicked"
proof -
  show "snd (disconnected_command w c s) \<noteq> Panicked"
    by (cases "(w, c, s)" rule: disconnected_command.cases) (simp_all add: Let_def split: prod.split)
  show "snd (connecting_command w st c s) \<noteq> Panicked"
    by (cases "(w, st, c, s)" rule: connecting_command.cases)
       (simp_all add: Let_def split: prod.split sum.split bool.split)
  show "snd (connected_command w st' c s) \<noteq> Panicked"
    by (cases "(w, st', c, s)" rule: connected_command.cases)
       (simp_all add: Let_def split: prod.split sum.split bool.split GraceAction.split)
  show "snd (error_command w cause c s) \<noteq> Panicked"
    by (cases "(w, cause, c, s)" rule: error_command.cases) (simp_all add: Let_def split: prod.split)
qed

lemma events_no_panic:
  "snd (connecting_tunnel_event w st e s) \<noteq> Panicked"
  "snd (connected_tunnel_event w st' e s) \<noteq> Panicked"
  "snd (connecting_close w st reason s) \<noteq> Panicked"
  "snd (connected_close w reason s) \<noteq> Panicked"
proof -
  show "snd (connecting_tunnel_event w st e s) \<noteq> Panicked"
    by (cases "(w, st, e, s)" rule: connecting_tunnel_event.cases)
       (simp_all add: Let_def split: prod.split sum.split)
  show "snd (connected_tunnel_event w st' e s) \<noteq> Panicked"
    by (cases "(w, st', e, s)" rule: connected_tunnel_event.cases) (simp_all add: Let_def)
  show "snd (connecting_close w st reason s) \<noteq> Panicked" "snd (connected_close w reason s) \<noteq> Panicked"
    by (simp_all add: connecting_close_def connected_close_def split: option.split prod.split bool.split)
qed

lemma handle_event_no_panic: "receivable st r \<Longrightarrow> snd (handle_event w st r s) \<noteq> Panicked"
  by (cases st; cases r) (simp_all add: commands_no_panic events_no_panic split: prod.split)



section \<open>Tunnels\<close>

text \<open>
  C8. One tunnel at a time: over a whole run as many tunnels were started as closed, plus the one
  that a connecting, connected or disconnecting state holds; no state is left with a tunnel that
  nobody waits for, no second tunnel is dialled beside a first, and the routes were cleared exactly
  once for every tunnel that closed.
\<close>

theorem one_tunnel_at_a_time:
  assumes "steps w (boot w table k ids settings conn) ls (MRunning st s ts)"
  shows "starts s = closes ls + (case st of StDisconnected \<Rightarrow> 0 | StError _ \<Rightarrow> 0 | _ \<Rightarrow> 1) \<and>
     clears s = closes ls"
  using boot_life [OF assms] by (cases st) simp_all

theorem one_tunnel_at_a_time_witness:
  "\<exists>c s ts. steps sample_world sample_boot [LHandle (RCommand (Some CmdConnect))] (MRunning (StConnecting c) s ts) \<and>
     starts s = 1 \<and> clears s = 0"
proof -
  obtain c s ts where run: "steps sample_world sample_boot [LHandle (RCommand (Some CmdConnect))]
      (MRunning (StConnecting c) s ts)"
    using sample_connects by blast
  from one_tunnel_at_a_time [OF run] run show ?thesis by (auto simp: closes_def)
qed

text \<open>
  C9. The tunnel and the firewall follow the same split mode: while a tunnel is dialled or up, it is
  the one started last and the state describes it, it was started with the include-only setting in
  force, the table in the kernel was built by a firewall in that very mode, and include-only is only
  ever in force where the host can tell the included apps apart.
\<close>

theorem tunnel_follows_split_mode:
  assumes "steps w (boot w table k ids settings conn) ls (MRunning st s ts)"
    and "(\<exists>c. st = StConnecting c \<and> params = cg_params c) \<or> (\<exists>c. st = StConnected c \<and> params = cd_params c)"
  shows "(\<exists>p. last_start (sv_log s) = Some p \<and> params = from_params p \<and>
        wp_include_only p = (sv_split_mode s = IncludeOnly)) \<and>
     (\<exists>n policy msgs. finalize (fe_host (wa_fw (w n))) policy (sv_firewall s) = Inr msgs \<and>
        nk_tables (sv_kernel s) (sv_table s) = Some (policy_table msgs)) \<and>
     fw_include_only (sv_firewall s) = (sv_split_mode s = IncludeOnly) \<and>
     (sv_split_mode s = IncludeOnly \<longrightarrow> fw_included_cgroup2 (sv_firewall s) \<noteq> None)"
proof -
  have c: "settings_ok s" "state_ok w st s" using boot_coherent [OF assms(1)] by (simp_all add: coherent_def)
  from assms(2) c(2) have "started params s" "\<exists>policy. in_mode w s policy"
    by (auto simp: connecting_mode_def connected_mode_def)
  with c(1) show ?thesis
    by (simp add: settings_ok_def started_def sv_include_only_def can_include_def in_mode_def) blast
qed

theorem tunnel_follows_split_mode_witness:
  "\<exists>c s ts p. steps sample_world sample_boot [LHandle (RCommand (Some CmdConnect))] (MRunning (StConnecting c) s ts) \<and>
     last_start (sv_log s) = Some p \<and> cg_params c = from_params p"
proof -
  obtain c s ts where run: "steps sample_world sample_boot [LHandle (RCommand (Some CmdConnect))]
      (MRunning (StConnecting c) s ts)"
    using sample_connects by blast
  from tunnel_follows_split_mode [OF run, of "cg_params c"] run show ?thesis by blast
qed

section \<open>Disconnecting\<close>

text \<open>What may happen while a tunnel comes down, short of a new request to connect.\<close>

fun harmless :: "label \<Rightarrow> bool" where
  "harmless (LHandle (RCommand c)) \<longleftrightarrow> c \<noteq> Some CmdConnect"
| "harmless (LHandle _) = False"
| "harmless (LThread _ _) = True"

lemma disconnecting_stays:
  "disconnecting_command AfterNothing c s = (s', after) \<Longrightarrow> c \<noteq> Some CmdConnect \<Longrightarrow> after = AfterNothing"
  by (cases "(AfterNothing, c, s)" rule: disconnecting_command.cases) auto

fun coming_down :: "nat \<Rightarrow> machine \<Rightarrow> bool" where
  "coming_down n (MRunning st s ts) \<longleftrightarrow> st = StDisconnecting AfterNothing \<and> starts s = n"
| "coming_down n (MStopped s ts) = True"
| "coming_down n (MCrashed s) = False"

lemma disconnect_begins:
  assumes "owns st = 1" "step w (MRunning st s ts) (LHandle (RCommand (Some CmdDisconnect))) m"
  shows "coming_down (starts s) m"
  using assms
  by (cases st)
     (auto simp: machine_step_def connecting_disconnect_def connected_disconnect_def disconnecting_enter_def
       new_state_def elim!: step_running)

lemma harmless_step:
  assumes "coming_down n m" "step w m l m'" "harmless l"
  shows "coming_down n m'"
  using assms(2)
proof (cases rule: step.cases)
  case (handle st r s ts listening)
  with assms obtain c where r: "r = RCommand c" "c \<noteq> Some CmdConnect" by (cases r) auto
  obtain s' after where d: "disconnecting_command AfterNothing c s = (s', after)"
    by (cases "disconnecting_command AfterNothing c s")
  with disconnecting_stays [OF d r(2)] disconnecting_command_counts [OF d] handle assms(1) r show ?thesis
    by (simp add: machine_step_def)
qed (use assms in simp)

lemma harmless_steps:
  assumes "steps w m ls m'" "list_all harmless ls" "coming_down n m"
  shows "coming_down n m'"
  using assms by (induction rule: steps.induct) (auto intro: harmless_step)

lemma last_call_disconnected:
  assumes "disconnected_enter w True s = (s', st, t)"
  shows "\<exists>taken. last_firewall_call (sv_log s') =
     Some (if lockdown_bool (sv_lockdown_mode s')
           then FwApply (Blocked (sv_allow_lan s') (sv_lan_networks s') (Some (sv_allowed_endpoint s'))) taken
           else FwReset taken)"
proof -
  let ?s = "emit ForceRouteCleanup s"
  let ?s2 = "disconnected_set_firewall_policy w True ?s"
  have s': "s' = reset_connectivity_check w ?s2"
    using assms by (simp add: disconnected_enter_def Let_def)
  have same: "same_settings ?s ?s2"
    by (simp add: disconnected_set_firewall_policy_def del: same_settings_steps)
  have same': "same_settings ?s s'" "last_firewall_call (sv_log s') = last_firewall_call (sv_log ?s2)"
    unfolding s'
    by (rule same_settings_trans [OF same calls_same_settings(4)])
       (simp add: reset_connectivity_check_def Let_def split: option.split)
  show ?thesis
  proof (cases "lockdown_bool (sv_lockdown_mode s)")
    case True
    then have "last_firewall_call (sv_log ?s2) =
        Some (FwApply (Blocked (sv_allow_lan s) (sv_lan_networks s) (Some (sv_allowed_endpoint s)))
          (is_ok (snd (fw_apply w (Blocked (sv_allow_lan s) (sv_lan_networks s) (Some (sv_allowed_endpoint s))) ?s))))"
      by (simp add: disconnected_set_firewall_policy_def fw_apply_def split: prod.split)
    with True same' show ?thesis by (simp add: same_settings_def)
  next
    case False
    then have "last_firewall_call (sv_log ?s2) = Some (FwReset (is_ok (snd (fw_reset w ?s))))"
      by (simp add: disconnected_set_firewall_policy_def fw_reset_def split: prod.split)
    with False same' show ?thesis by (simp add: same_settings_def)
  qed
qed

text \<open>
  C7. A disconnect is final: once the user disconnects while a tunnel is dialled, up or coming down,
  no command but a new connect, no connectivity report and no request to block or to change a setting
  brings a tunnel back; when the tunnel has closed cleanly the machine is disconnected, reports it,
  and asked the firewall last for the block of the lockdown or, without it, for a reset.
\<close>

theorem disconnect_is_final:
  assumes "owns st = 1" and "list_all harmless ls" and "unwrap_close closed = None"
    and "steps w (MRunning st s ts)
      (LHandle (RCommand (Some CmdDisconnect)) # ls @ [LHandle (RClose closed)]) m"
  shows "(\<exists>s' ts'. m = MRunning StDisconnected s' (TrDisconnected (lockdown_bool (sv_lockdown_mode s')) # ts') \<and>
       starts s' = starts s \<and>
       (\<exists>taken. last_firewall_call (sv_log s') =
          Some (if lockdown_bool (sv_lockdown_mode s')
                then FwApply (Blocked (sv_allow_lan s') (sv_lan_networks s') (Some (sv_allowed_endpoint s'))) taken
                else FwReset taken))) \<or>
     (\<exists>s' ts'. m = MStopped s' ts')"
proof -
  obtain m1 m2 where m: "step w (MRunning st s ts) (LHandle (RCommand (Some CmdDisconnect))) m1"
    "steps w m1 ls m2" "step w m2 (LHandle (RClose closed)) m"
    using assms(4) by (auto simp: steps_Cons steps_snoc_iff)
  have "coming_down (starts s) m2"
    using harmless_steps [OF m(2) assms(2) disconnect_begins [OF assms(1) m(1)]] .
  with m(3) obtain s2 ts2 listening where m2: "m2 = MRunning (StDisconnecting AfterNothing) s2 ts2" "starts s2 = starts s"
    and final: "m = machine_step w listening (RClose closed) (StDisconnecting AfterNothing) s2 ts2"
    by (cases rule: step.cases) auto
  obtain s' st' t' where e: "disconnected_enter w True (reset_routes s2) = (s', st', t')"
    by (cases "disconnected_enter w True (reset_routes s2)")
  have "starts s' = starts s"
    using e m2(2) by (auto simp: disconnected_enter_def Let_def)
  moreover have "st' = StDisconnected" "t' = TrDisconnected (lockdown_bool (sv_lockdown_mode s'))"
    using e by (auto simp: disconnected_enter_def Let_def disconnected_transition_def)
  moreover have "\<exists>taken. last_firewall_call (sv_log s') =
      Some (if lockdown_bool (sv_lockdown_mode s')
            then FwApply (Blocked (sv_allow_lan s') (sv_lan_networks s') (Some (sv_allowed_endpoint s'))) taken
            else FwReset taken)"
    using last_call_disconnected [OF e] .
  ultimately show ?thesis
    using assms(3) e by (simp add: final machine_step_def after_disconnect_def new_state_def)
qed

theorem disconnect_is_final_witness:
  "\<exists>s' ts'. steps sample_world
      (MRunning (StDisconnecting (AfterReconnect 3))
         (initial_shared ''warren'' sample_kernel sample_ids sample_settings PresumeOnline) [])
      (LHandle (RCommand (Some CmdDisconnect)) #
         [LHandle (RCommand (Some (CmdBlock IsOffline))), LHandle (RCommand (Some (CmdConnectivity Offline)))] @
         [LHandle (RClose (Ok None))])
      (MRunning StDisconnected s' ts') \<and> starts s' = 0"
proof -
  let ?s = "initial_shared ''warren'' sample_kernel sample_ids sample_settings PresumeOnline"
  let ?s2 = "?s\<lparr>sv_connectivity := Offline\<rparr>"
  let ?ls = "[LHandle (RCommand (Some (CmdBlock IsOffline))), LHandle (RCommand (Some (CmdConnectivity Offline)))]"
  let ?m = "machine_step sample_world True (RClose (Ok None)) (StDisconnecting AfterNothing) ?s2 []"
  have go: "step sample_world (MRunning (StDisconnecting a) s []) (LHandle r)
      (machine_step sample_world True r (StDisconnecting a) s [])" if "receivable (StDisconnecting a) r" for a r s
    using that by (rule step.handle)
  have "steps sample_world (MRunning (StDisconnecting (AfterReconnect 3)) ?s [])
      (LHandle (RCommand (Some CmdDisconnect)) # ?ls @ [LHandle (RClose (Ok None))]) ?m"
    using go [of "AfterReconnect 3" "RCommand (Some CmdDisconnect)" ?s]
      go [of AfterNothing "RCommand (Some (CmdBlock IsOffline))" ?s]
      go [of AfterNothing "RCommand (Some (CmdConnectivity Offline))" ?s]
      go [of AfterNothing "RClose (Ok None)" ?s2]
    by (auto simp: steps_Cons machine_step_def)
  moreover have "\<exists>s' ts'. ?m = MRunning StDisconnected s' ts'"
    by (simp add: machine_step_def after_disconnect_def unwrap_close_def disconnected_enter_def Let_def new_state_def)
  moreover obtain s' ts' where m: "?m = MRunning StDisconnected s' ts'"
    using calculation(2) by blast
  ultimately have run: "steps sample_world (MRunning (StDisconnecting (AfterReconnect 3)) ?s [])
      (LHandle (RCommand (Some CmdDisconnect)) # ?ls @ [LHandle (RClose (Ok None))]) (MRunning StDisconnected s' ts')"
    by simp
  have "starts s' = starts ?s"
    using disconnect_is_final [OF _ _ _ run] by (simp add: unwrap_close_def)
  with run show ?thesis unfolding starts_def by auto
qed

section \<open>Losing the network\<close>

text \<open>What the handlers of the connected state do to a running grace.\<close>

fun grace_kept :: "instant \<Rightarrow> shared \<times> consequence \<Rightarrow> bool" where
  "grace_kept d (s, SameState (StConnected st)) \<longleftrightarrow>
     cd_offline_grace_deadline st = Some d \<or> cd_offline_grace_deadline st = None \<and> \<not> is_offline (sv_connectivity s)"
| "grace_kept d (s, NewState (StConnected st) t) \<longleftrightarrow>
     cd_offline_grace_deadline st = Some d \<or> cd_offline_grace_deadline st = None \<and> \<not> is_offline (sv_connectivity s)"
| "grace_kept d _ = True"

lemma grace_acked [simp]: "grace_kept d (acked r) = grace_kept d r"
  by (cases "(d, r)" rule: grace_kept.cases) (simp_all add: acked_def)

lemma entries_not_connected [simp]:
  "grace_kept d (connected_disconnect after s)"
  "grace_kept d (new_state (error_enter w cause s))"
  "grace_kept d (new_state (connecting_enter w retry s))"
proof -
  have error: "grace_kept d (new_state (error_enter w cause s))" for cause s
    by (simp add: error_enter_def new_state_def split: prod.split)
  have dial: "grace_kept d (new_state (connecting_dial w retry s))" for retry s
    using error
    by (simp add: connecting_dial_def start_tunnel_warren_def Let_def split: sum.split prod.split)
       (simp add: new_state_def)
  show "grace_kept d (connected_disconnect after s)"
    by (simp add: connected_disconnect_def disconnecting_enter_def new_state_def)
  show "grace_kept d (new_state (error_enter w cause s))" by (rule error)
  show "grace_kept d (new_state (connecting_enter w retry s))"
    using error dial by (simp add: connecting_enter_def split: prod.split option.split)
qed

lemma grace_reapply [simp]:
  "cd_offline_grace_deadline st = Some d \<Longrightarrow> grace_kept d (connected_reapply w st s)"
  by (simp add: connected_reapply_def split: prod.split sum.split)

lemma connected_grace_kept:
  assumes "cd_offline_grace_deadline st = Some d"
  shows "grace_kept d (handle_event w (StConnected st) r s)"
proof (cases r)
  case (RCommand c)
  show ?thesis
    using assms unfolding RCommand handle_event.simps connected_handle.simps
    by (cases "(w, st, c, s)" rule: connected_command.cases)
       (auto simp: Let_def split: prod.split bool.split sum.split GraceAction.split elim!: grace_action.elims)
next
  case (REvent e)
  show ?thesis
    using assms unfolding REvent handle_event.simps connected_handle.simps
    by (cases "(w, st, e, s)" rule: connected_tunnel_event.cases) (simp_all add: Let_def)
next
  case (RClose c)
  then show ?thesis
    by (simp add: connected_close_def split: option.split prod.split bool.split)
next
  case ROfflineGraceExpired
  then show ?thesis by simp
qed

text \<open>
  C17. Going offline while connected: a tunnel of one hop comes down to be blocked at once; a circuit
  of more hops is given fifteen seconds from the first report, which later reports do not extend, and
  is blocked when they run out offline; a deadline is dropped only once the host is online again.
\<close>

theorem offline_grace:
  assumes "handle_event w (StConnected st) r s = (s', c)"
  shows "(\<forall>conn. r = RCommand (Some (CmdConnectivity conn)) \<and> is_offline conn \<longrightarrow>
       (if is_multi_hop (cd_params st)
        then c = SameState (StConnected (case cd_offline_grace_deadline st of
               Some _ \<Rightarrow> st
             | None \<Rightarrow> st\<lparr>cd_offline_grace_deadline := Some (wa_now (answer w s) + from_secs 15)\<rparr>))
        else c = NewState (StDisconnecting (AfterBlock IsOffline)) (TrDisconnecting ActBlock))) \<and>
     (r = ROfflineGraceExpired \<and> is_offline (sv_connectivity s) \<longrightarrow>
       c = NewState (StDisconnecting (AfterBlock IsOffline)) (TrDisconnecting ActBlock)) \<and>
     (\<forall>d st'. cd_offline_grace_deadline st = Some d \<and> (c = SameState (StConnected st') \<or> (\<exists>t. c = NewState (StConnected st') t)) \<longrightarrow>
       cd_offline_grace_deadline st' = Some d \<or>
       cd_offline_grace_deadline st' = None \<and> \<not> is_offline (sv_connectivity s'))"
proof -
  have first: "c = (if is_multi_hop (cd_params st)
        then SameState (StConnected (case cd_offline_grace_deadline st of
               Some _ \<Rightarrow> st
             | None \<Rightarrow> st\<lparr>cd_offline_grace_deadline := Some (wa_now (answer w s) + from_secs 15)\<rparr>))
        else NewState (StDisconnecting (AfterBlock IsOffline)) (TrDisconnecting ActBlock))"
    if "r = RCommand (Some (CmdConnectivity conn))" "is_offline conn" for conn
    using assms that
    by (cases "cd_offline_grace_deadline st"; cases "is_multi_hop (cd_params st)")
       (simp_all add: Let_def connected_disconnect_def disconnecting_enter_def new_state_def OFFLINE_GRACE_def answer_def)
  have second: "c = NewState (StDisconnecting (AfterBlock IsOffline)) (TrDisconnecting ActBlock)"
    if "r = ROfflineGraceExpired" "is_offline (sv_connectivity s)"
    using assms that by (simp add: connected_disconnect_def disconnecting_enter_def new_state_def)
  have third: "cd_offline_grace_deadline st' = Some d \<or>
       cd_offline_grace_deadline st' = None \<and> \<not> is_offline (sv_connectivity s')"
    if "cd_offline_grace_deadline st = Some d" "c = SameState (StConnected st') \<or> (\<exists>t. c = NewState (StConnected st') t)"
    for d st'
    using connected_grace_kept [OF that(1), of w r s] assms that(2) by auto
  from first second third show ?thesis by (auto split: if_splits)
qed

definition sample_connected_state :: ConnectedState where
  "sample_connected_state =
     \<lparr>cd_metadata = sample_tunnel, cd_params = from_params sample_params, cd_offline_grace_deadline = None,
      cd_peer_endpoints = []\<rparr>"

theorem offline_grace_witness:
  "\<exists>s'. handle_event sample_world (StConnected sample_connected_state)
      (RCommand (Some (CmdConnectivity Offline)))
      (initial_shared ''warren'' sample_kernel sample_ids sample_settings PresumeOnline) =
    (s', SameState (StConnected (sample_connected_state\<lparr>cd_offline_grace_deadline := Some (from_secs 15)\<rparr>)))"
proof -
  let ?s = "initial_shared ''warren'' sample_kernel sample_ids sample_settings PresumeOnline"
  obtain s' c where h: "handle_event sample_world (StConnected sample_connected_state)
      (RCommand (Some (CmdConnectivity Offline))) ?s = (s', c)"
    by (cases "handle_event sample_world (StConnected sample_connected_state)
      (RCommand (Some (CmdConnectivity Offline))) ?s")
  from offline_grace [OF h] have "c = SameState (StConnected
      (sample_connected_state\<lparr>cd_offline_grace_deadline := Some (from_secs 15)\<rparr>))"
    by (simp add: sample_connected_state_def is_offline_def is_multi_hop_def from_params_def sample_params_def
        sample_hops_def sample_answer_def)
  with h show ?thesis by blast
qed

section \<open>Leaving the error state\<close>

text \<open>
  The error state is left for the disconnected state exactly when the user disconnects or the
  daemon stops sending commands, and a new attempt is made exactly when the user connects or the
  host gets back what the cause was about: IPv4 after going offline, or the missing address family.
  Any other event keeps the machine in the error state, with the cause it had unless a new one is
  asked for.
\<close>

theorem error_state_left:
  "\<exists>s'. handle_event w (StError cause) (RCommand c) s =
     (case c of
        None \<Rightarrow> new_state (disconnected_enter w True s')
      | Some CmdDisconnect \<Rightarrow> new_state (disconnected_enter w True s')
      | Some CmdConnect \<Rightarrow> new_state (connecting_enter w 0 s')
      | Some (CmdBlock reason) \<Rightarrow> new_state (error_enter w reason s')
      | Some (CmdConnectivity conn) \<Rightarrow>
          if conn_has_ipv4 conn \<and> cause = IsOffline \<or>
             (\<exists>family. conn_has_family conn family \<and> cause = TunnelParameterError (IpVersionUnavailable family))
          then new_state (connecting_enter w 0 s') else (s', SameState (StError cause))
      | _ \<Rightarrow> (s', SameState (StError cause)))"
proof (cases "(w, cause, c, s)" rule: error_command.cases)
  case (6 w cause conn s)
  have offline: "\<not> conn_has_ipv4 conn" "\<not> conn_has_family conn family" if "is_offline conn" for family
    using that by (cases conn; cases family; simp add: is_offline_def conn_has_ipv4_def conn_has_ipv6_def)+
  have "reconnects_on_connectivity cause conn \<longleftrightarrow> conn_has_ipv4 conn \<and> cause = IsOffline \<or>
      (\<exists>family. conn_has_family conn family \<and> cause = TunnelParameterError (IpVersionUnavailable family))"
    using offline
    by (auto simp: reconnects_on_connectivity_def split: ErrorStateCause.splits ParameterGenerationError.splits)
  with 6 show ?thesis by (auto simp: Let_def)
qed (auto split: prod.split)

end
