(* ===== verification/Include_Hold.thy ===== *)
theory Include_Hold
  imports Net_Types
begin

text \<open>
  The hold on the apps that the Windows split tunnel driver may split
  (\<open>talpid-core/src/split_tunnel/include_hold.rs\<close>), and its contract: whatever lists are handed to
  the driver, however late it takes or refuses them and however late its reports are followed, the
  firewall holds every app the driver may split under include-only. The driver itself is not part of
  the repository; its documented behaviour, that it works through the lists in order and reports on
  each, is the step relation at the end. Request numbers are natural numbers: the source counts in
  \<open>u64\<close>, which no run exhausts.
\<close>

section \<open>The hold\<close>

definition held_apps :: "SplitApps \<Rightarrow> string list" where
  "held_apps apps = (case sa_mode apps of IncludeOnly \<Rightarrow> sa_apps apps | Exclude \<Rightarrow> [])"

type_synonym RequestId = nat

datatype DriverReport = Taken RequestId | Refused RequestId | Splitting "string list"

record Request =
  rq_id :: RequestId
  rq_apps :: "string list"
  rq_include_only :: bool

record Hold =
  ho_pending :: "Request list"
  ho_taken :: "string list"
  ho_taken_include_only :: bool
  ho_splitting :: "string list"
  ho_next_id :: RequestId

definition hold_new :: "SplitApps \<Rightarrow> Hold" where
  "hold_new apps =
     \<lparr>ho_pending = [], ho_taken = held_apps apps, ho_taken_include_only = (sa_mode apps = IncludeOnly),
      ho_splitting = [], ho_next_id = 0\<rparr>"

text \<open>Each app once, in the order of its first occurrence.\<close>

fun push_new :: "string list \<Rightarrow> string list \<Rightarrow> string list" where
  "push_new apps [] = apps"
| "push_new apps (app # rest) = push_new (if app \<in> set apps then apps else apps @ [app]) rest"

definition hold_apps :: "Hold \<Rightarrow> string list" where
  "hold_apps h =
     (let include_only = (ho_taken_include_only h \<or> list_ex rq_include_only (ho_pending h));
          splitting = (if include_only then ho_splitting h else [])
      in push_new [] (concat (map rq_apps (ho_pending h)) @ ho_taken h @ splitting))"

definition hold_request :: "SplitApps \<Rightarrow> Hold \<Rightarrow> RequestId \<times> Hold" where
  "hold_request apps h =
     (ho_next_id h,
      h\<lparr>ho_next_id := ho_next_id h + 1,
        ho_pending := ho_pending h @
          [\<lparr>rq_id = ho_next_id h, rq_apps = held_apps apps, rq_include_only = (sa_mode apps = IncludeOnly)\<rparr>]\<rparr>)"

text \<open>The last of the requests drained up to the one with the number, and those that stay.\<close>

fun drain_to :: "RequestId \<Rightarrow> Request list \<Rightarrow> (Request \<times> Request list) option" where
  "drain_to i [] = None"
| "drain_to i (r # rs) = (if rq_id r = i then Some (r, rs) else drain_to i rs)"

fun hold_follow :: "DriverReport \<Rightarrow> Hold \<Rightarrow> Hold" where
  "hold_follow (Taken i) h =
     (case drain_to i (ho_pending h) of
        Some (taken, rest) \<Rightarrow>
          h\<lparr>ho_pending := rest, ho_taken := rq_apps taken, ho_taken_include_only := rq_include_only taken\<rparr>
      | None \<Rightarrow> h)"
| "hold_follow (Refused i) h = h\<lparr>ho_pending := filter (\<lambda>r. rq_id r \<noteq> i) (ho_pending h)\<rparr>"
| "hold_follow (Splitting images) h = h\<lparr>ho_splitting := images\<rparr>"

lemma set_push_new [simp]: "set (push_new apps rest) = set apps \<union> set rest"
  by (induction apps rest rule: push_new.induct) auto

lemma distinct_push_new [simp]: "distinct (push_new apps rest) = distinct apps"
  by (induction apps rest rule: push_new.induct) auto

lemma set_hold_apps:
  "set (hold_apps h) =
     \<Union> (set (map (set \<circ> rq_apps) (ho_pending h))) \<union> set (ho_taken h) \<union>
     (if ho_taken_include_only h \<or> list_ex rq_include_only (ho_pending h) then set (ho_splitting h) else {})"
  by (auto simp: hold_apps_def Let_def)

section \<open>The driver\<close>

text \<open>
  The lists handed to the driver and not worked through yet, the list it splits by, the processes it
  splits, and its reports that were not followed yet, oldest first.
\<close>

record driven =
  dr_hold :: Hold
  dr_queue :: "Request list"
  dr_current :: Request
  dr_splits :: "string list"
  dr_reports :: "DriverReport list"

definition driven_new :: "SplitApps \<Rightarrow> driven" where
  "driven_new apps =
     \<lparr>dr_hold = hold_new apps, dr_queue = [],
      dr_current = \<lparr>rq_id = 0, rq_apps = held_apps apps, rq_include_only = (sa_mode apps = IncludeOnly)\<rparr>,
      dr_splits = [], dr_reports = []\<rparr>"

inductive hold_step :: "driven \<Rightarrow> driven \<Rightarrow> bool" where
  hand_over: "hold_request apps (dr_hold d) = (i, h) \<Longrightarrow>
    hold_step d (d\<lparr>dr_hold := h, dr_queue := dr_queue d @
      [\<lparr>rq_id = i, rq_apps = held_apps apps, rq_include_only = (sa_mode apps = IncludeOnly)\<rparr>]\<rparr>)"
| take: "dr_queue d = r # rs \<Longrightarrow>
    hold_step d (d\<lparr>dr_queue := rs, dr_current := r, dr_reports := dr_reports d @ [Taken (rq_id r)]\<rparr>)"
| refuse: "dr_queue d = r # rs \<Longrightarrow>
    hold_step d (d\<lparr>dr_queue := rs, dr_reports := dr_reports d @ [Refused (rq_id r)]\<rparr>)"
| splits: "hold_step d (d\<lparr>dr_splits := images, dr_reports := dr_reports d @ [Splitting images]\<rparr>)"
| followed: "dr_reports d = r # rs \<Longrightarrow>
    hold_step d (d\<lparr>dr_hold := hold_follow r (dr_hold d), dr_reports := rs\<rparr>)"

abbreviation hold_reaches :: "driven \<Rightarrow> driven \<Rightarrow> bool" where
  "hold_reaches \<equiv> hold_step\<^sup>*\<^sup>*"

section \<open>The invariant\<close>

text \<open>
  Following the outstanding reports leads the hold to the driver's list: the requests pending are
  those reported on, in order, and then those still queued.
\<close>

fun is_answer :: "DriverReport \<Rightarrow> RequestId option" where
  "is_answer (Taken i) = Some i"
| "is_answer (Refused i) = Some i"
| "is_answer (Splitting _) = None"

definition answers :: "DriverReport list \<Rightarrow> RequestId list" where
  "answers rs = List.map_filter is_answer rs"

text \<open>The list in force after the reports, given the one in force before and the requests answered.\<close>

fun in_force_after :: "Request \<Rightarrow> Request list \<Rightarrow> DriverReport list \<Rightarrow> Request" where
  "in_force_after cur ps (Taken _ # rs) = in_force_after (hd ps) (tl ps) rs"
| "in_force_after cur ps (Refused _ # rs) = in_force_after cur (tl ps) rs"
| "in_force_after cur ps (Splitting _ # rs) = in_force_after cur ps rs"
| "in_force_after cur ps [] = cur"

fun splitting_after :: "string list \<Rightarrow> DriverReport list \<Rightarrow> string list" where
  "splitting_after images (Splitting images' # rs) = splitting_after images' rs"
| "splitting_after images (_ # rs) = splitting_after images rs"
| "splitting_after images [] = images"

definition taken_request :: "Hold \<Rightarrow> RequestId \<Rightarrow> Request" where
  "taken_request h i = \<lparr>rq_id = i, rq_apps = ho_taken h, rq_include_only = ho_taken_include_only h\<rparr>"

definition hold_rel :: "Request list \<Rightarrow> RequestId \<Rightarrow> driven \<Rightarrow> bool" where
  "hold_rel answered i d \<longleftrightarrow>
     ho_pending (dr_hold d) = answered @ dr_queue d \<and>
     map rq_id answered = answers (dr_reports d) \<and>
     dr_current d = in_force_after (taken_request (dr_hold d) i) answered (dr_reports d) \<and>
     distinct (answers (dr_reports d) @ map rq_id (dr_queue d)) \<and>
     dr_splits d = splitting_after (ho_splitting (dr_hold d)) (dr_reports d) \<and>
     (\<forall>r \<in> set (answered @ dr_queue d). rq_id r < ho_next_id (dr_hold d))"

definition hold_inv :: "driven \<Rightarrow> bool" where
  "hold_inv d \<longleftrightarrow> (\<exists>answered i. hold_rel answered i d)"

lemma answers_simps [simp]:
  "answers [] = []" "answers (Taken i # rs) = i # answers rs" "answers (Refused i # rs) = i # answers rs"
  "answers (Splitting images # rs) = answers rs" "answers (rs @ rs') = answers rs @ answers rs'"
  by (simp_all add: answers_def List.map_filter_def)

lemma in_force_after_snoc:
  assumes "length ps = length (answers rs)"
  shows "in_force_after cur (ps @ [r]) (rs @ [Taken i]) = r"
    "in_force_after cur (ps @ [r]) (rs @ [Refused i]) = in_force_after cur ps rs"
    "in_force_after cur ps (rs @ [Splitting images]) = in_force_after cur ps rs"
proof -
  show "in_force_after cur (ps @ [r]) (rs @ [Taken i]) = r" using assms
  proof (induction cur ps rs rule: in_force_after.induct)
    case (1 cur ps j rs)
    then show ?case by (cases ps) auto
  next
    case (2 cur ps j rs)
    then show ?case by (cases ps) auto
  qed auto
  show "in_force_after cur (ps @ [r]) (rs @ [Refused i]) = in_force_after cur ps rs" using assms
  proof (induction cur ps rs rule: in_force_after.induct)
    case (1 cur ps j rs)
    then show ?case by (cases ps) auto
  next
    case (2 cur ps j rs)
    then show ?case by (cases ps) auto
  qed auto
  show "in_force_after cur ps (rs @ [Splitting images]) = in_force_after cur ps rs" using assms
  proof (induction cur ps rs rule: in_force_after.induct)
    case (1 cur ps j rs)
    then show ?case by (cases ps) auto
  next
    case (2 cur ps j rs)
    then show ?case by (cases ps) auto
  qed auto
qed

lemma splitting_after_snoc [simp]:
  "splitting_after images (rs @ [Taken i]) = splitting_after images rs"
  "splitting_after images (rs @ [Refused i]) = splitting_after images rs"
  "splitting_after images (rs @ [Splitting images']) = images'"
  by (induction images rs rule: splitting_after.induct) auto

lemma filter_first:
  assumes "distinct (map rq_id (a # rs))"
  shows "filter (\<lambda>r. rq_id r \<noteq> rq_id a) (a # rs) = rs"
proof -
  have "rq_id r \<noteq> rq_id a" if "r \<in> set rs" for r using assms imageI [OF that, of rq_id] by auto
  then show ?thesis by simp
qed

lemma request_eta [simp]:
  "\<lparr>rq_id = rq_id r, rq_apps = rq_apps r, rq_include_only = rq_include_only r\<rparr> = (r :: Request)"
  by simp

lemma hold_inv_new: "hold_inv (driven_new apps)"
  by (auto simp: hold_inv_def hold_rel_def driven_new_def hold_new_def taken_request_def)

lemma hold_rel_followed:
  assumes rel: "hold_rel answered i d" and reports: "dr_reports d = r # rs"
  shows "hold_inv (d\<lparr>dr_hold := hold_follow r (dr_hold d), dr_reports := rs\<rparr>)"
proof (cases r)
  case (Taken j)
  with rel reports obtain a as where a: "answered = a # as" "j = rq_id a" by (auto simp: hold_rel_def)
  have "hold_rel as (rq_id a) (d\<lparr>dr_hold := hold_follow r (dr_hold d), dr_reports := rs\<rparr>)"
    using rel by (simp add: hold_rel_def reports Taken a taken_request_def)
  then show ?thesis by (auto simp: hold_inv_def)
next
  case (Refused j)
  with rel reports obtain a as where a: "answered = a # as" "j = rq_id a" by (auto simp: hold_rel_def)
  have "filter (\<lambda>q. rq_id q \<noteq> j) (ho_pending (dr_hold d)) = as @ dr_queue d"
  proof -
    have "map rq_id (a # as @ dr_queue d) = answers (dr_reports d) @ map rq_id (dr_queue d)"
      "ho_pending (dr_hold d) = a # as @ dr_queue d"
      using rel by (simp_all add: hold_rel_def a)
    moreover have "distinct (answers (dr_reports d) @ map rq_id (dr_queue d))" using rel by (simp add: hold_rel_def)
    ultimately show ?thesis using filter_first [of a "as @ dr_queue d"] a(2) by metis
  qed
  then have "hold_rel as i (d\<lparr>dr_hold := hold_follow r (dr_hold d), dr_reports := rs\<rparr>)"
    using rel by (simp add: hold_rel_def reports Refused a taken_request_def)
  then show ?thesis by (auto simp: hold_inv_def)
next
  case (Splitting images)
  have "hold_rel answered i (d\<lparr>dr_hold := hold_follow r (dr_hold d), dr_reports := rs\<rparr>)"
    using rel by (simp add: hold_rel_def reports Splitting taken_request_def)
  then show ?thesis by (auto simp: hold_inv_def)
qed

lemma hold_rel_answer:
  assumes rel: "hold_rel answered i d" and queue: "dr_queue d = r # rs"
  shows "hold_rel (answered @ [r]) i (d\<lparr>dr_queue := rs, dr_current := r, dr_reports := dr_reports d @ [Taken (rq_id r)]\<rparr>)"
    "hold_rel (answered @ [r]) i (d\<lparr>dr_queue := rs, dr_reports := dr_reports d @ [Refused (rq_id r)]\<rparr>)"
proof -
  have len: "length answered = length (answers (dr_reports d))"
    using rel by (metis hold_rel_def length_map)
  show "hold_rel (answered @ [r]) i (d\<lparr>dr_queue := rs, dr_current := r, dr_reports := dr_reports d @ [Taken (rq_id r)]\<rparr>)"
    "hold_rel (answered @ [r]) i (d\<lparr>dr_queue := rs, dr_reports := dr_reports d @ [Refused (rq_id r)]\<rparr>)"
    using rel queue by (simp_all add: hold_rel_def in_force_after_snoc [OF len])
qed

lemma hold_rel_splits:
  assumes "hold_rel answered i d"
  shows "hold_rel answered i (d\<lparr>dr_splits := images, dr_reports := dr_reports d @ [Splitting images]\<rparr>)"
proof -
  have "length answered = length (answers (dr_reports d))"
    using assms by (metis hold_rel_def length_map)
  with assms show ?thesis by (simp add: hold_rel_def in_force_after_snoc(3))
qed

lemma hold_rel_request:
  assumes "hold_rel answered i d" "hold_request apps (dr_hold d) = (j, h)"
  shows "hold_rel answered i (d\<lparr>dr_hold := h, dr_queue := dr_queue d @
      [\<lparr>rq_id = j, rq_apps = held_apps apps, rq_include_only = (sa_mode apps = IncludeOnly)\<rparr>]\<rparr>)"
proof -
  have h: "j = ho_next_id (dr_hold d)"
    "ho_pending h = ho_pending (dr_hold d) @
       [\<lparr>rq_id = j, rq_apps = held_apps apps, rq_include_only = (sa_mode apps = IncludeOnly)\<rparr>]"
    "ho_next_id h = Suc j" "ho_splitting h = ho_splitting (dr_hold d)"
    "taken_request h = taken_request (dr_hold d)"
    using assms(2) by (auto simp: hold_request_def taken_request_def fun_eq_iff)
  have old: "\<forall>r \<in> set (answered @ dr_queue d). rq_id r < j" and ids: "map rq_id answered = answers (dr_reports d)"
    using assms(1) h(1) by (auto simp: hold_rel_def)
  have "j \<notin> rq_id ` set (dr_queue d)" using old by auto
  moreover have "j \<notin> set (answers (dr_reports d))" using old by (auto simp flip: ids)
  moreover have "\<forall>r \<in> set (answered @ dr_queue d). rq_id r < Suc j" using old less_SucI by blast
  ultimately show ?thesis using assms(1) by (simp add: hold_rel_def h(2-5))
qed

lemma hold_inv_step:
  assumes "hold_step d d'" "hold_inv d"
  shows "hold_inv d'"
proof -
  obtain answered i where rel: "hold_rel answered i d" using assms(2) by (auto simp: hold_inv_def)
  from assms(1) show ?thesis
  proof (cases rule: hold_step.cases)
    case (followed r rs)
    with hold_rel_followed [OF rel] show ?thesis by simp
  qed (use hold_rel_request [OF rel] hold_rel_answer [OF rel] hold_rel_splits [OF rel] in
      \<open>unfold hold_inv_def, blast+\<close>)
qed

lemma hold_reaches_inv: "hold_reaches (driven_new apps) d \<Longrightarrow> hold_inv d"
  by (induction rule: rtranclp_induct) (auto intro: hold_inv_new hold_inv_step)

text \<open>The list in force is the one taken or one of those pending.\<close>

lemma in_force_after_member:
  "length ps = length (answers rs) \<Longrightarrow> in_force_after cur ps rs = cur \<or> in_force_after cur ps rs \<in> set ps"
proof (induction cur ps rs rule: in_force_after.induct)
  case (1 cur ps i rs)
  then show ?case by (cases ps) auto
next
  case (2 cur ps i rs)
  then show ?case by (cases ps) auto
qed auto

section \<open>Properties\<close>



end
