(* ===== verification/Watchers.thy ===== *)
theory Watchers
  imports Tailnet
begin

text \<open>
  The two tasks that turn what the host announces into commands of the tunnel state machine: the
  debounce of connectivity reports (\<open>run_connectivity_debounce\<close> in
  \<open>talpid-core/src/tunnel_state_machine/mod.rs\<close>) and the watch on tailnet interfaces
  (\<open>tailnet_watch.rs\<close>). A stream is the list of its items with their instants of arrival and the
  instant at which it closes, if it does; \<open>alive\<close> says whether the state machine still takes
  commands. A task that awaits an item and a timer which become ready together takes the item.
\<close>

section \<open>Connectivity debounce\<close>

type_synonym report = "instant \<times> Connectivity"

definition CONNECTIVITY_ONLINE_SETTLE :: duration where
  "CONNECTIVITY_ONLINE_SETTLE = from_millis 1000"

definition closed_by :: "instant option \<Rightarrow> instant \<Rightarrow> bool" where
  "closed_by closed t = (case closed of Some e \<Rightarrow> e \<le> t | None \<Rightarrow> False)"

fun run_connectivity_debounce ::
    "(instant \<Rightarrow> bool) \<Rightarrow> duration \<Rightarrow> instant option \<Rightarrow> report option \<Rightarrow> report list \<Rightarrow> report list" where
  "run_connectivity_debounce alive online_settle closed None [] = []"
| "run_connectivity_debounce alive online_settle closed (Some (t0, pending)) [] =
     (if closed_by closed (t0 + online_settle) then []
      else if alive (t0 + online_settle) then [(t0 + online_settle, pending)] else [])"
| "run_connectivity_debounce alive online_settle closed None ((t, connectivity) # rs) =
     (if is_offline connectivity
      then if alive t then (t, connectivity) # run_connectivity_debounce alive online_settle closed None rs else []
      else run_connectivity_debounce alive online_settle closed (Some (t, connectivity)) rs)"
| "run_connectivity_debounce alive online_settle closed (Some (t0, pending)) ((t, connectivity) # rs) =
     (if t0 + online_settle < t
      then if alive (t0 + online_settle)
           then (t0 + online_settle, pending) #
                (if is_offline connectivity
                 then if alive t then (t, connectivity) # run_connectivity_debounce alive online_settle closed None rs
                      else []
                 else run_connectivity_debounce alive online_settle closed (Some (t, connectivity)) rs)
           else []
      else if is_offline connectivity
      then if alive t then (t, connectivity) # run_connectivity_debounce alive online_settle closed None rs else []
      else run_connectivity_debounce alive online_settle closed (Some (t, connectivity)) rs)"

text \<open>The specification: each report by itself, given when the next one arrives.\<close>

definition quiet_until :: "instant option \<Rightarrow> report list \<Rightarrow> instant \<Rightarrow> bool" where
  "quiet_until closed rs t \<longleftrightarrow> (case rs of [] \<Rightarrow> \<not> closed_by closed t | (t', _) # _ \<Rightarrow> t < t')"

definition forwards :: "duration \<Rightarrow> instant option \<Rightarrow> instant \<Rightarrow> Connectivity \<Rightarrow> report list \<Rightarrow> report list" where
  "forwards settle closed t c rs =
     (if is_offline c then [(t, c)]
      else if quiet_until closed rs (t + settle) then [(t + settle, c)] else [])"

fun debounced :: "duration \<Rightarrow> instant option \<Rightarrow> report list \<Rightarrow> report list" where
  "debounced settle closed [] = []"
| "debounced settle closed ((t, c) # rs) = forwards settle closed t c rs @ debounced settle closed rs"

lemma debounce_takes:
  "run_connectivity_debounce alive settle closed None rs = takeWhile (alive \<circ> fst) (debounced settle closed rs)"
  "\<not> is_offline c \<Longrightarrow> run_connectivity_debounce alive settle closed (Some (t, c)) rs =
     takeWhile (alive \<circ> fst) (debounced settle closed ((t, c) # rs))"
proof (induction rs arbitrary: t c)
  case Nil
  case 1
  show ?case by simp
next
  case Nil
  case 2
  then show ?case by (simp add: forwards_def quiet_until_def)
next
  case (Cons r rs)
  obtain t' c' where r: "r = (t', c')" by (cases r)
  {
    case 1
    show ?case
    proof (cases "is_offline c'")
      case True
      with Cons.IH(1) show ?thesis by (simp add: r forwards_def)
    next
      case False
      with Cons.IH(2) [OF False, of t'] show ?thesis by (simp add: r)
    qed
  next
    case 2
    show ?case
    proof (cases "is_offline c'")
      case True
      with 2 Cons.IH(1) show ?thesis by (simp add: r forwards_def quiet_until_def)
    next
      case False
      with 2 Cons.IH(2) [OF False, of t'] show ?thesis by (simp add: r forwards_def quiet_until_def)
    qed
  }
qed

lemma debounced_offline: "(t, c) \<in> set rs \<Longrightarrow> is_offline c \<Longrightarrow> (t, c) \<in> set (debounced settle closed rs)"
  by (induction settle closed rs rule: debounced.induct) (auto simp: forwards_def)

lemma debounced_online:
  assumes "sorted (map fst rs)" "(t, c) \<in> set (debounced settle closed rs)" "\<not> is_offline c"
  shows "\<exists>t0. (t0, c) \<in> set rs \<and> t = t0 + settle \<and> (\<forall>(t', c') \<in> set rs. t' \<le> t0 \<or> t < t')"
  using assms
proof (induction settle closed rs rule: debounced.induct)
  case (2 settle closed t1 c1 rs)
  show ?case
  proof (cases "(t, c) \<in> set (forwards settle closed t1 c1 rs)")
    case True
    with 2(4) have t: "t = t1 + settle" "c = c1" "quiet_until closed rs (t1 + settle)"
      by (auto simp: forwards_def split: if_splits)
    have "\<forall>(t', c') \<in> set rs. t < t'"
      using t(1,3) 2(2) by (cases rs) (fastforce simp: quiet_until_def)+
    with t show ?thesis by (intro exI [of _ t1]) auto
  next
    case False
    with 2 obtain t0 where t0: "(t0, c) \<in> set rs" "t = t0 + settle" "\<forall>(t', c') \<in> set rs. t' \<le> t0 \<or> t < t'"
      by auto
    moreover have "t1 \<le> t0" using 2(2) t0(1) by force
    ultimately show ?thesis by (intro exI [of _ t0]) auto
  qed
qed simp

text \<open>
  C25. The debounce of connectivity: what the state machine is told is exactly what the
  specification forwards report by report, cut off when the machine is gone. So a report of being
  offline is forwarded the instant it arrives, and a report of being online only after the settle
  time, if nothing else was reported meanwhile: a burst that ends offline never reaches the machine
  as online.
\<close>

theorem debounce_exact:
  assumes "sorted (map fst rs)"
  shows "run_connectivity_debounce alive settle closed None rs =
       takeWhile (alive \<circ> fst) (debounced settle closed rs) \<and>
     (\<forall>(t, c) \<in> set rs. is_offline c \<longrightarrow> (t, c) \<in> set (debounced settle closed rs)) \<and>
     (\<forall>(t, c) \<in> set (run_connectivity_debounce alive settle closed None rs). \<not> is_offline c \<longrightarrow>
        (\<exists>t0. (t0, c) \<in> set rs \<and> t = t0 + settle \<and> (\<forall>(t', c') \<in> set rs. t' \<le> t0 \<or> t < t')))"
  using debounced_offline debounced_online [OF assms] set_takeWhileD
  by (fastforce simp: debounce_takes(1))

theorem debounce_exact_witness:
  "run_connectivity_debounce (\<lambda>_. True) CONNECTIVITY_ONLINE_SETTLE None None
     [(0, PresumeOnline), (from_millis 400, Offline), (from_millis 500, PresumeOnline), (from_millis 900, PresumeOnline)] =
   [(from_millis 400, Offline), (from_millis 1900, PresumeOnline)] \<and>
   (from_millis 400, Offline) \<in> set (debounced CONNECTIVITY_ONLINE_SETTLE None
     [(0, PresumeOnline), (from_millis 400, Offline), (from_millis 500, PresumeOnline), (from_millis 900, PresumeOnline)])"
proof -
  let ?rs = "[(0, PresumeOnline), (from_millis 400, Offline), (from_millis 500, PresumeOnline),
     (from_millis 900, PresumeOnline)]"
  have "sorted (map fst ?rs)" by (simp add: from_millis_def)
  from debounce_exact [OF this] have "(from_millis 400, Offline) \<in> set (debounced CONNECTIVITY_ONLINE_SETTLE None ?rs)"
    by (simp add: is_offline_def)
  then show ?thesis
    by (simp add: CONNECTIVITY_ONLINE_SETTLE_def from_millis_def is_offline_def closed_by_def)
qed

section \<open>Tailnet watch\<close>

definition SETTLE :: duration where "SETTLE = from_millis 500"
definition LONGEST_SETTLE :: duration where "LONGEST_SETTLE = from_secs 5"

text \<open>
  Waiting for a burst that began at \<open>burst_start\<close> to go quiet: the instant of the read and the events
  left, or nothing when the stream closes first.
\<close>

fun settle_burst ::
    "duration \<Rightarrow> instant option \<Rightarrow> instant \<Rightarrow> instant \<Rightarrow> instant list \<Rightarrow> (instant \<times> instant list) option" where
  "settle_burst settle closed burst_start now [] =
     (if duration_since now burst_start \<ge> LONGEST_SETTLE then Some (now, [])
      else if closed_by closed (now + settle) then None else Some (now + settle, []))"
| "settle_burst settle closed burst_start now (t # ts) =
     (if duration_since now burst_start \<ge> LONGEST_SETTLE then Some (now, t # ts)
      else if t \<le> now + settle then settle_burst settle closed burst_start t ts
      else Some (now + settle, t # ts))"

lemma settle_burst_shorter:
  "settle_burst settle closed burst_start now ts = Some (t, ts') \<Longrightarrow> length ts' \<le> length ts"
  by (induction settle closed burst_start now ts rule: settle_burst.induct) (auto split: if_splits)

function run_tailnet_watch ::
    "(instant \<Rightarrow> bool) \<Rightarrow> (instant \<Rightarrow> string list) \<Rightarrow> duration \<Rightarrow> instant option \<Rightarrow> SetTracker \<Rightarrow> instant list \<Rightarrow> instant list" where
  "run_tailnet_watch alive read_set settle closed tracker [] = []"
| "run_tailnet_watch alive read_set settle closed tracker (t # ts) =
     (case settle_burst settle closed t t ts of
        None \<Rightarrow> []
      | Some (now, rest) \<Rightarrow>
          (case set_tracker_observe tracker (read_set now) of
             (tracker', True) \<Rightarrow>
               if alive now then now # run_tailnet_watch alive read_set settle closed tracker' rest else []
           | (tracker', False) \<Rightarrow> run_tailnet_watch alive read_set settle closed tracker' rest))"
  by pat_completeness auto
termination
  by (relation "measure (\<lambda>(_, _, _, _, _, ts). length ts)") (auto dest!: settle_burst_shorter)

text \<open>The bursts of a stream: when each began and when the interfaces were read for it.\<close>

function bursts :: "duration \<Rightarrow> instant option \<Rightarrow> instant list \<Rightarrow> (instant \<times> instant) list" where
  "bursts settle closed [] = []"
| "bursts settle closed (t # ts) =
     (case settle_burst settle closed t t ts of
        None \<Rightarrow> []
      | Some (now, rest) \<Rightarrow> (t, now) # bursts settle closed rest)"
  by pat_completeness auto
termination
  by (relation "measure (\<lambda>(_, _, ts). length ts)") (auto dest!: settle_burst_shorter)

text \<open>The instants among the given ones at which a value differs from the one before it.\<close>

fun change_times :: "('t \<Rightarrow> 'a) \<Rightarrow> 'a \<Rightarrow> 't list \<Rightarrow> 't list" where
  "change_times f v [] = []"
| "change_times f v (t # ts) = (if f t = v then change_times f v ts else t # change_times f (f t) ts)"

lemma settle_burst_suffix:
  "settle_burst settle closed start now ts = Some (t, rest) \<Longrightarrow> set rest \<subseteq> set ts"
  by (induction settle closed start now ts rule: settle_burst.induct) (auto split: if_splits)

lemma settle_burst_open: "closed = None \<Longrightarrow> \<exists>now rest. settle_burst settle closed start t ts = Some (now, rest)"
  by (induction settle closed start t ts rule: settle_burst.induct) (auto simp: closed_by_def)

lemma settle_burst_now:
  "settle_burst settle closed start now ts = Some (t, rest) \<Longrightarrow> sorted (now # ts) \<Longrightarrow> now \<le> t"
proof (induction settle closed start now ts rule: settle_burst.induct)
  case (2 settle closed start now t1 ts)
  then show ?case by (fastforce split: if_splits)
qed (auto split: if_splits)

lemma settle_burst_rest:
  "settle_burst settle closed start now ts = Some (t, rest) \<Longrightarrow> sorted (now # ts) \<Longrightarrow> e \<in> set ts \<Longrightarrow> t < e \<Longrightarrow> e \<in> set rest"
proof (induction settle closed start now ts rule: settle_burst.induct)
  case (2 settle closed start now t1 ts)
  then show ?case
    using settle_burst_now [of settle closed start t1 ts t rest] by (auto split: if_splits)
qed simp

lemma settle_burst_bounds:
  assumes "settle_burst settle closed start now ts = Some (t, rest)" "start \<le> now"
    "now \<le> start + LONGEST_SETTLE + settle" "sorted (now # ts)"
  shows "start \<le> t \<and> t \<le> start + LONGEST_SETTLE + settle \<and> sorted rest"
  using assms
  by (induction settle closed start now ts rule: settle_burst.induct)
     (auto simp: duration_since_def split: if_splits)

lemma watch_changes:
  "run_tailnet_watch alive read_set settle closed tracker ts =
     takeWhile alive (change_times read_set (st_last tracker) (map snd (bursts settle closed ts)))"
proof (induction ts arbitrary: tracker rule: length_induct)
  case (1 ts)
  show ?case
  proof (cases ts)
    case (Cons t ts1)
    show ?thesis
    proof (cases "settle_burst settle closed t t ts1")
      case (Some r)
      obtain now rest where r: "r = (now, rest)" by (cases r)
      have "length rest < length ts" using settle_burst_shorter [OF Some [unfolded r]] Cons by simp
      with 1 have "run_tailnet_watch alive read_set settle closed tracker' rest =
          takeWhile alive (change_times read_set (st_last tracker') (map snd (bursts settle closed rest)))" for tracker'
        by blast
      with Some r Cons show ?thesis by (simp add: set_tracker_observe_def)
    qed (simp add: Cons)
  qed simp
qed

lemma bursts_bounds:
  assumes "sorted ts" "(start, t) \<in> set (bursts settle closed ts)"
  shows "start \<in> set ts \<and> start \<le> t \<and> t \<le> start + LONGEST_SETTLE + settle"
  using assms
proof (induction ts rule: length_induct)
  case (1 ts)
  show ?case
  proof (cases ts)
    case Nil
    with 1 show ?thesis by simp
  next
    case (Cons t1 ts1)
    with 1(3) obtain now rest where r: "settle_burst settle closed t1 t1 ts1 = Some (now, rest)"
      and m: "(start, t) = (t1, now) \<or> (start, t) \<in> set (bursts settle closed rest)"
      by (cases "settle_burst settle closed t1 t1 ts1") auto
    have b: "t1 \<le> now" "now \<le> t1 + LONGEST_SETTLE + settle" "sorted rest"
      using settle_burst_bounds [OF r] 1(2) Cons by auto
    have "length rest < length ts" "set rest \<subseteq> set ts"
      using settle_burst_shorter [OF r] settle_burst_suffix [OF r] Cons by auto
    with 1(1) b m Cons show ?thesis by fastforce
  qed
qed

text \<open>Every event falls into a burst unless the stream closes during the burst it belongs to.\<close>

lemma bursts_cover:
  assumes "sorted ts" "closed = None" "e \<in> set ts"
  shows "\<exists>(start, t) \<in> set (bursts settle closed ts). start \<le> e \<and> e \<le> t"
  using assms
proof (induction ts rule: length_induct)
  case (1 ts)
  then obtain t1 ts1 where Cons: "ts = t1 # ts1" by (cases ts) auto
  obtain now rest where r: "settle_burst settle closed t1 t1 ts1 = Some (now, rest)"
    using settle_burst_open [OF 1(3)] by fast
  show ?case
  proof (cases "e \<le> now")
    case True
    with 1(2,4) r Cons show ?thesis by auto
  next
    case False
    then have "e \<in> set rest" using settle_burst_rest [OF r] 1(2,4) Cons settle_burst_bounds [OF r] by auto
    moreover have "length rest < length ts" "sorted rest"
      using settle_burst_shorter [OF r] settle_burst_bounds [OF r] 1(2) Cons by auto
    ultimately have "\<exists>(start, t) \<in> set (bursts settle closed rest). start \<le> e \<and> e \<le> t"
      using 1(1,3) by blast
    with r Cons show ?thesis by auto
  qed
qed



end
