(* ===== verification/Bytes.thy ===== *)
theory Bytes
  imports Prelude
begin

text \<open>
  Byte buffers as the packet code handles them: Rust's indexing and slicing, which panic out of range,
  the big-endian conversions of \<open>u16\<close>, \<open>u32\<close> and the addresses, and the words of the Internet
  checksum. A panic is the value \<^const>\<open>None\<close> of the outer option of an outcome, so that a theorem
  can say that none happens.
\<close>

unbundle bit_operations_syntax

type_synonym byte = "8 word"
type_synonym bytes = "byte list"
type_synonym ('e, 'a) outcome = "('e, 'a) result option"

named_theorems byte_simps "indexing, slicing and overwriting of buffers in range"

section \<open>Outcomes\<close>

text \<open>\<open>e?\<close> where evaluating \<open>e\<close> may panic, and a panicking operation before a fallible rest.\<close>

definition obind :: "('e, 'a) outcome \<Rightarrow> ('a \<Rightarrow> ('e, 'b) outcome) \<Rightarrow> ('e, 'b) outcome" where
  "obind r f = (case r of None \<Rightarrow> None | Some (Inl e) \<Rightarrow> Some (Inl e) | Some (Inr a) \<Rightarrow> f a)"

text \<open>\<open>option.ok_or(e)?\<close>\<close>

definition ok_or :: "'a option \<Rightarrow> 'e \<Rightarrow> ('e, 'a) outcome" where
  "ok_or x e = Some (case x of Some a \<Rightarrow> Inr a | None \<Rightarrow> Inl e)"

lemma obind_simps [simp]:
  "obind None f = None" "obind (Some (Inl e)) f = Some (Inl e)" "obind (Some (Inr a)) f = f a"
  by (simp_all add: obind_def)

lemma ok_or_simps [simp]: "ok_or (Some a) e = Some (Inr a)" "ok_or None e = Some (Inl e)"
  by (simp_all add: ok_or_def)

lemma obind_Ok_iff: "obind r f = Some (Inr b) \<longleftrightarrow> (\<exists>a. r = Some (Inr a) \<and> f a = Some (Inr b))"
  by (auto simp: obind_def split: option.splits sum.splits)

lemma obind_None_iff: "obind r f = None \<longleftrightarrow> r = None \<or> (\<exists>a. r = Some (Inr a) \<and> f a = None)"
  by (auto simp: obind_def split: option.splits sum.splits)

section \<open>Buffers\<close>

definition index :: "bytes \<Rightarrow> nat \<Rightarrow> byte option" where
  "index p i = (if i < length p then Some (p ! i) else None)"

text \<open>\<open>&p[a..b]\<close>, which panics, and \<open>p.get(a..b)\<close>, which does not: \<^const>\<open>None\<close> out of range.\<close>

definition slice :: "bytes \<Rightarrow> nat \<Rightarrow> nat \<Rightarrow> bytes option" where
  "slice p a b = (if a \<le> b \<and> b \<le> length p then Some (take (b - a) (drop a p)) else None)"

text \<open>\<open>p[at..at + bs.len()].copy_from_slice(bs)\<close>\<close>

definition overwrite :: "bytes \<Rightarrow> nat \<Rightarrow> bytes \<Rightarrow> bytes option" where
  "overwrite p at bs =
     (if at + length bs \<le> length p then Some (take at p @ bs @ drop (at + length bs) p) else None)"

lemma index_Some [byte_simps]: "i < length p \<Longrightarrow> index p i = Some (p ! i)"
  by (simp add: index_def)

lemma slice_Some [byte_simps]:
  "a \<le> b \<Longrightarrow> b \<le> length p \<Longrightarrow> slice p a b = Some (take (b - a) (drop a p))"
  by (simp add: slice_def)

lemma slice_SomeD:
  "slice p a b = Some s \<Longrightarrow> a \<le> b \<and> b \<le> length p \<and> s = take (b - a) (drop a p) \<and> length s = b - a"
  by (auto simp: slice_def split: if_splits)

lemma overwrite_Some [byte_simps]:
  "at + length bs \<le> length p \<Longrightarrow> overwrite p at bs = Some (take at p @ bs @ drop (at + length bs) p)"
  by (simp add: overwrite_def)

lemma overwrite_SomeD:
  assumes "overwrite p at bs = Some q"
  shows "at + length bs \<le> length p" "length q = length p"
    "q = take at p @ bs @ drop (at + length bs) p"
  using assms by (auto simp: overwrite_def split: if_splits)

lemma overwrite_nth:
  assumes "overwrite p at bs = Some q" "i < length p"
  shows "q ! i = (if at \<le> i \<and> i < at + length bs then bs ! (i - at) else p ! i)"
proof -
  note q = overwrite_SomeD [OF assms(1)]
  show ?thesis using q(1) assms(2) unfolding q(3) by (auto simp: nth_append)
qed

text \<open>What a slice reads after a write into it, and after one elsewhere.\<close>

lemma slice_overwrite_within:
  assumes "overwrite p at bs = Some q" "a \<le> at" "at + length bs \<le> b" "slice p a b = Some s"
  shows "\<exists>t. overwrite s (at - a) bs = Some t \<and> slice q a b = Some t"
proof -
  note q = overwrite_SomeD [OF assms(1)] and s = slice_SomeD [OF assms(4)]
  have len: "(at - a) + length bs \<le> length s" using s assms(2,3) by linarith
  define t where "t = take (at - a) s @ bs @ drop ((at - a) + length bs) s"
  have "slice q a b = Some (take (b - a) (drop a q))" using s q(2) by (simp add: slice_def)
  moreover have "take (b - a) (drop a q) = t"
  proof (rule nth_equalityI)
    show "length (take (b - a) (drop a q)) = length t"
      using s q(2) len unfolding t_def by auto
    fix i assume "i < length (take (b - a) (drop a q))"
    then have i: "i < b - a" "a + i < length p" using q(2) by auto
    have "take (b - a) (drop a q) ! i = q ! (a + i)" using i q(2) by simp
    also have "\<dots> = (if at \<le> a + i \<and> a + i < at + length bs then bs ! (a + i - at) else p ! (a + i))"
      using overwrite_nth [OF assms(1) i(2)] .
    also have "\<dots> = t ! i"
    proof -
      have si: "s ! i = p ! (a + i)" "i < length s" using s i by auto
      show ?thesis using assms(2,3) len si unfolding t_def
        by (auto simp: nth_append min_def not_less add.commute)
    qed
    finally show "take (b - a) (drop a q) ! i = t ! i" .
  qed
  ultimately show ?thesis using len by (auto simp: overwrite_def t_def)
qed

lemma slice_overwrite_disjoint:
  assumes "overwrite p at bs = Some q" "b \<le> at \<or> at + length bs \<le> a"
  shows "slice q a b = slice p a b"
proof (cases "a \<le> b \<and> b \<le> length p")
  case True
  note q = overwrite_SomeD [OF assms(1)]
  have "take (b - a) (drop a q) = take (b - a) (drop a p)"
  proof (rule nth_equalityI)
    show "length (take (b - a) (drop a q)) = length (take (b - a) (drop a p))" using q(2) by simp
    fix i assume "i < length (take (b - a) (drop a q))"
    then have i: "i < b - a" "a + i < length p" using q(2) by auto
    then show "take (b - a) (drop a q) ! i = take (b - a) (drop a p) ! i"
      using overwrite_nth [OF assms(1) i(2)] assms(2) q(2) by auto
  qed
  then show ?thesis using True q(2) by (simp add: slice_def)
next
  case False
  then show ?thesis using overwrite_SomeD(2) [OF assms(1)] by (auto simp: slice_def)
qed

lemma slice_cong_bytes:
  assumes "length p' = length p" "\<And>i. a \<le> i \<Longrightarrow> i < b \<Longrightarrow> p' ! i = p ! i"
  shows "slice p' a b = slice p a b"
proof (cases "a \<le> b \<and> b \<le> length p")
  case True
  then have "take (b - a) (drop a p') = take (b - a) (drop a p)"
    using assms by (auto intro!: nth_equalityI)
  then show ?thesis using assms(1) by (simp add: slice_def)
qed (use assms(1) in \<open>auto simp: slice_def\<close>)

lemma slice_overwrite_same:
  assumes "overwrite p at bs = Some q"
  shows "slice q at (at + length bs) = Some bs"
  using overwrite_SomeD [OF assms] by (simp add: slice_def)

lemma index_overwrite:
  assumes "overwrite p at bs = Some q"
  shows "index q i = (if at \<le> i \<and> i < at + length bs then Some (bs ! (i - at)) else index p i)"
  using overwrite_SomeD(1,2) [OF assms] overwrite_nth [OF assms, of i] by (auto simp: index_def)

text \<open>Writing back what was there restores the buffer.\<close>

lemma overwrite_restore:
  assumes "overwrite p at new = Some q" "slice p at (at + length new) = Some old"
  shows "overwrite q at old = Some p"
proof -
  note q = overwrite_SomeD [OF assms(1)] and s = slice_SomeD [OF assms(2)]
  have "take at q = take at p" "drop (at + length new) q = drop (at + length new) p"
      unfolding q(3) using q(1) by auto
  moreover have "length old = length new" using s by linarith
  moreover have "take at p @ old @ drop (at + length new) p = p"
    using s by (metis add_diff_cancel_left' append_take_drop_id drop_drop add.commute)
  ultimately show ?thesis using q(1,2) by (simp add: overwrite_def)
qed

section \<open>Big-endian integers\<close>

definition from_be :: "bytes \<Rightarrow> nat" where
  "from_be bs = foldl (\<lambda>n b. 256 * n + unat b) 0 bs"

primrec to_be :: "nat \<Rightarrow> nat \<Rightarrow> bytes" where
  "to_be 0 x = []"
| "to_be (Suc n) x = to_be n (x div 256) @ [word_of_nat x]"

definition u16_from_be :: "byte \<Rightarrow> byte \<Rightarrow> 16 word" where
  "u16_from_be a b = word_of_nat (from_be [a, b])"

definition u32_from_be :: "byte \<Rightarrow> byte \<Rightarrow> byte \<Rightarrow> byte \<Rightarrow> 32 word" where
  "u32_from_be a b c d = word_of_nat (from_be [a, b, c, d])"

definition u16_to_be :: "16 word \<Rightarrow> bytes" where
  "u16_to_be x = to_be 2 (unat x)"

definition u32_to_be :: "32 word \<Rightarrow> bytes" where
  "u32_to_be x = to_be 4 (unat x)"

lemma from_be_snoc: "from_be (bs @ [b]) = 256 * from_be bs + unat b"
  by (simp add: from_be_def)

lemma from_be_Nil [simp]: "from_be [] = 0"
  by (simp add: from_be_def)

lemma byte_bound: "unat (b :: byte) < 256"
  using unsigned_less [of b] by simp

lemma from_be_bound: "from_be bs < 256 ^ length bs"
proof (induction bs rule: rev_induct)
  case (snoc b bs)
  then have "256 * (from_be bs + 1) \<le> 256 * 256 ^ length bs" by simp
  then show ?case using byte_bound [of b] by (simp add: from_be_snoc)
qed simp

lemma length_to_be [simp]: "length (to_be n x) = n"
  by (induction n arbitrary: x) simp_all

lemma from_be_to_be: "from_be (to_be n x) = x mod 256 ^ n"
proof (induction n arbitrary: x)
  case (Suc n)
  have "unat (word_of_nat x :: byte) = x mod 256" by (simp add: unat_of_nat)
  moreover have "x mod 256 ^ Suc n = 256 * (x div 256 mod 256 ^ n) + x mod 256"
    by (metis mod_mult2_eq mult.commute power_Suc)
  ultimately show ?case by (simp add: from_be_snoc Suc)
qed simp

lemma to_be_from_be: "to_be (length bs) (from_be bs) = bs"
proof (induction bs rule: rev_induct)
  case (snoc b bs)
  have "(256 * from_be bs + unat b) div 256 = from_be bs" using byte_bound [of b] by simp
  moreover have "(word_of_nat (256 * from_be bs + unat b) :: byte) = b"
  proof (rule word_unat_eq_iff [THEN iffD2])
    show "unat (word_of_nat (256 * from_be bs + unat b) :: byte) = unat b"
      unfolding unat_of_nat using byte_bound [of b] by simp
  qed
  ultimately show ?case using snoc by (simp add: from_be_snoc)
qed simp

lemma unat_u16_from_be: "unat (u16_from_be a b) = 256 * unat a + unat b"
  unfolding u16_from_be_def unat_of_nat using byte_bound [of a] byte_bound [of b]
  by (simp add: from_be_def)

lemma u16_from_to_be: "u16_to_be x = [a, b] \<Longrightarrow> u16_from_be a b = x"
proof -
  assume x: "u16_to_be x = [a, b]"
  have "from_be [a, b] = unat x"
    using from_be_to_be [of 2 "unat x"] x unsigned_less [of x, where 'a = nat] by (simp add: u16_to_be_def)
  then show ?thesis by (simp add: u16_from_be_def)
qed

lemma u16_to_from_be: "u16_to_be (u16_from_be a b) = [a, b]"
proof -
  have "unat (u16_from_be a b) = from_be [a, b]"
    by (simp add: unat_u16_from_be from_be_def)
  then show ?thesis using to_be_from_be [of "[a, b]"] by (simp add: u16_to_be_def numeral_2_eq_2)
qed

lemma length_uN_to_be [simp]: "length (u16_to_be x) = 2" "length (u32_to_be y) = 4"
  by (simp_all add: u16_to_be_def u32_to_be_def)

lemma u16_to_be_cases: obtains a b where "u16_to_be x = [a, b]"
proof -
  have "length (u16_to_be x) = Suc (Suc 0)" by simp
  then show thesis by (metis length_0_conv length_Suc_conv that)
qed

lemma u32_from_to_be: "u32_to_be x = [a, b, c, d] \<Longrightarrow> u32_from_be a b c d = x"
proof -
  assume x: "u32_to_be x = [a, b, c, d]"
  have "from_be [a, b, c, d] = unat x"
    using from_be_to_be [of 4 "unat x"] x unsigned_less [of x, where 'a = nat] by (simp add: u32_to_be_def)
  then show ?thesis by (simp add: u32_from_be_def)
qed

end
