(* ===== verification/Packet_Ip.thy ===== *)
theory Packet_Ip
  imports Bytes Net_Types "HOL-Library.Monad_Syntax"
begin

text \<open>
  Where the headers of a raw IP packet are (\<open>talpid-app-routing/src/ip.rs\<close>): the IPv4 header with
  its options, the walk along the IPv6 extension headers, and fragments. The lemmas show that locating
  headers never panics, that the offsets it returns are ordered and inside the buffer, and which bytes
  it depends on.
\<close>

section \<open>Headers\<close>

definition PROTO_ICMP :: byte where "PROTO_ICMP = 1"
definition PROTO_TCP :: byte where "PROTO_TCP = 6"
definition PROTO_UDP :: byte where "PROTO_UDP = 17"
definition PROTO_ICMPV6 :: byte where "PROTO_ICMPV6 = 58"

definition V6_HOP_BY_HOP :: byte where "V6_HOP_BY_HOP = 0"
definition V6_ROUTING :: byte where "V6_ROUTING = 43"
definition V6_FRAGMENT :: byte where "V6_FRAGMENT = 44"
definition V6_AUTH :: byte where "V6_AUTH = 51"
definition V6_DEST_OPTS :: byte where "V6_DEST_OPTS = 60"

definition MAX_V6_EXTENSIONS :: nat where "MAX_V6_EXTENSIONS = 8"

lemmas proto_defs = PROTO_ICMP_def PROTO_TCP_def PROTO_UDP_def PROTO_ICMPV6_def
lemmas v6_header_defs = V6_HOP_BY_HOP_def V6_ROUTING_def V6_FRAGMENT_def V6_AUTH_def V6_DEST_OPTS_def

datatype PacketError = Truncated | NotIp | Unsupported

datatype Family = FamilyV4 | FamilyV6

record Fragment =
  fr_id :: "32 word"
  fr_protocol :: byte
  fr_first :: bool

record Layout =
  la_family :: Family
  la_protocol :: byte
  la_l4_offset :: nat
  la_end :: nat
  la_fragment :: "Fragment option"

definition has_transport :: "Layout \<Rightarrow> bool" where
  "has_transport l = (case la_fragment l of None \<Rightarrow> True | Some fragment \<Rightarrow> fr_first fragment)"

definition src_range :: "Layout \<Rightarrow> nat \<times> nat" where
  "src_range l = (case la_family l of FamilyV4 \<Rightarrow> (12, 16) | FamilyV6 \<Rightarrow> (8, 24))"

definition dst_range :: "Layout \<Rightarrow> nat \<times> nat" where
  "dst_range l = (case la_family l of FamilyV4 \<Rightarrow> (16, 20) | FamilyV6 \<Rightarrow> (24, 40))"

definition read_addr :: "Family \<Rightarrow> bytes \<Rightarrow> IpAddr option" where
  "read_addr family bs =
     (case family of
        FamilyV4 \<Rightarrow> do { b \<leftarrow> slice bs 0 4; Some (V4 (word_of_nat (from_be b))) }
      | FamilyV6 \<Rightarrow> do { b \<leftarrow> slice bs 0 16; Some (V6 (word_of_nat (from_be b))) })"

definition packet_src :: "Layout \<Rightarrow> bytes \<Rightarrow> IpAddr option" where
  "packet_src l packet = do { b \<leftarrow> slice packet (fst (src_range l)) (snd (src_range l)); read_addr (la_family l) b }"

definition packet_dst :: "Layout \<Rightarrow> bytes \<Rightarrow> IpAddr option" where
  "packet_dst l packet = do { b \<leftarrow> slice packet (fst (dst_range l)) (snd (dst_range l)); read_addr (la_family l) b }"

text \<open>\<open>u16::from_be_bytes([packet[i], packet[i + 1]])\<close>\<close>

definition u16_at :: "bytes \<Rightarrow> nat \<Rightarrow> 16 word option" where
  "u16_at p i = do { a \<leftarrow> index p i; b \<leftarrow> index p (i + 1); Some (u16_from_be a b) }"

definition locate_v4 :: "bytes \<Rightarrow> bool \<Rightarrow> (PacketError, Layout) outcome" where
  "locate_v4 packet quoted =
     (if length packet < 20 then Some (Inl Truncated)
      else do {
        b0 \<leftarrow> index packet 0;
        let header_len = unat (b0 AND 0x0f) * 4;
        field \<leftarrow> u16_at packet 2;
        let total_len = (if quoted then min (unat field) (length packet) else unat field);
        if header_len < 20 \<or> total_len < header_len \<or> length packet < total_len then Some (Inl Truncated)
        else do {
          flags_offset \<leftarrow> u16_at packet 6;
          let more_fragments = (flags_offset AND 0x2000 \<noteq> 0);
          let offset = flags_offset AND 0x1fff;
          ident \<leftarrow> u16_at packet 4;
          protocol \<leftarrow> index packet 9;
          let fragment = (if more_fragments \<or> offset \<noteq> 0
            then Some \<lparr>fr_id = ucast ident, fr_protocol = protocol, fr_first = (offset = 0)\<rparr> else None);
          Some (Inr \<lparr>la_family = FamilyV4, la_protocol = protocol, la_l4_offset = header_len,
                     la_end = total_len, la_fragment = fragment\<rparr>)
        }
      })"

text \<open>The length of the extension header at an offset, and the fragment it announces.\<close>

definition v6_header :: "bytes \<Rightarrow> byte \<Rightarrow> nat \<Rightarrow> Fragment option \<Rightarrow> (PacketError, nat \<times> Fragment option) outcome" where
  "v6_header packet nxt offset fragment =
     (if nxt \<in> {V6_HOP_BY_HOP, V6_ROUTING, V6_DEST_OPTS} then
        obind (ok_or (slice packet offset (offset + 2)) Truncated) (\<lambda>header. do {
          b \<leftarrow> index header 1; Some (Inr ((unat b + 1) * 8, fragment)) })
      else if nxt = V6_AUTH then
        obind (ok_or (slice packet offset (offset + 2)) Truncated) (\<lambda>header. do {
          b \<leftarrow> index header 1; Some (Inr ((unat b + 2) * 4, fragment)) })
      else if nxt = V6_FRAGMENT then
        obind (ok_or (slice packet offset (offset + 8)) Truncated) (\<lambda>header. do {
          field \<leftarrow> u16_at header 2;
          b0 \<leftarrow> index header 0;
          b4 \<leftarrow> index header 4; b5 \<leftarrow> index header 5; b6 \<leftarrow> index header 6; b7 \<leftarrow> index header 7;
          Some (Inr (8, Some \<lparr>fr_id = u32_from_be b4 b5 b6 b7, fr_protocol = b0, fr_first = (drop_bit 3 field = 0)\<rparr>)) })
      else Some (Inl Unsupported))"

text \<open>The loop over the extension headers, with the iterations that are left.\<close>

fun v6_walk :: "nat \<Rightarrow> bytes \<Rightarrow> nat \<Rightarrow> byte \<Rightarrow> nat \<Rightarrow> Fragment option \<Rightarrow> (PacketError, Layout) outcome" where
  "v6_walk 0 packet e nxt offset fragment = Some (Inl Unsupported)"
| "v6_walk (Suc n) packet e nxt offset fragment =
     (if nxt \<in> {PROTO_TCP, PROTO_UDP, PROTO_ICMPV6} then
        Some (Inr \<lparr>la_family = FamilyV6, la_protocol = nxt, la_l4_offset = offset, la_end = e, la_fragment = fragment\<rparr>)
      else obind (v6_header packet nxt offset fragment) (\<lambda>(header_len, fragment).
        if e < offset + header_len then Some (Inl Truncated)
        else do {
          next' \<leftarrow> index packet offset;
          let offset = offset + header_len;
          if (case fragment of None \<Rightarrow> False | Some f \<Rightarrow> \<not> fr_first f) then
            Some (Inr \<lparr>la_family = FamilyV6, la_protocol = next', la_l4_offset = offset, la_end = e, la_fragment = fragment\<rparr>)
          else v6_walk n packet e next' offset fragment
        }))"

definition locate_v6 :: "bytes \<Rightarrow> bool \<Rightarrow> (PacketError, Layout) outcome" where
  "locate_v6 packet quoted =
     (if length packet < 40 then Some (Inl Truncated)
      else do {
        field \<leftarrow> u16_at packet 4;
        let e = (if quoted then min (40 + unat field) (length packet) else 40 + unat field);
        if length packet < e then Some (Inl Truncated)
        else do {
          nxt \<leftarrow> index packet 6;
          v6_walk (MAX_V6_EXTENSIONS + 1) packet e nxt 40 None
        }
      })"

definition locate_with :: "bytes \<Rightarrow> bool \<Rightarrow> (PacketError, Layout) outcome" where
  "locate_with packet quoted =
     (case index packet 0 of
        None \<Rightarrow> Some (Inl Truncated)
      | Some b \<Rightarrow>
          if drop_bit 4 b = 4 then locate_v4 packet quoted
          else if drop_bit 4 b = 6 then locate_v6 packet quoted
          else Some (Inl NotIp))"

definition locate :: "bytes \<Rightarrow> (PacketError, Layout) outcome" where
  "locate packet = locate_with packet False"

definition locate_quoted :: "bytes \<Rightarrow> (PacketError, Layout) outcome" where
  "locate_quoted packet = locate_with packet True"

section \<open>Bounds\<close>

text \<open>
  What holds of a layout that was located: the address fields lie inside the buffer and the upper
  layer starts after them, inside the datagram.
\<close>

definition layout_ok :: "bytes \<Rightarrow> Layout \<Rightarrow> bool" where
  "layout_ok p l \<longleftrightarrow>
     (case la_family l of FamilyV4 \<Rightarrow> 20 | FamilyV6 \<Rightarrow> 40) \<le> la_l4_offset l \<and>
     la_l4_offset l \<le> la_end l \<and> la_end l \<le> length p"

lemma u16_at_Some [byte_simps]: "i + 1 < length p \<Longrightarrow> u16_at p i = Some (u16_from_be (p ! i) (p ! (i + 1)))"
  by (simp add: u16_at_def byte_simps)

lemma v6_header_total: "v6_header p nxt off f \<noteq> None"
  by (auto simp: v6_header_def slice_def ok_or_def byte_simps)

lemma v6_header_bounds:
  assumes "v6_header p nxt off f = Some (Inr (len, f'))"
  shows "4 \<le> len \<and> off + 2 \<le> length p"
  using assms by (auto simp: v6_header_def slice_def ok_or_def byte_simps split: if_splits)

lemma v6_walk_bounds:
  assumes "off \<le> e" "e \<le> length p"
  shows "v6_walk n p e nxt off f \<noteq> None \<and>
    (\<forall>l. v6_walk n p e nxt off f = Some (Inr l) \<longrightarrow>
       la_family l = FamilyV6 \<and> off \<le> la_l4_offset l \<and> la_l4_offset l \<le> e \<and> la_end l = e)"
  using assms
proof (induction n arbitrary: nxt off f)
  case (Suc n)
  show ?case
  proof (cases "nxt \<in> {PROTO_TCP, PROTO_UDP, PROTO_ICMPV6}")
    case False
    show ?thesis
    proof (cases "v6_header p nxt off f")
      case None
      then show ?thesis using v6_header_total by blast
    next
      case (Some r)
      show ?thesis
      proof (cases r)
        case (Inl err)
        then show ?thesis using Some False by simp
      next
        case (Inr lf)
        obtain len f' where lf: "lf = (len, f')" by (cases lf)
        have b: "off < length p" using v6_header_bounds [of p nxt off f len f'] Some Inr lf by simp
        show ?thesis
        proof (cases "e < off + len")
          case False
          then have "off + len \<le> e" by simp
          from Suc.IH [OF this Suc.prems(2), of "p ! off" f'] show ?thesis
            using Some Inr lf b False \<open>nxt \<notin> _\<close> by (auto simp: index_def Let_def split: option.splits)
        qed (use Some Inr lf \<open>nxt \<notin> _\<close> in simp)
      qed
    qed
  qed (use Suc.prems in auto)
qed simp

lemma locate_v4_eq:
  assumes "20 \<le> length p"
  shows "locate_v4 p q =
    (let header_len = unat (p ! 0 AND 0x0f) * 4;
         field = unat (u16_from_be (p ! 2) (p ! 3));
         total_len = (if q then min field (length p) else field);
         flags_offset = u16_from_be (p ! 6) (p ! 7)
     in if header_len < 20 \<or> total_len < header_len \<or> length p < total_len then Some (Inl Truncated)
        else Some (Inr \<lparr>la_family = FamilyV4, la_protocol = p ! 9, la_l4_offset = header_len, la_end = total_len,
          la_fragment = (if flags_offset AND 0x2000 \<noteq> 0 \<or> flags_offset AND 0x1fff \<noteq> 0
            then Some \<lparr>fr_id = ucast (u16_from_be (p ! 4) (p ! 5)), fr_protocol = p ! 9,
                       fr_first = (flags_offset AND 0x1fff = 0)\<rparr>
            else None)\<rparr>))"
proof -
  have "p \<noteq> []" using assms by auto
  then have "index p 0 = Some (p ! 0)" "index p 9 = Some (p ! 9)"
    "u16_at p 2 = Some (u16_from_be (p ! 2) (p ! 3))" "u16_at p 4 = Some (u16_from_be (p ! 4) (p ! 5))"
    "u16_at p 6 = Some (u16_from_be (p ! 6) (p ! 7))"
    using assms by (simp_all add: index_def u16_at_def)
  then show ?thesis using assms by (simp add: locate_v4_def Let_def)
qed

definition v6_end :: "bytes \<Rightarrow> bool \<Rightarrow> nat" where
  "v6_end p quoted =
     (let e = 40 + unat (u16_from_be (p ! 4) (p ! 5)) in if quoted then min e (length p) else e)"

lemma locate_v6_eq:
  assumes "40 \<le> length p"
  shows "locate_v6 p q = (if length p < v6_end p q then Some (Inl Truncated)
    else v6_walk (MAX_V6_EXTENSIONS + 1) p (v6_end p q) (p ! 6) 40 None)"
proof -
  have "u16_at p 4 = Some (u16_from_be (p ! 4) (p ! 5))" "index p 6 = Some (p ! 6)"
    using assms by (simp_all add: u16_at_def index_def)
  then show ?thesis using assms unfolding locate_v6_def v6_end_def Let_def
    by (simp del: v6_walk.simps)
qed

lemma locate_with_bounds:
  "locate_with p q \<noteq> None \<and> (\<forall>l. locate_with p q = Some (Inr l) \<longrightarrow> layout_ok p l)"
proof (cases "index p 0")
  case (Some b)
  have v4: "locate_v4 p q \<noteq> None \<and> (\<forall>l. locate_v4 p q = Some (Inr l) \<longrightarrow> layout_ok p l)"
  proof (cases "length p < 20")
    case False
    then show ?thesis by (auto simp: locate_v4_eq Let_def layout_ok_def split: if_splits)
  qed (simp add: locate_v4_def)
  have v6: "locate_v6 p q \<noteq> None \<and> (\<forall>l. locate_v6 p q = Some (Inr l) \<longrightarrow> layout_ok p l)"
  proof (cases "length p < 40")
    case False
    define e where "e = v6_end p q"
    have eq: "locate_v6 p q = (if length p < e then Some (Inl Truncated)
        else v6_walk (MAX_V6_EXTENSIONS + 1) p e (p ! 6) 40 None)"
      using False by (simp add: locate_v6_eq e_def)
    have "40 \<le> e" using False by (simp add: e_def v6_end_def Let_def)
    then show ?thesis
      using v6_walk_bounds [of 40 e p "MAX_V6_EXTENSIONS + 1" "p ! 6" None] unfolding eq
      by (auto simp: layout_ok_def)
  qed (simp add: locate_v6_def)
  show ?thesis using Some v4 v6 by (simp add: locate_with_def)
qed (simp add: locate_with_def)

lemma locate_total [simp]: "locate p \<noteq> None" "locate_quoted p \<noteq> None"
  using locate_with_bounds by (simp_all add: locate_def locate_quoted_def)

lemma locate_ok: "locate p = Some (Inr l) \<Longrightarrow> layout_ok p l" "locate_quoted p = Some (Inr l) \<Longrightarrow> layout_ok p l"
  using locate_with_bounds by (simp_all add: locate_def locate_quoted_def)

section \<open>Dependence on the packet\<close>

text \<open>
  Locating reads no address, no IPv4 checksum and nothing of the upper layer: a packet of the same
  length that agrees on the other header bytes has the same layout.
\<close>

definition reads_header :: "Layout \<Rightarrow> nat \<Rightarrow> bool" where
  "reads_header l i \<longleftrightarrow>
     (case la_family l of FamilyV4 \<Rightarrow> i < 10 | FamilyV6 \<Rightarrow> i < 8 \<or> 40 \<le> i \<and> i < la_l4_offset l)"

lemma v6_header_frame:
  assumes "v6_header p nxt off f = Some (Inr (len, f'))" "length p' = length p"
    and "\<And>i. off \<le> i \<Longrightarrow> i < off + len \<Longrightarrow> p' ! i = p ! i"
  shows "v6_header p' nxt off f = Some (Inr (len, f'))"
proof -
  have len: "nxt \<notin> {V6_HOP_BY_HOP, V6_ROUTING, V6_DEST_OPTS, V6_AUTH} \<Longrightarrow> len = 8" "8 \<le> len"
    using assms(1) by (auto simp: v6_header_def slice_def ok_or_def byte_simps split: if_splits)
  then have s: "slice p' off (off + 2) = slice p off (off + 2)" "slice p' off (off + 8) = slice p off (off + 8)"
    using assms(2,3) by (auto intro!: slice_cong_bytes)
  show ?thesis using assms(1) unfolding v6_header_def s .
qed

lemma v6_walk_frame:
  assumes "v6_walk n p e nxt off f = Some (Inr l)" "length p' = length p" "off \<le> e" "e \<le> length p"
    and "\<And>i. off \<le> i \<Longrightarrow> i < la_l4_offset l \<Longrightarrow> p' ! i = p ! i"
  shows "v6_walk n p' e nxt off f = Some (Inr l)"
  using assms
proof (induction n arbitrary: nxt off f)
  case (Suc n)
  show ?case
  proof (cases "nxt \<in> {PROTO_TCP, PROTO_UDP, PROTO_ICMPV6}")
    case False
    from Suc.prems(1) False obtain len f' where
      h: "v6_header p nxt off f = Some (Inr (len, f'))" and e: "off + len \<le> e" and off: "off < length p"
      and r: "(if (case f' of None \<Rightarrow> False | Some f \<Rightarrow> \<not> fr_first f) then
            Some (Inr \<lparr>la_family = FamilyV6, la_protocol = p ! off, la_l4_offset = off + len, la_end = e, la_fragment = f'\<rparr>)
          else v6_walk n p e (p ! off) (off + len) f') = Some (Inr l)"
      by (auto simp: obind_Ok_iff index_def Let_def bind_eq_Some_conv split: if_splits)
    have bound: "off + len \<le> la_l4_offset l"
      using r v6_walk_bounds [OF e Suc.prems(4), of n "p ! off" f'] by (auto split: if_splits)
    then have h': "v6_header p' nxt off f = Some (Inr (len, f'))"
      using Suc.prems(2,5) by (intro v6_header_frame [OF h]) auto
    have "4 \<le> len" using v6_header_bounds [OF h] by simp
    then have same: "p' ! off = p ! off" using Suc.prems(5) bound by simp
    have "v6_walk n p e (p ! off) (off + len) f' = Some (Inr l) \<Longrightarrow>
        v6_walk n p' e (p ! off) (off + len) f' = Some (Inr l)"
      using Suc.IH [OF _ Suc.prems(2) e Suc.prems(4)] Suc.prems(5) by simp
    then show ?thesis using r h' same False e off Suc.prems(2) by (auto simp: index_def Let_def split: if_splits)
  qed (use Suc.prems in simp)
qed simp

lemma locate_with_frame:
  assumes "locate_with p q = Some (Inr l)" "length p' = length p"
    and "\<And>i. reads_header l i \<Longrightarrow> i < length p \<Longrightarrow> p' ! i = p ! i"
  shows "locate_with p' q = Some (Inr l)"
proof -
  have ok: "layout_ok p l" using assms(1) locate_with_bounds by blast
  from assms(1) obtain b where b: "index p 0 = Some b" by (auto simp: locate_with_def split: option.splits)
  have "reads_header l 0" by (simp add: reads_header_def split: Family.splits)
  then have b': "index p' 0 = Some b" using b assms(2,3) by (auto simp: index_def split: if_splits)
  show ?thesis
  proof (cases "drop_bit 4 b = 4")
    case True
    then have l: "locate_v4 p q = Some (Inr l)" using assms(1) b by (simp add: locate_with_def)
    then have n: "20 \<le> length p" by (auto simp: locate_v4_def split: if_splits)
    then have "la_family l = FamilyV4" using l by (auto simp: locate_v4_eq Let_def split: if_splits)
    then have "p' ! i = p ! i" if "i < 10" for i using assms(3) n that by (simp add: reads_header_def)
    then have "locate_v4 p' q = locate_v4 p q" using n assms(2) by (simp add: locate_v4_eq Let_def)
    then show ?thesis using True b' l by (simp add: locate_with_def)
  next
    case False
    then have d: "drop_bit 4 b = 6" and l: "locate_v6 p q = Some (Inr l)"
      using assms(1) b by (auto simp: locate_with_def split: if_splits)
    then have n: "40 \<le> length p" by (auto simp: locate_v6_def split: if_splits)
    define e where "e = v6_end p q"
    have e: "40 \<le> e" "e \<le> length p" and w: "v6_walk (MAX_V6_EXTENSIONS + 1) p e (p ! 6) 40 None = Some (Inr l)"
      using l n by (auto simp: e_def locate_v6_eq v6_end_def Let_def simp del: v6_walk.simps split: if_splits)
    then have "la_family l = FamilyV6" "la_l4_offset l \<le> length p"
      using v6_walk_bounds [OF e] by (metis, fastforce)
    then have same: "p' ! i = p ! i" if "i < 8 \<or> 40 \<le> i \<and> i < la_l4_offset l" for i
      using assms(3) n that by (auto simp: reads_header_def)
    have "v6_walk (MAX_V6_EXTENSIONS + 1) p' e (p ! 6) 40 None = Some (Inr l)"
      using v6_walk_frame [OF w assms(2) e] same by blast
    moreover have "v6_end p' q = e" using same assms(2) by (simp add: e_def v6_end_def Let_def)
    ultimately have "locate_v6 p' q = Some (Inr l)"
      using e n same assms(2) by (simp add: locate_v6_eq del: v6_walk.simps)
    then show ?thesis using d b' by (simp add: locate_with_def)
  qed
qed

end
