(* ===== verification/Packet_Flow.thy ===== *)
theory Packet_Flow
  imports Packet_Ip
begin

text \<open>
  What a packet is for routing purposes (\<open>talpid-app-routing/src/flow.rs\<close>, first part): the flow it
  belongs to as the local host sees it, the fragment it is, or the flow an ICMP error is about. An
  index out of range and the branch the source declares unreachable are panics.
\<close>

section \<open>Flows\<close>

datatype Transport = FlowTcp | FlowUdp | FlowIcmpEcho

record FlowKey =
  fk_transport :: Transport
  fk_local :: SocketAddr
  fk_remote :: SocketAddr

datatype FlowDirection = Uplink | Downlink

record FragmentKey =
  fg_src :: IpAddr
  fg_dst :: IpAddr
  fg_protocol :: byte
  fg_id :: "32 word"

datatype Classified =
    CFlow FlowKey byte "FragmentKey option"
  | CLaterFragment FragmentKey
  | CIcmpError FlowKey
  | COther

definition oriented :: "SocketAddr \<Rightarrow> SocketAddr \<Rightarrow> FlowDirection \<Rightarrow> SocketAddr \<times> SocketAddr" where
  "oriented src dst direction = (case direction of Uplink \<Rightarrow> (src, dst) | Downlink \<Rightarrow> (dst, src))"

definition ports :: "bytes \<Rightarrow> (16 word \<times> 16 word) option" where
  "ports header = do { a \<leftarrow> u16_at header 0; b \<leftarrow> u16_at header 2; Some (a, b) }"

datatype IcmpKind = KindEcho | KindError | KindOther

definition icmp_kind :: "Family \<Rightarrow> byte \<Rightarrow> IcmpKind" where
  "icmp_kind family message_type =
     (if family = FamilyV4 \<and> message_type \<in> {0, 8} \<or> family = FamilyV6 \<and> message_type \<in> {128, 129} then KindEcho
      else if family = FamilyV4 \<and> message_type \<in> {3, 11, 12} \<or> family = FamilyV6 \<and> 1 \<le> message_type \<and> message_type \<le> 4
      then KindError else KindOther)"

definition echo_flow ::
  "IpAddr \<Rightarrow> IpAddr \<Rightarrow> 16 word \<Rightarrow> FlowDirection \<Rightarrow> FragmentKey option \<Rightarrow> Classified" where
  "echo_flow src dst ident direction fragment =
     (let (local, remote) = (case direction of Uplink \<Rightarrow> (src, dst) | Downlink \<Rightarrow> (dst, src))
      in CFlow \<lparr>fk_transport = FlowIcmpEcho, fk_local = socket_new local ident, fk_remote = socket_new remote 0\<rparr> 0 fragment)"

definition flip_direction :: "FlowDirection \<Rightarrow> FlowDirection" where
  "flip_direction d = (case d of Uplink \<Rightarrow> Downlink | Downlink \<Rightarrow> Uplink)"

definition quoted_flow :: "bytes \<Rightarrow> FlowDirection \<Rightarrow> (PacketError, Classified) outcome" where
  "quoted_flow quoted direction =
     obind (locate_quoted quoted) (\<lambda>layout.
       if \<not> has_transport layout then Some (Inr COther)
       else do {
         let quoted_direction = flip_direction direction;
         src \<leftarrow> packet_src layout quoted;
         dst \<leftarrow> packet_dst layout quoted;
         l4 \<leftarrow> slice quoted (la_l4_offset layout) (la_end layout);
         let protocol = la_protocol layout;
         if protocol \<in> {PROTO_ICMP, PROTO_ICMPV6} then
           obind (ok_or (slice l4 0 6) Truncated) (\<lambda>header. do {
             t \<leftarrow> index header 0;
             if icmp_kind (la_family layout) t \<noteq> KindEcho then Some (Inr COther)
             else do {
               ident \<leftarrow> u16_at header 4;
               case echo_flow src dst ident quoted_direction None of
                 CFlow key _ _ \<Rightarrow> Some (Inr (CIcmpError key))
               | _ \<Rightarrow> None
             } })
         else if protocol \<in> {PROTO_TCP, PROTO_UDP} then
           obind (ok_or (slice l4 0 4) Truncated) (\<lambda>header. do {
             (src_port, dst_port) \<leftarrow> ports header;
             let (local, remote) = oriented (socket_new src src_port) (socket_new dst dst_port) quoted_direction;
             Some (Inr (CIcmpError
               \<lparr>fk_transport = (if protocol = PROTO_TCP then FlowTcp else FlowUdp), fk_local = local, fk_remote = remote\<rparr>)) })
         else Some (Inr COther)
       })"

text \<open>The closure \<open>flow\<close> of \<open>classify_transport\<close>.\<close>

definition transport_flow ::
  "IpAddr \<Rightarrow> IpAddr \<Rightarrow> FlowDirection \<Rightarrow> FragmentKey option \<Rightarrow> Transport \<Rightarrow> 16 word \<Rightarrow> 16 word \<Rightarrow> byte \<Rightarrow> Classified" where
  "transport_flow src dst direction fragment transport src_port dst_port tcp_flags =
     (let (local, remote) = oriented (socket_new src src_port) (socket_new dst dst_port) direction
      in CFlow \<lparr>fk_transport = transport, fk_local = local, fk_remote = remote\<rparr> tcp_flags fragment)"

definition classify_transport ::
  "bytes \<Rightarrow> Layout \<Rightarrow> IpAddr \<Rightarrow> IpAddr \<Rightarrow> FlowDirection \<Rightarrow> FragmentKey option \<Rightarrow> (PacketError, Classified) outcome" where
  "classify_transport packet layout src dst direction fragment = do {
     l4 \<leftarrow> slice packet (la_l4_offset layout) (la_end layout);
     let protocol = la_protocol layout;
     let flow = transport_flow src dst direction fragment;
     if protocol = PROTO_TCP then
       obind (ok_or (slice l4 0 20) Truncated) (\<lambda>header. do {
         (src_port, dst_port) \<leftarrow> ports header;
         flags \<leftarrow> index header 13;
         Some (Inr (flow FlowTcp src_port dst_port flags)) })
     else if protocol = PROTO_UDP then
       obind (ok_or (slice l4 0 8) Truncated) (\<lambda>header. do {
         (src_port, dst_port) \<leftarrow> ports header;
         Some (Inr (flow FlowUdp src_port dst_port 0)) })
     else if protocol \<in> {PROTO_ICMP, PROTO_ICMPV6} then
       obind (ok_or (slice l4 0 8) Truncated) (\<lambda>header. do {
         t \<leftarrow> index header 0;
         case icmp_kind (la_family layout) t of
           KindEcho \<Rightarrow> do {
             ident \<leftarrow> u16_at header 4;
             Some (Inr (echo_flow src dst ident direction fragment)) }
         | KindError \<Rightarrow> do { quoted \<leftarrow> slice l4 8 (length l4); quoted_flow quoted direction }
         | KindOther \<Rightarrow> Some (Inr COther) })
     else Some (Inr COther)
   }"

definition classify :: "bytes \<Rightarrow> FlowDirection \<Rightarrow> (PacketError, Classified) outcome" where
  "classify packet direction =
     obind (locate packet) (\<lambda>layout. do {
       src \<leftarrow> packet_src layout packet;
       dst \<leftarrow> packet_dst layout packet;
       case la_fragment layout of
         None \<Rightarrow> classify_transport packet layout src dst direction None
       | Some fragment \<Rightarrow> do {
           let fragment_key = \<lparr>fg_src = src, fg_dst = dst, fg_protocol = fr_protocol fragment, fg_id = fr_id fragment\<rparr>;
           if fr_first fragment then classify_transport packet layout src dst direction (Some fragment_key)
           else Some (Inr (CLaterFragment fragment_key))
         }
     })"

section \<open>No panic\<close>

lemma packet_addr_total:
  assumes "layout_ok p l"
  shows "packet_src l p \<noteq> None" "packet_dst l p \<noteq> None"
  using assms
  by (auto simp: layout_ok_def packet_src_def packet_dst_def src_range_def dst_range_def read_addr_def slice_def
      split: Family.splits)

lemma slice_head:
  "slice xs 0 n = (if n \<le> length xs then Some (take n xs) else None)"
  by (simp add: slice_def)

lemma ports_total: "4 \<le> length h \<Longrightarrow> \<exists>a b. ports h = Some (a, b)"
  by (simp add: ports_def byte_simps)

lemma quoted_flow_total: "quoted_flow q d \<noteq> None"
proof -
  obtain r where r: "locate_quoted q = Some r" using locate_total(2) [of q] by blast
  show ?thesis
  proof (cases r)
    case (Inr l)
    have ok: "layout_ok q l" using locate_ok(2) r Inr by simp
    then obtain src dst where a: "packet_src l q = Some src" "packet_dst l q = Some dst"
      using packet_addr_total by blast
    obtain l4 where l4: "slice q (la_l4_offset l) (la_end l) = Some l4"
      using ok by (simp add: layout_ok_def slice_def)
    have icmp: "obind (ok_or (slice l4 0 6) Truncated) (\<lambda>header. do {
        t \<leftarrow> index header 0;
        if icmp_kind (la_family l) t \<noteq> KindEcho then Some (Inr COther)
        else do {
          ident \<leftarrow> u16_at header 4;
          case echo_flow src dst ident dd None of
            CFlow key _ _ \<Rightarrow> Some (Inr (CIcmpError key)) | _ \<Rightarrow> None } }) \<noteq> None" for dd
      by (cases "6 \<le> length l4") (auto simp: slice_head byte_simps index_def echo_flow_def Let_def split: prod.splits)
    have flow: "obind (ok_or (slice l4 0 4) Truncated) (\<lambda>header. do {
        (src_port, dst_port) \<leftarrow> ports header; f src_port dst_port }) \<noteq> None"
      if "\<And>x y. f x y \<noteq> None" for f :: "_ \<Rightarrow> _ \<Rightarrow> (PacketError, Classified) outcome"
      using that ports_total [of "take 4 l4"] by (cases "4 \<le> length l4") (auto simp: slice_head)
    show ?thesis using r Inr a l4 icmp flow
      by (auto simp: quoted_flow_def Let_def split: prod.splits)
  qed (use r in \<open>simp add: quoted_flow_def\<close>)
qed

lemma classify_transport_total:
  assumes "layout_ok p l"
  shows "classify_transport p l src dst d fragment \<noteq> None"
proof -
  obtain l4 where l4: "slice p (la_l4_offset l) (la_end l) = Some l4"
    using assms by (simp add: layout_ok_def slice_def)
  have tcp: "obind (ok_or (slice l4 0 20) Truncated) (\<lambda>header. do {
      (src_port, dst_port) \<leftarrow> ports header; flags \<leftarrow> index header 13; Some (Inr (f src_port dst_port flags)) }) \<noteq> None"
    for f :: "_ \<Rightarrow> _ \<Rightarrow> _ \<Rightarrow> Classified"
    using ports_total [of "take 20 l4"] by (cases "20 \<le> length l4") (auto simp: slice_head index_def)
  have udp: "obind (ok_or (slice l4 0 8) Truncated) (\<lambda>header. do {
      (src_port, dst_port) \<leftarrow> ports header; Some (Inr (f src_port dst_port)) }) \<noteq> None"
    for f :: "_ \<Rightarrow> _ \<Rightarrow> Classified"
    using ports_total [of "take 8 l4"] by (cases "8 \<le> length l4") (auto simp: slice_head)
  have icmp: "obind (ok_or (slice l4 0 8) Truncated) (\<lambda>header. do {
      t \<leftarrow> index header 0;
      case icmp_kind (la_family l) t of
        KindEcho \<Rightarrow> do { ident \<leftarrow> u16_at header 4; Some (Inr (echo_flow src dst ident d fragment)) }
      | KindError \<Rightarrow> do { quoted \<leftarrow> slice l4 8 (length l4); quoted_flow quoted d }
      | KindOther \<Rightarrow> Some (Inr COther) }) \<noteq> None"
  proof (cases "8 \<le> length l4")
    case True
    then have "index (take 8 l4) 0 = Some (l4 ! 0)" by (simp add: index_def)
    then show ?thesis using True quoted_flow_total
      by (auto simp: slice_head slice_Some u16_at_Some split: IcmpKind.splits)
  qed (simp add: slice_head)
  show ?thesis using tcp udp icmp unfolding classify_transport_def Let_def l4 bind.bind_lunit by simp
qed

lemma classify_total: "classify p d \<noteq> None"
proof -
  obtain r where r: "locate p = Some r" using locate_total(1) [of p] by blast
  show ?thesis
  proof (cases r)
    case (Inr l)
    have ok: "layout_ok p l" using locate_ok(1) r Inr by simp
    then obtain src dst where "packet_src l p = Some src" "packet_dst l p = Some dst"
      using packet_addr_total by blast
    then show ?thesis using r Inr classify_transport_total [OF ok]
      by (auto simp: classify_def Let_def split: option.splits)
  qed (use r in \<open>simp add: classify_def\<close>)
qed

end
