(* ===== verification/Bounded_Store.thy ===== *)
theory Bounded_Store
  imports Prelude
begin

text \<open>
  Maps of bounded size. A \<open>HashMap\<close> is an association list with distinct keys in the order the map
  iterates, which no lemma depends on. The locale states what the packet path relies on from each of
  its caches, the flow table, the fragment maps and the cache of decisions: what was put is found,
  nothing appears by itself, and the size never exceeds the capacity.
\<close>

section \<open>Hash maps\<close>

type_synonym ('k, 'v) hash_map = "('k \<times> 'v) list"

definition hm_insert :: "'k \<Rightarrow> 'v \<Rightarrow> ('k, 'v) hash_map \<Rightarrow> ('k, 'v) hash_map" where
  "hm_insert k v m = (k, v) # filter (\<lambda>e. fst e \<noteq> k) m"

definition hm_remove :: "'k \<Rightarrow> ('k, 'v) hash_map \<Rightarrow> ('k, 'v) hash_map" where
  "hm_remove k m = filter (\<lambda>e. fst e \<noteq> k) m"

abbreviation hm_get :: "('k, 'v) hash_map \<Rightarrow> 'k \<Rightarrow> 'v option" where
  "hm_get \<equiv> map_of"

abbreviation hm_ok :: "('k, 'v) hash_map \<Rightarrow> bool" where
  "hm_ok m \<equiv> distinct (map fst m)"

lemma hm_get_insert [simp]: "hm_get (hm_insert k v m) k' = (if k' = k then Some v else hm_get m k')"
proof -
  have "map_of (filter (\<lambda>e. fst e \<noteq> k) m) k' = map_of m k'" if "k' \<noteq> k"
    using that by (induction m) auto
  then show ?thesis by (simp add: hm_insert_def)
qed

lemma hm_get_remove [simp]: "hm_get (hm_remove k m) k' = (if k' = k then None else hm_get m k')"
  unfolding hm_remove_def by (induction m) auto

lemma hm_ok_filter: "hm_ok m \<Longrightarrow> hm_ok (filter P m)"
  by (induction m) auto

lemma hm_ok_insert [simp]: "hm_ok m \<Longrightarrow> hm_ok (hm_insert k v m)"
  by (auto simp: hm_insert_def hm_ok_filter)

lemma hm_ok_remove [simp]: "hm_ok m \<Longrightarrow> hm_ok (hm_remove k m)"
  by (simp add: hm_remove_def hm_ok_filter)

lemma hm_get_filter:
  assumes "hm_ok m"
  shows "hm_get (filter P m) k = (case hm_get m k of Some v \<Rightarrow> if P (k, v) then Some v else None | None \<Rightarrow> None)"
  using assms
proof (induction m)
  case (Cons e m)
  have "hm_get m (fst e) = None" using Cons.prems by (simp add: map_of_eq_None_iff image_iff)
  then show ?case using Cons by (cases e) (auto split: option.splits)
qed simp

lemma hm_get_sub: "hm_ok m \<Longrightarrow> set m' \<subseteq> set m \<Longrightarrow> hm_ok m' \<Longrightarrow> hm_get m' k = Some v \<Longrightarrow> hm_get m k = Some v"
  using map_of_SomeD [of m' k v] map_of_is_SomeI [of m k v] by blast

lemma length_hm_insert:
  assumes "hm_ok m"
  shows "length (hm_insert k v m) = (if hm_get m k = None then length m + 1 else length m)"
proof -
  have "length (filter (\<lambda>e. fst e \<noteq> k) m) = (if hm_get m k = None then length m else length m - 1) \<and>
    (hm_get m k \<noteq> None \<longrightarrow> m \<noteq> [])"
    using assms
  proof (induction m)
    case (Cons e m)
    have "hm_get m (fst e) = None" using Cons.prems by (simp add: map_of_eq_None_iff image_iff)
    then show ?case using Cons by (cases m) (auto split: if_splits)
  qed simp
  then show ?thesis by (auto simp: hm_insert_def)
qed

section \<open>The interface of a bounded cache\<close>

locale bounded_store =
  fixes get :: "'s \<Rightarrow> 'k \<Rightarrow> 'v option"
    and put :: "'k \<Rightarrow> 'v \<Rightarrow> instant \<Rightarrow> 's \<Rightarrow> 's"
    and size :: "'s \<Rightarrow> nat"
    and capacity :: "'s \<Rightarrow> nat"
    and invar :: "'s \<Rightarrow> bool"
  assumes put_same: "invar s \<Longrightarrow> get (put k v now s) k = Some v"
    and put_other: "invar s \<Longrightarrow> k' \<noteq> k \<Longrightarrow> get (put k v now s) k' = Some w \<Longrightarrow> get s k' = Some w"
    and invar_put: "invar s \<Longrightarrow> invar (put k v now s)"
    and capacity_put: "capacity (put k v now s) = capacity s"
    and bounded: "invar s \<Longrightarrow> size s \<le> capacity s"
begin

text \<open>A property of everything a cache holds survives a put of something that has it.\<close>

lemma put_all:
  assumes "invar s" "\<And>k v. get s k = Some v \<Longrightarrow> P k v" "P k v"
    and "get (put k v now s) k' = Some w"
  shows "P k' w"
  using assms put_same [OF assms(1), of k v now] put_other [OF assms(1), of k' k v now w] by (cases "k' = k") auto

lemma puts_invar: "invar s \<Longrightarrow> invar (fold (\<lambda>(k, v, now). put k v now) xs s)"
  by (induction xs arbitrary: s) (auto simp: invar_put)

lemma puts_capacity: "capacity (fold (\<lambda>(k, v, now). put k v now) xs s) = capacity s"
  by (induction xs arbitrary: s) (auto simp: capacity_put)

lemma puts_bounded: "invar s \<Longrightarrow> size (fold (\<lambda>(k, v, now). put k v now) xs s) \<le> capacity s"
  using bounded [OF puts_invar] puts_capacity by metis

end

section \<open>Selecting the oldest\<close>

text \<open>The element at a position of the sorted list: how many lie below it and how many do not exceed it.\<close>

lemma sorted_below_nth:
  assumes "sorted xs" "i < length xs"
  shows "length (filter (\<lambda>x. x < xs ! i) xs) \<le> i"
proof -
  have "filter (\<lambda>x. x < xs ! i) (drop i xs) = []"
    using assms by (auto simp: filter_empty_conv in_set_conv_nth not_less sorted_iff_nth_mono)
  then have "filter (\<lambda>x. x < xs ! i) xs = filter (\<lambda>x. x < xs ! i) (take i xs)"
    by (metis append_Nil2 append_take_drop_id filter_append)
  then show ?thesis by (metis length_filter_le length_take min.boundedE order_trans)
qed

lemma sorted_upto_nth:
  assumes "sorted xs" "i < length xs"
  shows "Suc i \<le> length (filter (\<lambda>x. x \<le> xs ! i) xs)"
proof -
  have "filter (\<lambda>x. x \<le> xs ! i) (take (Suc i) xs) = take (Suc i) xs"
    using assms by (auto simp: filter_id_conv in_set_conv_nth sorted_iff_nth_mono)
  then have "Suc i \<le> length (filter (\<lambda>x. x \<le> xs ! i) (take (Suc i) xs @ drop (Suc i) xs))"
    using assms(2) unfolding filter_append length_append by simp
  then show ?thesis unfolding append_take_drop_id .
qed

lemma filter_full: "length xs \<le> length (filter P xs) \<Longrightarrow> filter P xs = xs"
  by (rule filter_True) (metis length_filter_less not_less)

lemma length_filter_sort: "length (filter P (sort xs)) = length (filter P xs)"
  by (metis filter_sort length_sort)

end
