(* ===== verification/Flow_Table.thy ===== *)
theory Flow_Table
  imports Packet_Flow Bounded_Store
begin

text \<open>
  The bounded table of live flows (\<open>talpid-app-routing/src/flow.rs\<close>, second part): the lifecycle of
  a TCP connection, expiry, lookups that count as activity and lookups that do not, insertion with
  eviction of the least recently active sixteenth, and the revision of every flow when the policy
  changes. The buffer \<open>eviction\<close> only saves an allocation and is not part of the state.
\<close>

section \<open>Entries\<close>

definition TCP_IDLE :: duration where "TCP_IDLE = from_secs (2 * 60 * 60)"
definition UDP_IDLE :: duration where "UDP_IDLE = from_secs 180"
definition ICMP_IDLE :: duration where "ICMP_IDLE = from_secs 30"
definition CLOSING_LINGER :: duration where "CLOSING_LINGER = from_secs 10"

definition FLAG_FIN :: byte where "FLAG_FIN = 0x01"
definition FLAG_SYN :: byte where "FLAG_SYN = 0x02"
definition FLAG_RST :: byte where "FLAG_RST = 0x04"
definition FLAG_ACK :: byte where "FLAG_ACK = 0x10"

lemmas flag_defs = FLAG_FIN_def FLAG_SYN_def FLAG_RST_def FLAG_ACK_def

datatype Lifecycle = Open | HalfClosed FlowDirection | Closing

datatype Revision = Keep | Close | Forget

record 'v Entry =
  en_value :: 'v
  en_last_seen :: instant
  en_lifecycle :: Lifecycle

definition is_expired :: "Transport \<Rightarrow> 'v Entry \<Rightarrow> instant \<Rightarrow> bool" where
  "is_expired transport entry now =
     (let timeout =
        (case (en_lifecycle entry, transport) of
           (Closing, _) \<Rightarrow> CLOSING_LINGER
         | (_, FlowTcp) \<Rightarrow> TCP_IDLE
         | (_, FlowUdp) \<Rightarrow> UDP_IDLE
         | (_, FlowIcmpEcho) \<Rightarrow> ICMP_IDLE)
      in timeout < duration_since now (en_last_seen entry))"

definition advance :: "Lifecycle \<Rightarrow> FlowDirection \<Rightarrow> byte \<Rightarrow> Lifecycle" where
  "advance lifecycle direction tcp_flags =
     (if tcp_flags AND FLAG_RST \<noteq> 0 then Closing
      else if tcp_flags AND FLAG_FIN = 0 then lifecycle
      else case lifecycle of
        Open \<Rightarrow> HalfClosed direction
      | HalfClosed from \<Rightarrow> if from \<noteq> direction then Closing else HalfClosed from
      | Closing \<Rightarrow> Closing)"

section \<open>The table\<close>

record 'v FlowTable =
  ft_entries :: "(FlowKey, 'v Entry) hash_map"
  ft_capacity :: nat

definition ft_new :: "nat \<Rightarrow> 'v FlowTable" where
  "ft_new capacity = \<lparr>ft_entries = [], ft_capacity = max capacity 1\<rparr>"

text \<open>
  \<open>lookup_mut\<close> hands out a reference to the value; a caller that writes through it writes with
  \<open>ft_set\<close>.
\<close>

definition ft_lookup_mut ::
  "FlowKey \<Rightarrow> FlowDirection \<Rightarrow> byte \<Rightarrow> instant \<Rightarrow> 'v FlowTable \<Rightarrow> 'v option \<times> 'v FlowTable" where
  "ft_lookup_mut key direction tcp_flags now t =
     (case hm_get (ft_entries t) key of
        None \<Rightarrow> (None, t)
      | Some entry \<Rightarrow>
          if is_expired (fk_transport key) entry now then (None, t)
          else let entry = entry\<lparr>en_last_seen := now, en_lifecycle := advance (en_lifecycle entry) direction tcp_flags\<rparr>
               in (Some (en_value entry), t\<lparr>ft_entries := hm_insert key entry (ft_entries t)\<rparr>))"

definition ft_lookup ::
  "FlowKey \<Rightarrow> FlowDirection \<Rightarrow> byte \<Rightarrow> instant \<Rightarrow> 'v FlowTable \<Rightarrow> 'v option \<times> 'v FlowTable" where
  "ft_lookup key direction tcp_flags now t = ft_lookup_mut key direction tcp_flags now t"

definition ft_peek :: "FlowKey \<Rightarrow> instant \<Rightarrow> 'v FlowTable \<Rightarrow> 'v option" where
  "ft_peek key now t =
     (case hm_get (ft_entries t) key of
        None \<Rightarrow> None
      | Some entry \<Rightarrow> if is_expired (fk_transport key) entry now then None else Some (en_value entry))"

definition ft_get :: "'v FlowTable \<Rightarrow> FlowKey \<Rightarrow> 'v option" where
  "ft_get t key = map_option en_value (hm_get (ft_entries t) key)"

definition ft_set :: "FlowKey \<Rightarrow> 'v \<Rightarrow> 'v FlowTable \<Rightarrow> 'v FlowTable" where
  "ft_set key v t =
     (case hm_get (ft_entries t) key of
        None \<Rightarrow> t
      | Some entry \<Rightarrow> t\<lparr>ft_entries := hm_insert key (entry\<lparr>en_value := v\<rparr>) (ft_entries t)\<rparr>)"

text \<open>
  \<open>revise\<close> goes over the entries in the order of the map; its closure updates what it captured, here
  a state that is threaded through.
\<close>

fun revise_entries ::
  "(FlowKey \<Rightarrow> 'v \<Rightarrow> 's \<Rightarrow> Revision \<times> 'v \<times> 's) \<Rightarrow> instant \<Rightarrow> (FlowKey, 'v Entry) hash_map \<Rightarrow> 's \<Rightarrow>
     (FlowKey, 'v Entry) hash_map \<times> 's" where
  "revise_entries f now [] s = ([], s)"
| "revise_entries f now ((key, entry) # rest) s =
     (case f key (en_value entry) s of
        (revision, v, s') \<Rightarrow>
          (case revise_entries f now rest s' of
             (rest', s'') \<Rightarrow>
               (case revision of
                  Keep \<Rightarrow> ((key, entry\<lparr>en_value := v\<rparr>) # rest', s'')
                | Close \<Rightarrow> ((key, entry\<lparr>en_value := v, en_lifecycle := Closing, en_last_seen := now\<rparr>) # rest', s'')
                | Forget \<Rightarrow> (rest', s''))))"

definition ft_revise ::
  "(FlowKey \<Rightarrow> 'v \<Rightarrow> 's \<Rightarrow> Revision \<times> 'v \<times> 's) \<Rightarrow> instant \<Rightarrow> 'v FlowTable \<Rightarrow> 's \<Rightarrow> 'v FlowTable \<times> 's" where
  "ft_revise f now t s =
     (case revise_entries f now (ft_entries t) s of (es, s') \<Rightarrow> (t\<lparr>ft_entries := es\<rparr>, s'))"

definition ft_expire :: "instant \<Rightarrow> 'v FlowTable \<Rightarrow> 'v FlowTable" where
  "ft_expire now t = t\<lparr>ft_entries := filter (\<lambda>(key, entry). \<not> is_expired (fk_transport key) entry now) (ft_entries t)\<rparr>"

text \<open>\<open>retain\<close> of the eviction: everything older than the cut-off and so many of those seen at it go.\<close>

fun evict_retain :: "instant \<Rightarrow> nat \<Rightarrow> (FlowKey, 'v Entry) hash_map \<Rightarrow> (FlowKey, 'v Entry) hash_map" where
  "evict_retain cutoff ties [] = []"
| "evict_retain cutoff ties ((key, entry) # rest) =
     (if en_last_seen entry < cutoff then evict_retain cutoff ties rest
      else if en_last_seen entry = cutoff \<and> 0 < ties then evict_retain cutoff (ties - 1) rest
      else (key, entry) # evict_retain cutoff ties rest)"

definition evict_least_recent :: "'v FlowTable \<Rightarrow> 'v FlowTable" where
  "evict_least_recent t =
     (let count = max (length (ft_entries t) div 16) 1;
          eviction = map (\<lambda>e. en_last_seen (snd e)) (ft_entries t);
          cutoff = sort eviction ! (count - 1);
          older = length (filter (\<lambda>seen. seen < cutoff) eviction)
      in t\<lparr>ft_entries := evict_retain cutoff (count - older) (ft_entries t)\<rparr>)"

definition ft_insert ::
  "FlowKey \<Rightarrow> 'v \<Rightarrow> FlowDirection \<Rightarrow> byte \<Rightarrow> instant \<Rightarrow> 'v FlowTable \<Rightarrow> 'v FlowTable" where
  "ft_insert key value direction tcp_flags now t =
     (let t =
        (if ft_capacity t \<le> length (ft_entries t) \<and> hm_get (ft_entries t) key = None then
           let t = ft_expire now t
           in if ft_capacity t \<le> length (ft_entries t) then evict_least_recent t else t
         else t);
          lifecycle = (if fk_transport key = FlowTcp then advance Open direction tcp_flags else Open)
      in t\<lparr>ft_entries := hm_insert key \<lparr>en_value = value, en_last_seen = now, en_lifecycle = lifecycle\<rparr> (ft_entries t)\<rparr>)"

definition ft_remove :: "FlowKey \<Rightarrow> 'v FlowTable \<Rightarrow> 'v FlowTable" where
  "ft_remove key t = t\<lparr>ft_entries := hm_remove key (ft_entries t)\<rparr>"

definition ft_values :: "'v FlowTable \<Rightarrow> 'v list" where
  "ft_values t = map (\<lambda>e. en_value (snd e)) (ft_entries t)"

definition ft_is_empty :: "'v FlowTable \<Rightarrow> bool" where
  "ft_is_empty t = (ft_entries t = [])"

section \<open>Eviction\<close>

definition ft_ok :: "'v FlowTable \<Rightarrow> bool" where
  "ft_ok t \<longleftrightarrow> hm_ok (ft_entries t) \<and> length (ft_entries t) \<le> ft_capacity t \<and> 1 \<le> ft_capacity t"

lemma set_evict_retain: "set (evict_retain c k es) \<subseteq> set es"
  by (induction c k es rule: evict_retain.induct) auto

lemma hm_ok_evict_retain: "hm_ok es \<Longrightarrow> hm_ok (evict_retain c k es)"
proof (induction c k es rule: evict_retain.induct)
  case (2 c k key entry rest)
  then show ?case using set_evict_retain [of c k rest] by (auto simp: image_iff)
qed simp

lemma evict_retain_newer: "e \<in> set (evict_retain c k es) \<Longrightarrow> c \<le> en_last_seen (snd e)"
  by (induction c k es rule: evict_retain.induct) (auto split: if_splits)

lemma evict_retain_dropped: "e \<in> set es \<Longrightarrow> e \<notin> set (evict_retain c k es) \<Longrightarrow> en_last_seen (snd e) \<le> c"
  by (induction c k es rule: evict_retain.induct) (auto split: if_splits)

lemma length_evict_retain:
  "length (evict_retain c k es) + length (filter (\<lambda>e. en_last_seen (snd e) < c) es) +
     min k (length (filter (\<lambda>e. en_last_seen (snd e) = c) es)) = length es"
proof (induction es arbitrary: k)
  case (Cons e es)
  obtain key entry where e: "e = (key, entry)" by (cases e)
  consider "en_last_seen entry < c" | "en_last_seen entry = c" "0 < k" | "en_last_seen entry = c" "k = 0" | "c < en_last_seen entry"
    by linarith
  then show ?case using Cons [of k] Cons [of "k - 1"] e by cases (auto simp: min_def split: if_splits)
qed simp

lemma length_filter_partition:
  "length (filter (\<lambda>e. f e < (c :: 'a :: linorder)) es) + length (filter (\<lambda>e. f e = c) es) = length (filter (\<lambda>e. f e \<le> c) es)"
  by (induction es) auto

text \<open>An eviction removes the configured share exactly, and only entries no more recent than any it keeps.\<close>

lemma evict_spec:
  assumes "ft_entries t \<noteq> []"
  shows "length (ft_entries (evict_least_recent t)) = length (ft_entries t) - max (length (ft_entries t) div 16) 1"
    "set (ft_entries (evict_least_recent t)) \<subseteq> set (ft_entries t)"
    "e \<in> set (ft_entries t) \<Longrightarrow> e \<notin> set (ft_entries (evict_least_recent t)) \<Longrightarrow>
     e' \<in> set (ft_entries (evict_least_recent t)) \<Longrightarrow> en_last_seen (snd e) \<le> en_last_seen (snd e')"
proof -
  let ?es = "ft_entries t" and ?f = "\<lambda>e. en_last_seen (snd e)"
  define count where "count = max (length ?es div 16) 1"
  define cutoff where "cutoff = sort (map ?f ?es) ! (count - 1)"
  define older where "older = length (filter (\<lambda>e. ?f e < cutoff) ?es)"
  have ev: "ft_entries (evict_least_recent t) = evict_retain cutoff (count - older) ?es"
    by (simp add: evict_least_recent_def Let_def count_def cutoff_def older_def filter_map comp_def)
  have count: "1 \<le> count" "count - 1 < length (sort (map ?f ?es))"
    using assms by (auto simp: count_def max_def)
  have f: "length (filter (\<lambda>e. Q (?f e)) ?es) = length (filter Q (sort (map ?f ?es)))" for Q
    unfolding length_filter_sort by (simp add: filter_map comp_def)
  have "older \<le> count - 1"
    using sorted_below_nth [OF sorted_sort count(2)] unfolding older_def cutoff_def f [of "\<lambda>x. x < _"] .
  moreover have "count \<le> length (filter (\<lambda>e. ?f e \<le> cutoff) ?es)"
    using sorted_upto_nth [OF sorted_sort count(2)] count(1) unfolding cutoff_def f [of "\<lambda>x. x \<le> _"] by simp
  moreover have "older + length (filter (\<lambda>e. ?f e = cutoff) ?es) = length (filter (\<lambda>e. ?f e \<le> cutoff) ?es)"
    unfolding older_def by (rule length_filter_partition)
  ultimately show "length (ft_entries (evict_least_recent t)) = length ?es - max (length ?es div 16) 1"
    using length_evict_retain [of cutoff "count - older" ?es] count(1) unfolding ev older_def count_def [symmetric] by simp
  show "set (ft_entries (evict_least_recent t)) \<subseteq> set ?es" unfolding ev by (rule set_evict_retain)
  show "?f e \<le> ?f e'" if "e \<in> set ?es" "e \<notin> set (ft_entries (evict_least_recent t))"
    "e' \<in> set (ft_entries (evict_least_recent t))"
    using evict_retain_dropped evict_retain_newer that unfolding ev by (metis order_trans)
qed

section \<open>Insertion\<close>

text \<open>The table after the eviction that precedes an insertion.\<close>

definition make_room :: "FlowKey \<Rightarrow> instant \<Rightarrow> 'v FlowTable \<Rightarrow> 'v FlowTable" where
  "make_room key now t =
     (if ft_capacity t \<le> length (ft_entries t) \<and> hm_get (ft_entries t) key = None then
        let t = ft_expire now t
        in if ft_capacity t \<le> length (ft_entries t) then evict_least_recent t else t
      else t)"

lemma ft_capacity_simps [simp]:
  "ft_capacity (evict_least_recent t) = ft_capacity t" "ft_capacity (ft_expire now t) = ft_capacity t"
  "ft_capacity (make_room key now t) = ft_capacity t" "ft_capacity (ft_insert key v d flags now t) = ft_capacity t"
  by (simp_all add: evict_least_recent_def ft_expire_def make_room_def ft_insert_def Let_def)

lemma ft_insert_entries:
  "ft_entries (ft_insert key v d flags now t) =
     hm_insert key \<lparr>en_value = v, en_last_seen = now,
       en_lifecycle = (if fk_transport key = FlowTcp then advance Open d flags else Open)\<rparr> (ft_entries (make_room key now t))"
  by (simp add: ft_insert_def make_room_def Let_def)

lemma hm_ok_expire: "hm_ok (ft_entries t) \<Longrightarrow> hm_ok (ft_entries (ft_expire now t))"
  by (simp add: ft_expire_def hm_ok_filter)

lemma make_room_spec:
  assumes "ft_ok t"
  shows "hm_ok (ft_entries (make_room key now t))" "set (ft_entries (make_room key now t)) \<subseteq> set (ft_entries t)"
    "hm_get (ft_entries t) key = None \<Longrightarrow> length (ft_entries (make_room key now t)) < ft_capacity t"
    "hm_get (ft_entries t) key \<noteq> None \<Longrightarrow> make_room key now t = t"
proof -
  let ?x = "ft_expire now t"
  have x: "hm_ok (ft_entries ?x)" "set (ft_entries ?x) \<subseteq> set (ft_entries t)" "length (ft_entries ?x) \<le> length (ft_entries t)"
    using assms hm_ok_expire by (auto simp: ft_ok_def ft_expire_def)
  have e: "hm_ok (ft_entries (evict_least_recent ?x))" "set (ft_entries (evict_least_recent ?x)) \<subseteq> set (ft_entries ?x)"
    using hm_ok_evict_retain [OF x(1)] set_evict_retain by (simp_all add: evict_least_recent_def Let_def)
  show "hm_ok (ft_entries (make_room key now t))" "set (ft_entries (make_room key now t)) \<subseteq> set (ft_entries t)"
    using assms x(1,2) e by (auto simp: make_room_def Let_def ft_ok_def)
  show "make_room key now t = t" if "hm_get (ft_entries t) key \<noteq> None"
    using that by (auto simp: make_room_def)
  show "length (ft_entries (make_room key now t)) < ft_capacity t" if "hm_get (ft_entries t) key = None"
  proof (cases "ft_capacity t \<le> length (ft_entries ?x)")
    case True
    then have "ft_entries ?x \<noteq> []" using assms by (auto simp: ft_ok_def)
    then have "length (ft_entries (evict_least_recent ?x)) < length (ft_entries ?x)"
      using evict_spec(1) [of ?x] by (simp add: max_def)
    then show ?thesis using that True x(3) assms by (auto simp: make_room_def Let_def ft_ok_def)
  qed (use that assms in \<open>auto simp: make_room_def Let_def ft_ok_def\<close>)
qed

lemma ft_ok_insert: "ft_ok t \<Longrightarrow> ft_ok (ft_insert key v d flags now t)"
  using make_room_spec [of t key now] length_hm_insert [of "ft_entries (make_room key now t)" key]
  by (cases "hm_get (ft_entries t) key = None")
    (auto simp: ft_ok_def ft_insert_entries split: if_splits)

interpretation flows: bounded_store ft_get "\<lambda>k v now t. ft_insert k v d flags now t"
    "\<lambda>t. length (ft_entries t)" ft_capacity ft_ok
  for d flags
proof
  fix t :: "'v FlowTable" and k k' v w now
  assume ok: "ft_ok t"
  show "ft_get (ft_insert k v d flags now t) k = Some v" by (simp add: ft_get_def ft_insert_entries)
  show "ft_get t k' = Some w" if "k' \<noteq> k" "ft_get (ft_insert k v d flags now t) k' = Some w"
    using that make_room_spec(1,2) [OF ok, of k now] hm_get_sub [of "ft_entries t" "ft_entries (make_room k now t)" k'] ok
    by (auto simp: ft_get_def ft_insert_entries ft_ok_def)
  show "ft_ok (ft_insert k v d flags now t)" by (rule ft_ok_insert [OF ok])
  show "length (ft_entries t) \<le> ft_capacity t" using ok by (simp add: ft_ok_def)
qed simp

section \<open>The other operations\<close>

lemma ft_ok_new: "ft_ok (ft_new c)" "ft_get (ft_new c) k = None"
  by (simp_all add: ft_ok_def ft_new_def ft_get_def)

lemma hm_insert_present: "hm_ok m \<Longrightarrow> hm_get m k = Some e \<Longrightarrow> length (hm_insert k e' m) = length m"
  by (simp add: length_hm_insert)

lemma ft_ok_lookup_mut: "ft_ok t \<Longrightarrow> ft_ok (snd (ft_lookup_mut k d flags now t))"
  by (auto simp: ft_lookup_mut_def ft_ok_def Let_def hm_insert_present split: option.splits)

lemma ft_get_lookup_mut [simp]: "ft_get (snd (ft_lookup_mut k d flags now t)) k' = ft_get t k'"
  by (auto simp: ft_lookup_mut_def ft_get_def Let_def split: option.splits)

lemma fst_ft_lookup_mut: "fst (ft_lookup_mut k d flags now t) = ft_peek k now t"
  by (auto simp: ft_lookup_mut_def ft_peek_def Let_def split: option.splits)

lemma ft_peek_get: "ft_peek k now t = Some v \<Longrightarrow> ft_get t k = Some v"
  by (auto simp: ft_peek_def ft_get_def split: option.splits if_splits)

lemma ft_ok_set: "ft_ok t \<Longrightarrow> ft_ok (ft_set k v t)"
  by (auto simp: ft_set_def ft_ok_def hm_insert_present split: option.splits)

lemma ft_get_set: "ft_get (ft_set k v t) k' = (if k' = k \<and> ft_get t k \<noteq> None then Some v else ft_get t k')"
  by (auto simp: ft_set_def ft_get_def split: option.splits)

lemma ft_ok_expire: "ft_ok t \<Longrightarrow> ft_ok (ft_expire now t)"
  by (auto simp: ft_ok_def ft_expire_def hm_ok_filter intro: le_trans [OF length_filter_le])

lemma ft_get_expire: "ft_ok t \<Longrightarrow> ft_get (ft_expire now t) k = Some v \<Longrightarrow> ft_get t k = Some v"
  by (auto simp: ft_get_def ft_expire_def ft_ok_def hm_get_filter split: option.splits if_splits)

lemma ft_ok_remove: "ft_ok t \<Longrightarrow> ft_ok (ft_remove k t)"
  by (auto simp: ft_ok_def ft_remove_def hm_remove_def hm_ok_filter intro: le_trans [OF length_filter_le])

lemma ft_get_remove: "ft_get (ft_remove k t) k' = (if k' = k then None else ft_get t k')"
  by (simp add: ft_get_def ft_remove_def)

lemma revise_entries_keys:
  "revise_entries f now es s = (es', s') \<Longrightarrow> (\<forall>x \<in> set es'. fst x \<in> fst ` set es) \<and> length es' \<le> length es \<and>
    (hm_ok es \<longrightarrow> hm_ok es')"
proof (induction f now es s arbitrary: es' s' rule: revise_entries.induct)
  case (2 f now key entry rest s)
  obtain r v s1 where r: "f key (en_value entry) s = (r, v, s1)" by (metis prod_cases3)
  obtain rest' s2 where rest: "revise_entries f now rest s1 = (rest', s2)" by fastforce
  have IH: "(\<forall>x \<in> set rest'. fst x \<in> fst ` set rest) \<and> length rest' \<le> length rest \<and> (hm_ok rest \<longrightarrow> hm_ok rest')"
    using "2.IH" [OF r [symmetric] refl rest] by simp
  show ?case using "2.prems" r rest IH by (cases r) force+
qed simp

text \<open>Each entry that survives a revision is one the closure was asked about and did not forget.\<close>

lemma revise_entries_source:
  "revise_entries f now es s = (es', s') \<Longrightarrow> (k, e') \<in> set es' \<Longrightarrow>
     \<exists>e s1 r v s2. (k, e) \<in> set es \<and> f k (en_value e) s1 = (r, v, s2) \<and> r \<noteq> Forget \<and> en_value e' = v"
proof (induction f now es s arbitrary: es' s' rule: revise_entries.induct)
  case (2 f now key entry rest s)
  obtain r v s1 where r: "f key (en_value entry) s = (r, v, s1)" by (metis prod_cases3)
  obtain rest' s2 where rest: "revise_entries f now rest s1 = (rest', s2)" by fastforce
  note IH = "2.IH" [OF r [symmetric] refl rest]
  show ?case
  proof (cases "(k, e') \<in> set rest'")
    case True
    then show ?thesis using IH by fastforce
  next
    case False
    then have "k = key" "r \<noteq> Forget" "en_value e' = v"
      using "2.prems" r rest by (auto split: Revision.splits)
    then show ?thesis using r by (intro exI [of _ entry]) auto
  qed
qed simp

lemma ft_ok_revise: "ft_ok t \<Longrightarrow> ft_ok (fst (ft_revise f now t s))"
proof -
  assume ok: "ft_ok t"
  obtain es s' where es: "revise_entries f now (ft_entries t) s = (es, s')" by fastforce
  show ?thesis using revise_entries_keys [OF es] ok by (auto simp: ft_revise_def es ft_ok_def)
qed

lemma ft_get_revise:
  assumes "ft_ok t" "ft_get (fst (ft_revise f now t s)) k = Some v'"
  shows "\<exists>v s1 r s2. ft_get t k = Some v \<and> f k v s1 = (r, v', s2) \<and> r \<noteq> Forget"
proof -
  obtain es s' where es: "revise_entries f now (ft_entries t) s = (es, s')" by fastforce
  obtain e' where "hm_get es k = Some e'" "en_value e' = v'"
    using assms(2) by (auto simp: ft_get_def ft_revise_def es)
  then have "(k, e') \<in> set es" by (simp add: map_of_SomeD)
  from revise_entries_source [OF es this] obtain e s1 r v s2 where
    e: "(k, e) \<in> set (ft_entries t)" "f k (en_value e) s1 = (r, v, s2)" "r \<noteq> Forget" "en_value e' = v" by blast
  have "hm_get (ft_entries t) k = Some e" using e(1) assms(1) by (simp add: ft_ok_def)
  then show ?thesis using e \<open>en_value e' = v'\<close> by (auto simp: ft_get_def)
qed

section \<open>The contract of an insertion\<close>

lemma fresh_not_expired: "en_last_seen e = now \<Longrightarrow> \<not> is_expired tr e now"
  by (simp add: is_expired_def duration_since_def)

text \<open>
  C31. Inserting a flow into the table: the table stays within its capacity and holds the new flow,
  live; every other entry it holds was there before, unchanged. An entry is dropped only from a full
  table that did not know the flow, and a live entry only when no entry had expired: then exactly a
  sixteenth of the entries, at least one, goes, none more recently active than any that stays.
\<close>

theorem flow_table_insert:
  assumes "ft_ok t"
  shows "let t' = ft_insert key v d flags now t in
    ft_ok t' \<and> ft_peek key now t' = Some v \<and>
    (\<forall>k e. k \<noteq> key \<longrightarrow> hm_get (ft_entries t') k = Some e \<longrightarrow> hm_get (ft_entries t) k = Some e) \<and>
    (\<forall>k e. k \<noteq> key \<longrightarrow> hm_get (ft_entries t) k = Some e \<longrightarrow> hm_get (ft_entries t') k = None \<longrightarrow>
       length (ft_entries t) = ft_capacity t \<and> hm_get (ft_entries t) key = None \<and>
       (\<not> is_expired (fk_transport k) e now \<longrightarrow>
          (\<forall>(k', e') \<in> set (ft_entries t). \<not> is_expired (fk_transport k') e' now) \<and>
          length (ft_entries t') = length (ft_entries t) - max (length (ft_entries t) div 16) 1 + 1 \<and>
          (\<forall>k' e'. k' \<noteq> key \<longrightarrow> hm_get (ft_entries t') k' = Some e' \<longrightarrow> en_last_seen e \<le> en_last_seen e')))"
proof -
  let ?t = "ft_insert key v d flags now t" and ?m = "make_room key now t" and ?x = "ft_expire now t"
  have ok: "hm_ok (ft_entries t)" "hm_ok (ft_entries ?m)" "set (ft_entries ?m) \<subseteq> set (ft_entries t)"
    using assms make_room_spec [OF assms, of key now] by (auto simp: ft_ok_def)
  have "ft_peek key now ?t = Some v"
    by (simp add: ft_peek_def ft_insert_entries fresh_not_expired)
  moreover have "hm_get (ft_entries t) k = Some e" if "k \<noteq> key" "hm_get (ft_entries ?t) k = Some e" for k e
    using that hm_get_sub [OF ok(1,3,2)] by (simp add: ft_insert_entries)
  moreover have dropped: "length (ft_entries t) = ft_capacity t \<and> hm_get (ft_entries t) key = None"
    if "k \<noteq> key" "hm_get (ft_entries t) k = Some e" "hm_get (ft_entries ?t) k = None" for k e
    using that assms by (auto simp: ft_insert_entries make_room_def ft_ok_def split: if_splits)
  moreover have "(\<forall>(k', e') \<in> set (ft_entries t). \<not> is_expired (fk_transport k') e' now) \<and>
      length (ft_entries ?t) = length (ft_entries t) - max (length (ft_entries t) div 16) 1 + 1 \<and>
      (\<forall>k' e'. k' \<noteq> key \<longrightarrow> hm_get (ft_entries ?t) k' = Some e' \<longrightarrow> en_last_seen e \<le> en_last_seen e')"
    if k: "k \<noteq> key" "hm_get (ft_entries t) k = Some e" "hm_get (ft_entries ?t) k = None"
      and live: "\<not> is_expired (fk_transport k) e now" for k e
  proof -
    note full = dropped [OF k]
    have "hm_get (ft_entries ?x) k = Some e"
      using live k(2) ok(1) by (simp add: ft_expire_def hm_get_filter)
    then have big: "ft_capacity t \<le> length (ft_entries ?x)"
      using k(1,3) full by (auto simp: ft_insert_entries make_room_def Let_def split: if_splits)
    then have none: "ft_entries ?x = ft_entries t"
      using full filter_full [of "ft_entries t"] by (simp add: ft_expire_def)
    then have m: "ft_entries ?m = ft_entries (evict_least_recent t)" "ft_entries t \<noteq> []"
      using full big k(2) by (auto simp: make_room_def Let_def evict_least_recent_def)
    note ev = evict_spec [OF m(2)]
    have new: "hm_get (ft_entries ?m) key = None"
      using full hm_get_sub [OF ok(1,3,2), of key] by fastforce
    have "hm_get (ft_entries ?m) k = None" using k(1,3) by (simp add: ft_insert_entries)
    then have gone: "(k, e) \<in> set (ft_entries t)" "(k, e) \<notin> set (ft_entries (evict_least_recent t))"
      using k(2) m(1) weak_map_of_SomeI by (fastforce dest: map_of_SomeD)+
    have "\<forall>(k', e') \<in> set (ft_entries t). \<not> is_expired (fk_transport k') e' now"
      using none unfolding ft_expire_def by (auto simp: filter_id_conv)
    moreover have "length (ft_entries ?t) = length (ft_entries t) - max (length (ft_entries t) div 16) 1 + 1"
      using length_hm_insert [OF ok(2)] new ev(1) m(1) by (simp add: ft_insert_entries)
    moreover have "en_last_seen e \<le> en_last_seen e'" if "k' \<noteq> key" "hm_get (ft_entries ?t) k' = Some e'" for k' e'
      using ev(3) [OF gone, of "(k', e')"] that m(1) by (simp add: ft_insert_entries map_of_SomeD)
    ultimately show ?thesis by blast
  qed
  ultimately show ?thesis using ft_ok_insert [OF assms] unfolding Let_def by blast
qed

definition sample_udp_flow :: "16 word \<Rightarrow> FlowKey" where
  "sample_udp_flow port =
     \<lparr>fk_transport = FlowUdp, fk_local = SocketV4 0x0a400002 port, fk_remote = SocketV4 0xc6336409 53\<rparr>"

theorem flow_table_insert_witness:
  "let t = ft_insert (sample_udp_flow 1) (7 :: nat) Uplink 0 0 (ft_new 1);
       t' = ft_insert (sample_udp_flow 2) 8 Uplink 0 5 t
   in ft_ok t \<and> ft_ok t' \<and> length (ft_entries t) = ft_capacity t \<and>
      ft_peek (sample_udp_flow 2) 5 t' = Some 8 \<and> ft_peek (sample_udp_flow 1) 5 t' = None"
proof -
  let ?t = "ft_insert (sample_udp_flow 1) (7 :: nat) Uplink 0 0 (ft_new 1)"
  have ok: "ft_ok ?t" by (rule ft_ok_insert [OF ft_ok_new(1)])
  have "length (ft_entries ?t) = ft_capacity ?t" by (simp add: ft_insert_def ft_new_def hm_insert_def Let_def)
  moreover have "ft_peek (sample_udp_flow 1) 5 (ft_insert (sample_udp_flow 2) 8 Uplink 0 5 ?t) = None"
    by (simp add: ft_insert_def ft_new_def hm_insert_def ft_peek_def sample_udp_flow_def ft_expire_def is_expired_def
        evict_least_recent_def duration_since_def UDP_IDLE_def from_secs_def Let_def)
  ultimately show ?thesis
    using flow_table_insert [OF ok, of "sample_udp_flow 2" 8 Uplink 0 5] ok unfolding Let_def by simp
qed

end
