(* ===== verification/Checksum.thy ===== *)
theory Checksum
  imports Packet_Ip
begin

text \<open>
  The Internet checksum: its computation (\<open>checksum\<close> of \<open>talpid-app-routing/src/reset.rs\<close>) and its
  incremental update (\<open>update_checksum\<close> of \<open>talpid-app-routing/src/nat.rs\<close>), on \<open>u32\<close> sums with
  the carries folded back. The lemmas relate both to the sum of the words modulo 65535, without
  overflow of the sum.
\<close>

section \<open>The code\<close>

text \<open>\<open>chunks_exact(2)\<close>, each chunk read as a big-endian \<open>u16\<close>: a last odd byte is dropped.\<close>

fun be_words :: "bytes \<Rightarrow> 16 word list" where
  "be_words (a # b # rest) = u16_from_be a b # be_words rest"
| "be_words _ = []"

definition add_words :: "32 word \<Rightarrow> 16 word list \<Rightarrow> 32 word" where
  "add_words acc ws = foldl (\<lambda>s w. s + ucast w) acc ws"

lemma unat_not_u16: "unat (NOT (x :: 16 word)) = 65535 - unat x"
proof -
  have "x \<le> 65535" using unsigned_less [of x, where 'a = nat] by (simp add: word_le_nat_alt)
  moreover have "NOT x = 65535 - x" by (simp add: not_eq_complement)
  ultimately show ?thesis by (simp add: unat_sub)
qed

lemma unat_carry:
  "unat ((s AND 0xffff) + drop_bit 16 s) = unat s mod 65536 + unat s div 65536" for s :: "32 word"
proof -
  have "s AND 0xffff = take_bit 16 s" by (simp add: take_bit_eq_mask mask_eq_exp_minus_1)
  then have a: "unat (s AND 0xffff) = unat s mod 65536"
    by (simp add: take_bit_eq_mod unat_mod)
  have b: "unat (drop_bit 16 s) = unat s div 65536"
    by (simp add: drop_bit_eq_div unat_div)
  have "unat s < 2 ^ 32" using unsigned_less [of s, where 'a = nat] by simp
  then have "unat s div 65536 < 65536" by simp
  then show ?thesis using a b by (simp add: unat_word_ariths)
qed

function fold_carries :: "32 word \<Rightarrow> 32 word" where
  "fold_carries acc = (if 0xffff < acc then fold_carries ((acc AND 0xffff) + drop_bit 16 acc) else acc)"
  by auto
termination
proof (relation "measure unat")
  fix s :: "32 word" assume "0xffff < s"
  then have "65536 \<le> unat s" by (simp add: word_less_nat_alt)
  then have "unat s div 65536 < unat s div 65536 * 65536" by simp
  then have "unat s mod 65536 + unat s div 65536 < unat s"
    by (metis add_less_mono1 add.commute div_mult_mod_eq)
  then show "((s AND 0xffff) + drop_bit 16 s, s) \<in> measure unat" by (simp add: unat_carry)
qed simp

declare fold_carries.simps [simp del]

definition checksum :: "bytes list \<Rightarrow> 16 word" where
  "checksum parts = NOT (ucast (fold_carries (foldl (\<lambda>acc part. add_words acc (be_words part)) 0 parts)))"

definition update_checksum :: "bytes \<Rightarrow> nat \<Rightarrow> bytes \<Rightarrow> bytes \<Rightarrow> bytes option" where
  "update_checksum packet at old new = do {
     stored \<leftarrow> u16_at packet at;
     let acc = ucast (NOT stored);
     let acc = add_words acc (map (\<lambda>w. NOT w) (be_words old));
     let acc = add_words acc (be_words new);
     overwrite packet at (u16_to_be (NOT (ucast (fold_carries acc))))
   }"

section \<open>Sums of words\<close>

text \<open>The sum of the big-endian words of a buffer, a last odd byte padded with zero.\<close>

fun wsum :: "bytes \<Rightarrow> nat" where
  "wsum [] = 0"
| "wsum [a] = 256 * unat a"
| "wsum (a # b # rest) = 256 * unat a + unat b + wsum rest"

lemma mod_add_cancel_nat: "(a + c) mod m = (b + c) mod m \<longleftrightarrow> a mod m = b mod m" for a b c m :: nat
  by (auto simp: nat_mod_eq_iff)

lemma wsum_append: "even (length xs) \<Longrightarrow> wsum (xs @ ys) = wsum xs + wsum ys"
  by (induction xs rule: wsum.induct) auto

lemma wsum_be_words: "even (length xs) \<Longrightarrow> sum_list (map unat (be_words xs)) = wsum xs"
  by (induction xs rule: be_words.induct) (auto simp: unat_u16_from_be)

lemma length_be_words: "length (be_words xs) = length xs div 2"
  by (induction xs rule: be_words.induct) auto

lemma wsum_overwrite:
  assumes "overwrite s at new = Some t" "slice s at (at + length new) = Some old"
    and "even at" "even (length new)"
  shows "wsum t + wsum old = wsum s + wsum new"
proof -
  note t = overwrite_SomeD [OF assms(1)] and o = slice_SomeD [OF assms(2)]
  have s: "s = take at s @ old @ drop (at + length new) s"
    using o by (metis add_diff_cancel_left' append_take_drop_id drop_drop add.commute)
  have len: "length (take at s) = at" "length old = length new" using t(1) o by auto
  have "wsum t = wsum (take at s) + wsum new + wsum (drop (at + length new) s)"
    unfolding t(3) using assms(3,4) len by (simp add: wsum_append)
  moreover have "wsum s = wsum (take at s) + wsum old + wsum (drop (at + length new) s)"
    by (subst s) (use assms(3,4) len in \<open>simp add: wsum_append\<close>)
  ultimately show ?thesis by simp
qed

lemma u16_bound: "unat (w :: 16 word) \<le> 65535"
  using unsigned_less [of w, where 'a = nat] by simp

lemma sum_list_u16_bound: "sum_list (map unat (ws :: 16 word list)) \<le> 65535 * length ws"
  by (induction ws) (use u16_bound in \<open>auto intro: add_le_mono\<close>)

lemma unat_add_words:
  assumes "unat acc + 65535 * length ws < 2 ^ 32"
  shows "unat (add_words acc ws) = unat acc + sum_list (map unat ws)"
  using assms
proof (induction ws arbitrary: acc)
  case (Cons w ws)
  have w: "unat (ucast w :: 32 word) = unat w" by (simp add: unsigned_ucast_eq take_bit_nat_eq_self
      less_le_trans [OF unsigned_less])
  have "unat acc + unat w < 2 ^ 32" using Cons.prems u16_bound [of w] by simp
  then have s: "unat (acc + ucast w) = unat acc + unat w" using w by (simp add: unat_word_ariths)
  then have "unat (add_words (acc + ucast w) ws) = unat (acc + ucast w) + sum_list (map unat ws)"
    using Cons.prems u16_bound [of w] by (intro Cons.IH) simp
  then show ?case using s by (simp add: add_words_def)
qed (simp add: add_words_def)

text \<open>Folding keeps the sum modulo 65535 and is zero on zero only.\<close>

lemma fold_carries_props:
  "unat (fold_carries s) \<le> 65535 \<and> unat (fold_carries s) mod 65535 = unat s mod 65535 \<and>
   (fold_carries s = 0 \<longleftrightarrow> s = 0)"
proof (induction s rule: fold_carries.induct)
  case (1 s)
  show ?case
  proof (cases "0xffff < s")
    case True
    let ?t = "(s AND 0xffff) + drop_bit 16 s"
    have big: "65536 \<le> unat s" using True by (simp add: word_less_nat_alt)
    then have "unat ?t \<noteq> 0" unfolding unat_carry by (simp add: div_greater_zero_iff)
    then have "?t \<noteq> 0" by (metis unat_0)
    moreover have "unat ?t mod 65535 = unat s mod 65535"
    proof -
      have "unat s = 65535 * (unat s div 65536) + unat ?t"
        unfolding unat_carry using div_mult_mod_eq [of "unat s" 65536] by linarith
      then show ?thesis by (metis mod_mult_self4)
    qed
    ultimately show ?thesis using 1 True big by (subst (1 2 3) fold_carries.simps) auto
  next
    case False
    then show ?thesis by (subst (1 2 3) fold_carries.simps) (simp add: word_less_nat_alt)
  qed
qed

lemma unat_ucast_fold: "unat (ucast (fold_carries s) :: 16 word) = unat (fold_carries s)"
  using fold_carries_props [of s] by (simp add: unsigned_ucast_eq take_bit_nat_eq_self)

text \<open>The folded complement: what is stored as a checksum for a sum of words.\<close>

lemma stored_checksum:
  "(unat (NOT (ucast (fold_carries s)) :: 16 word) + unat s) mod 65535 = 0"
  "unat (NOT (ucast (fold_carries s)) :: 16 word) = 65535 \<longleftrightarrow> s = 0"
proof -
  let ?F = "unat (fold_carries s)"
  note p = fold_carries_props [of s]
  have n: "unat (NOT (ucast (fold_carries s)) :: 16 word) = 65535 - ?F"
    by (simp add: unat_not_u16 unat_ucast_fold)
  have "(65535 - ?F + ?F) mod 65535 = (0::nat)" using p by simp
  then show "(unat (NOT (ucast (fold_carries s)) :: 16 word) + unat s) mod 65535 = 0"
    unfolding n using p by (metis mod_add_right_eq)
  show "unat (NOT (ucast (fold_carries s)) :: 16 word) = 65535 \<longleftrightarrow> s = 0"
    unfolding n using p by (auto simp: word_unat_eq_iff)
qed

section \<open>Incremental update\<close>

text \<open>
  RFC 1624: the new field plus the new words is the old field plus the old words, modulo 65535, and
  the new field is all ones only in one case.
\<close>

lemma update_checksum_field:
  assumes "update_checksum p at old new = Some q" "length new = length old" "even (length old)" "length old \<le> 16"
  obtains c c' where "u16_at p at = Some c" "overwrite p at (u16_to_be c') = Some q"
    "(unat c' + wsum new) mod 65535 = (unat c + wsum old) mod 65535"
    "c' = 65535 \<Longrightarrow> c = 65535 \<and> wsum new = 0"
proof -
  obtain c where c: "u16_at p at = Some c" using assms(1) by (auto simp: update_checksum_def bind_eq_Some_conv)
  define S where "S = add_words (add_words (ucast (NOT c)) (map (\<lambda>w. NOT w) (be_words old))) (be_words new)"
  define c' :: "16 word" where "c' = NOT (ucast (fold_carries S))"
  have q: "overwrite p at (u16_to_be c') = Some q"
    using assms(1) c by (simp add: update_checksum_def c'_def S_def Let_def)
  let ?n = "length (be_words old)"
  have n: "?n \<le> 8" "length (be_words new) = ?n" using assms(2,4) by (auto simp: length_be_words)
  have nots: "sum_list (map unat (map (\<lambda>w. NOT w) ws)) + sum_list (map unat ws) = 65535 * length ws" for ws :: "16 word list"
  proof (induction ws)
    case (Cons w ws)
    then show ?case using u16_bound [of w] by (simp add: unat_not_u16)
  qed simp
  have un: "unat (ucast (NOT c) :: 32 word) = 65535 - unat c"
    using u16_bound [of "NOT c"] by (simp add: unsigned_ucast_eq take_bit_nat_eq_self unat_not_u16)
  have inner: "unat (add_words (ucast (NOT c)) (map (\<lambda>w. NOT w) (be_words old))) =
      65535 - unat c + sum_list (map unat (map (\<lambda>w. NOT w) (be_words old)))"
    using n un by (subst unat_add_words) auto
  have "unat S = 65535 - unat c + sum_list (map unat (map (\<lambda>w. NOT w) (be_words old))) + wsum new"
    unfolding S_def
    using n inner sum_list_u16_bound [of "map (\<lambda>w. NOT w) (be_words old)"] wsum_be_words [of new] assms(2,3)
    by (subst unat_add_words) auto
  then have S: "unat S + (unat c + wsum old) = 65535 * Suc ?n + wsum new"
    using nots [of "be_words old"] wsum_be_words [OF assms(3)] u16_bound [of c] by simp
  have "(unat c' + unat S) mod 65535 = 0" unfolding c'_def by (rule stored_checksum(1))
  then have "(unat c + wsum old) mod 65535 = (unat c' + unat S + (unat c + wsum old)) mod 65535"
    by (metis add_0 mod_add_left_eq)
  also have "unat c' + unat S + (unat c + wsum old) = unat c' + wsum new + 65535 * Suc ?n"
    using S by simp
  finally have m: "(unat c' + wsum new) mod 65535 = (unat c + wsum old) mod 65535"
    by (metis mod_mult_self2)
  have "c = 65535 \<and> wsum new = 0" if "c' = 65535"
  proof -
    have "S = 0" using stored_checksum(2) [of S] that unfolding c'_def by simp
    then show ?thesis using S \<open>unat S = _\<close> u16_bound [of c] by (auto simp: word_unat_eq_iff)
  qed
  with c q m show thesis by (rule that)
qed

end
