(* ===== verification/Packet_Nat.thy ===== *)
theory Packet_Nat
  imports Checksum
begin

text \<open>
  In-place address translation (\<open>talpid-app-routing/src/nat.rs\<close>): the source of a routed packet is
  rewritten on its way out and the destination of an answer on its way back, with the IPv4 header
  checksum, the transport checksum and, in an ICMP error, the quoted packet kept valid by incremental
  updates. The theorems state that a rewrite never panics, that it changes the address it is asked to
  change and no other, that valid checksums stay valid, and that rewriting back restores the packet.
\<close>

section \<open>The code\<close>

datatype NatError = NatPacket PacketError | FamilyMismatch

datatype Side = SideSource | SideDestination

record AddrBytes =
  ab_bytes :: bytes
  ab_len :: nat

definition addr_of :: "IpAddr \<Rightarrow> AddrBytes" where
  "addr_of addr =
     (case addr of
        V4 v4 \<Rightarrow> \<lparr>ab_bytes = to_be 4 (unat v4) @ replicate 12 0, ab_len = 4\<rparr>
      | V6 v6 \<Rightarrow> \<lparr>ab_bytes = to_be 16 (unat v6), ab_len = 16\<rparr>)"

definition addr_from_slice :: "bytes \<Rightarrow> AddrBytes option" where
  "addr_from_slice b = do {
     bs \<leftarrow> overwrite (replicate 16 0) 0 b;
     Some \<lparr>ab_bytes = bs, ab_len = length b\<rparr>
   }"

definition as_slice :: "AddrBytes \<Rightarrow> bytes" where
  "as_slice a = take (ab_len a) (ab_bytes a)"

definition is_icmp_error :: "Family \<Rightarrow> byte \<Rightarrow> bool" where
  "is_icmp_error family message_type =
     (case family of
        FamilyV4 \<Rightarrow> message_type \<in> {3, 11, 12}
      | FamilyV6 \<Rightarrow> 1 \<le> message_type \<and> message_type \<le> 4)"

definition rewrite_quoted_source :: "bytes \<Rightarrow> Layout \<Rightarrow> AddrBytes \<Rightarrow> AddrBytes \<Rightarrow> bytes option" where
  "rewrite_quoted_source packet layout old new = do {
     let icmp = la_l4_offset layout;
     let quoted_start = icmp + 8;
     q \<leftarrow> slice packet quoted_start (la_end layout);
     located \<leftarrow> locate_quoted q;
     case located of
       Inl _ \<Rightarrow> Some packet
     | Inr quoted \<Rightarrow>
         if la_family quoted \<noteq> la_family layout then Some packet
         else do {
           let src = src_range quoted;
           s \<leftarrow> slice packet (quoted_start + fst src) (quoted_start + snd src);
           if s \<noteq> as_slice old then Some packet
           else do {
             packet \<leftarrow> overwrite packet (quoted_start + fst src) (as_slice new);
             packet \<leftarrow> update_checksum packet (icmp + 2) (as_slice old) (as_slice new);
             if la_family quoted = FamilyV4 then do {
               let field = quoted_start + 10;
               prior \<leftarrow> slice packet field (field + 2);
               packet \<leftarrow> update_checksum packet field (as_slice old) (as_slice new);
               after \<leftarrow> slice packet field (field + 2);
               update_checksum packet (icmp + 2) prior after
             } else Some packet
           }
         }
   }"

definition rewrite_transport :: "bytes \<Rightarrow> Layout \<Rightarrow> AddrBytes \<Rightarrow> AddrBytes \<Rightarrow> Side \<Rightarrow> bytes option" where
  "rewrite_transport packet layout old new side =
     (let l4 = la_l4_offset layout; available = la_end layout - l4; protocol = la_protocol layout in
      if protocol = PROTO_TCP \<and> 18 \<le> available then
        update_checksum packet (l4 + 16) (as_slice old) (as_slice new)
      else if protocol = PROTO_UDP \<and> 8 \<le> available then do {
        c \<leftarrow> u16_at packet (l4 + 6);
        if la_family layout = FamilyV6 \<or> c \<noteq> 0 then do {
          packet \<leftarrow> update_checksum packet (l4 + 6) (as_slice old) (as_slice new);
          c \<leftarrow> u16_at packet (l4 + 6);
          if c = 0 then overwrite packet (l4 + 6) [0xff, 0xff] else Some packet
        } else Some packet
      }
      else if protocol \<in> {PROTO_ICMP, PROTO_ICMPV6} \<and> 8 \<le> available then do {
        packet \<leftarrow> (if protocol = PROTO_ICMPV6
          then update_checksum packet (l4 + 2) (as_slice old) (as_slice new) else Some packet);
        message_type \<leftarrow> index packet l4;
        if side = SideDestination \<and> is_icmp_error (la_family layout) message_type
        then rewrite_quoted_source packet layout old new else Some packet
      }
      else Some packet)"

definition side_range :: "Side \<Rightarrow> Layout \<Rightarrow> nat \<times> nat" where
  "side_range side l = (case side of SideSource \<Rightarrow> src_range l | SideDestination \<Rightarrow> dst_range l)"

text \<open>The \<open>From\<close> conversion of \<open>?\<close>.\<close>

definition from_packet_error :: "(PacketError, 'a) outcome \<Rightarrow> (NatError, 'a) outcome" where
  "from_packet_error r = map_option (\<lambda>r. case r of Inl e \<Rightarrow> Inl (NatPacket e) | Inr a \<Rightarrow> Inr a) r"

definition rewrite :: "bytes \<Rightarrow> IpAddr \<Rightarrow> Side \<Rightarrow> (NatError, bytes) outcome" where
  "rewrite packet new side =
     obind (from_packet_error (locate packet)) (\<lambda>layout.
       let new = addr_of new;
           family_len = (case la_family layout of FamilyV4 \<Rightarrow> 4 | FamilyV6 \<Rightarrow> 16)
       in if ab_len new \<noteq> family_len then Some (Inl FamilyMismatch)
          else do {
            let range = side_range side layout;
            b \<leftarrow> slice packet (fst range) (snd range);
            old \<leftarrow> addr_from_slice b;
            packet \<leftarrow> overwrite packet (fst range) (as_slice new);
            packet \<leftarrow> (if la_family layout = FamilyV4
              then update_checksum packet 10 (as_slice old) (as_slice new) else Some packet);
            packet \<leftarrow> (if has_transport layout
              then rewrite_transport packet layout old new side else Some packet);
            Some (Inr packet)
          })"

definition rewrite_source :: "bytes \<Rightarrow> IpAddr \<Rightarrow> (NatError, bytes) outcome" where
  "rewrite_source packet new = rewrite packet new SideSource"

definition rewrite_destination :: "bytes \<Rightarrow> IpAddr \<Rightarrow> (NatError, bytes) outcome" where
  "rewrite_destination packet new = rewrite packet new SideDestination"

section \<open>Sums of regions\<close>

abbreviation modulus :: nat where "modulus \<equiv> 65535"

text \<open>The sum of the bytes \<open>a..b\<close> of a packet with what follows them in their datagram.\<close>

definition region :: "bytes \<Rightarrow> nat \<Rightarrow> nat \<Rightarrow> bytes \<Rightarrow> nat" where
  "region p a b rest = wsum (take (b - a) (drop a p) @ rest)"

lemma region_overwrite_in:
  assumes "overwrite p at new = Some q" "a \<le> at" "at + length new \<le> b" "b \<le> length p"
    and "even (at - a)" "even (length new)"
  shows "region q a b rest + wsum (take (length new) (drop at p)) = region p a b rest + wsum new"
proof -
  let ?s = "take (b - a) (drop a p)"
  have "slice p a b = Some ?s" using assms(2-4) by (simp add: slice_def)
  from slice_overwrite_within [OF assms(1-3) this] obtain t where
    t: "overwrite ?s (at - a) new = Some t" "slice q a b = Some t" by blast
  have le: "at - a + length new \<le> length ?s" using overwrite_SomeD(1) [OF t(1)] .
  have ov: "overwrite (?s @ rest) (at - a) new = Some (t @ rest)"
    using overwrite_SomeD(3) [OF t(1)] le by (simp add: overwrite_def del: length_take)
  have "take (length new) (drop (at - a) ?s) = take (length new) (drop at p)"
    using assms(2,3) by (simp add: drop_take min_absorb1)
  then have "slice (?s @ rest) (at - a) (at - a + length new) = Some (take (length new) (drop at p))"
    using le by (simp add: slice_def del: length_take)
  from wsum_overwrite [OF ov this assms(5,6)] show ?thesis
    using slice_SomeD [OF t(2)] by (simp add: region_def)
qed

lemma region_overwrite_out:
  assumes "overwrite p at new = Some q" "b \<le> at \<or> at + length new \<le> a" "b \<le> length p" "a \<le> b"
  shows "region q a b rest = region p a b rest"
  using slice_overwrite_disjoint [OF assms(1,2)] assms(3,4) overwrite_SomeD(2) [OF assms(1)]
  by (simp add: region_def slice_def)

lemma wsum_u16_at:
  assumes "u16_at p at = Some c"
  shows "wsum (take 2 (drop at p)) = unat c"
proof -
  have at: "Suc at < length p" and c: "c = u16_from_be (p ! at) (p ! Suc at)"
    using assms by (auto simp: u16_at_def index_def bind_eq_Some_conv split: if_splits)
  then have "drop at p = p ! at # p ! Suc at # drop (Suc (Suc at)) p"
    by (simp add: Cons_nth_drop_Suc)
  then show ?thesis using c by (simp add: numeral_2_eq_2 unat_u16_from_be)
qed

lemma region_update_in:
  assumes "update_checksum p at old new = Some q" "length new = length old" "even (length old)" "length old \<le> 16"
    and "a \<le> at" "at + 2 \<le> b" "b \<le> length p" "even (at - a)"
  shows "(region q a b rest + wsum new) mod modulus = (region p a b rest + wsum old) mod modulus"
proof -
  from update_checksum_field [OF assms(1-4)] obtain c c' where
    c: "u16_at p at = Some c" "overwrite p at (u16_to_be c') = Some q"
      "(unat c' + wsum new) mod modulus = (unat c + wsum old) mod modulus" by metis
  obtain x y where xy: "u16_to_be c' = [x, y]" by (rule u16_to_be_cases)
  have new: "wsum (u16_to_be c') = unat c'"
    using unat_u16_from_be [of x y] u16_from_to_be [OF xy] xy by simp
  note old = wsum_u16_at [OF c(1)]
  have "region q a b rest + unat c = region p a b rest + unat c'"
    using region_overwrite_in [OF c(2), of a b rest] assms(5-8) new old by simp
  then have "region q a b rest + wsum new + unat c = region p a b rest + (unat c' + wsum new)" by simp
  then have "(region q a b rest + wsum new + unat c) mod modulus = (region p a b rest + (unat c + wsum old)) mod modulus"
    using c(3) by (metis mod_add_right_eq)
  also have "region p a b rest + (unat c + wsum old) = region p a b rest + wsum old + unat c" by simp
  finally show ?thesis unfolding mod_add_cancel_nat .
qed

lemma update_overwrites:
  "update_checksum p at old new = Some q \<Longrightarrow> \<exists>c. overwrite p at (u16_to_be c) = Some q"
  by (auto simp: update_checksum_def bind_eq_Some_conv Let_def)

lemma update_total: "at + 2 \<le> length p \<Longrightarrow> update_checksum p at old new \<noteq> None"
  by (simp add: update_checksum_def byte_simps Let_def)

lemma region_update_out:
  assumes "update_checksum p at old new = Some q" "b \<le> at \<or> at + 2 \<le> a" "b \<le> length p" "a \<le> b"
  shows "region q a b rest = region p a b rest"
  using update_overwrites [OF assms(1)] region_overwrite_out assms(2-4) by fastforce

text \<open>Packets of the same length that agree below an offset.\<close>

definition same_below :: "nat \<Rightarrow> bytes \<Rightarrow> bytes \<Rightarrow> bool" where
  "same_below n p q \<longleftrightarrow> length q = length p \<and> (\<forall>i < n. q ! i = p ! i)"

lemma same_below_refl [simp]: "same_below n p p"
  by (simp add: same_below_def)

lemma same_below_trans [trans]: "same_below n p q \<Longrightarrow> same_below n q r \<Longrightarrow> same_below n p r"
  by (simp add: same_below_def)

lemma same_below_overwrite: "overwrite p at bs = Some q \<Longrightarrow> n \<le> at \<Longrightarrow> same_below n p q"
proof -
  assume a: "overwrite p at bs = Some q" "n \<le> at"
  note q = overwrite_SomeD [OF a(1)]
  have "q ! i = p ! i" if "i < n" for i using overwrite_nth [OF a(1), of i] a(2) q(1) that by simp
  then show ?thesis using q(2) by (simp add: same_below_def)
qed

lemma same_below_update: "update_checksum p at old new = Some q \<Longrightarrow> n \<le> at \<Longrightarrow> same_below n p q"
  using update_overwrites same_below_overwrite by blast

lemma same_below_region: "same_below n p q \<Longrightarrow> b \<le> n \<Longrightarrow> region q a b rest = region p a b rest"
  by (auto simp: same_below_def region_def intro!: arg_cong [where f = "\<lambda>x. wsum (x @ rest)"] nth_equalityI)

section \<open>The quoted packet\<close>

text \<open>The quoted IPv4 header checksum is updated, and the ICMP checksum for that change.\<close>

lemma quoted_header_fix:
  assumes "slice p (icmp + 18) (icmp + 20) = Some prior" "update_checksum p (icmp + 18) old new = Some p'"
    and "slice p' (icmp + 18) (icmp + 20) = Some after" "update_checksum p' (icmp + 2) prior after = Some q"
    and "icmp + 20 \<le> e" "e \<le> length p"
  shows "same_below (icmp + 2) p q \<and> region q icmp e rest mod modulus = region p icmp e rest mod modulus"
proof
  obtain c where c: "overwrite p (icmp + 18) (u16_to_be c) = Some p'" using update_overwrites [OF assms(2)] by blast
  have l: "length p' = length p" using overwrite_SomeD(2) [OF c] .
  have a: "after = u16_to_be c" using slice_overwrite_same [OF c] assms(3) by (simp add: add.commute)
  have bf: "prior = take 2 (drop (icmp + 18) p)" "length prior = 2" using slice_SomeD [OF assms(1)] by auto
  have "region p' icmp e rest + wsum prior = region p icmp e rest + wsum after"
    using region_overwrite_in [OF c, of icmp e rest] assms(5,6) a bf by simp
  moreover have "(region q icmp e rest + wsum after) mod modulus = (region p' icmp e rest + wsum prior) mod modulus"
    using region_update_in [OF assms(4), of icmp e rest] assms(5,6) l a bf by simp
  ultimately show "region q icmp e rest mod modulus = region p icmp e rest mod modulus"
    by (simp add: mod_add_cancel_nat)
  have "same_below (icmp + 2) p p'" by (rule same_below_overwrite [OF c]) simp
  also have "same_below (icmp + 2) p' q" by (rule same_below_update [OF assms(4)]) simp
  finally show "same_below (icmp + 2) p q" .
qed

lemma quoted_source_spec:
  assumes "rewrite_quoted_source p l old new = Some q" "la_l4_offset l + 8 \<le> la_end l" "la_end l \<le> length p"
    and len: "length (as_slice new) = length (as_slice old)" "even (length (as_slice old))" "length (as_slice old) \<le> 16"
  shows "same_below (la_l4_offset l + 2) p q \<and>
    region q (la_l4_offset l) (la_end l) rest mod modulus = region p (la_l4_offset l) (la_end l) rest mod modulus"
proof -
  let ?icmp = "la_l4_offset l" and ?e = "la_end l" and ?o = "as_slice old" and ?n = "as_slice new"
  obtain b r where b: "slice p (?icmp + 8) ?e = Some b" and r: "locate_quoted b = Some r"
    using assms(1) by (auto simp: rewrite_quoted_source_def bind_eq_Some_conv Let_def)
  show ?thesis
  proof (cases "\<exists>quoted. r = Inr quoted \<and> la_family quoted = la_family l \<and>
      slice p (?icmp + 8 + fst (src_range quoted)) (?icmp + 8 + snd (src_range quoted)) = Some ?o")
    case False
    then have "q = p" using assms(1) b r
      by (auto simp: rewrite_quoted_source_def bind_eq_Some_conv Let_def split: sum.splits if_splits)
    then show ?thesis by simp
  next
    case True
    then obtain quoted where quoted: "r = Inr quoted" "la_family quoted = la_family l"
      and s: "slice p (?icmp + 8 + fst (src_range quoted)) (?icmp + 8 + snd (src_range quoted)) = Some ?o" by blast
    define at where "at = ?icmp + 8 + fst (src_range quoted)"
    have bnd: "at + length ?n \<le> ?e" "even (at - ?icmp)" "?icmp + 20 \<le> ?e" "?icmp + 8 \<le> at"
      and o: "take (length ?n) (drop at p) = ?o"
      using locate_ok(2) [of b quoted] r quoted(1) slice_SomeD [OF b] slice_SomeD [OF s] len(1)
      by (auto simp: layout_ok_def at_def src_range_def split: Family.splits)
    have v4: "?icmp + 20 \<le> ?e" using bnd by simp
    have eq: "do { p1 \<leftarrow> overwrite p at ?n; p2 \<leftarrow> update_checksum p1 (?icmp + 2) ?o ?n;
        if la_family l = FamilyV4 then do {
          prior \<leftarrow> slice p2 (?icmp + 18) (?icmp + 20); p3 \<leftarrow> update_checksum p2 (?icmp + 18) ?o ?n;
          after \<leftarrow> slice p3 (?icmp + 18) (?icmp + 20); update_checksum p3 (?icmp + 2) prior after
        } else Some p2 } = Some q"
      using assms(1) b r quoted s unfolding rewrite_quoted_source_def Let_def at_def
      by (simp cong: if_cong add: ac_simps)
    obtain p1 where p1: "overwrite p at ?n = Some p1" using eq by (cases "overwrite p at ?n") simp_all
    obtain p2 where p2: "update_checksum p1 (?icmp + 2) ?o ?n = Some p2"
      using eq p1 by (cases "update_checksum p1 (?icmp + 2) ?o ?n") simp_all
    note rest = eq [unfolded p1 bind.bind_lunit p2]
    have l1: "length p1 = length p" using overwrite_SomeD(2) [OF p1] .
    have "region p1 ?icmp ?e rest + wsum ?o = region p ?icmp ?e rest + wsum ?n"
      using region_overwrite_in [OF p1, of ?icmp ?e rest] bnd o assms(3) len by simp
    moreover have "(region p2 ?icmp ?e rest + wsum ?n) mod modulus = (region p1 ?icmp ?e rest + wsum ?o) mod modulus"
      using region_update_in [OF p2 len, of ?icmp ?e rest] bnd assms(3) l1 by simp
    ultimately have two: "region p2 ?icmp ?e rest mod modulus = region p ?icmp ?e rest mod modulus"
      by (simp add: mod_add_cancel_nat)
    have below: "same_below (?icmp + 2) p p1" "same_below (?icmp + 2) p1 p2"
      using same_below_overwrite [OF p1, of "?icmp + 2"] same_below_update [OF p2] bnd(4) by auto
    show ?thesis
    proof (cases "la_family l = FamilyV4")
      case False
      then show ?thesis using rest two same_below_trans [OF below] by simp
    next
      case True
      then obtain prior p3 after where prior: "slice p2 (?icmp + 18) (?icmp + 20) = Some prior"
        and p3: "update_checksum p2 (?icmp + 18) ?o ?n = Some p3"
        and after: "slice p3 (?icmp + 18) (?icmp + 20) = Some after"
        and q: "update_checksum p3 (?icmp + 2) prior after = Some q"
        using rest by (simp add: bind_eq_Some_conv del: One_nat_def) blast
      have "length p2 = length p" using below l1 by (simp add: same_below_def)
      from quoted_header_fix [OF prior p3 after q, of ?e rest] this v4 assms(3) two same_below_trans [OF below]
      show ?thesis using same_below_trans by auto
    qed
  qed
qed

section \<open>The transport checksum\<close>

text \<open>Whether the code keeps a transport checksum for this layout.\<close>

definition checked :: "Layout \<Rightarrow> bool" where
  "checked l \<longleftrightarrow> has_transport l \<and>
     (la_protocol l = PROTO_TCP \<and> 18 \<le> la_end l - la_l4_offset l \<or>
      la_protocol l \<in> {PROTO_UDP, PROTO_ICMP, PROTO_ICMPV6} \<and> 8 \<le> la_end l - la_l4_offset l)"

text \<open>Over IPv4 a zero UDP checksum means that there is none.\<close>

definition unchecked_udp :: "Layout \<Rightarrow> bytes \<Rightarrow> bool" where
  "unchecked_udp l p \<longleftrightarrow>
     la_protocol l = PROTO_UDP \<and> la_family l = FamilyV4 \<and> u16_at p (la_l4_offset l + 6) = Some 0"

lemma proto_distinct [simp]:
  "PROTO_TCP \<noteq> PROTO_UDP" "PROTO_TCP \<noteq> PROTO_ICMP" "PROTO_TCP \<noteq> PROTO_ICMPV6" "PROTO_UDP \<noteq> PROTO_TCP"
  "PROTO_UDP \<noteq> PROTO_ICMP" "PROTO_UDP \<noteq> PROTO_ICMPV6" "PROTO_ICMP \<noteq> PROTO_TCP" "PROTO_ICMP \<noteq> PROTO_UDP"
  "PROTO_ICMP \<noteq> PROTO_ICMPV6" "PROTO_ICMPV6 \<noteq> PROTO_TCP" "PROTO_ICMPV6 \<noteq> PROTO_UDP" "PROTO_ICMPV6 \<noteq> PROTO_ICMP"
  by (simp_all add: proto_defs)

lemma udp_spec:
  assumes "u16_at p at = Some c" "update_checksum p at old new = Some p1" "u16_at p1 at = Some d"
    and "(if d = 0 then overwrite p1 at [0xff, 0xff] else Some p1) = Some q"
    and len: "length new = length old" "even (length old)" "length old \<le> 16"
    and "l4 \<le> at" "at + 2 \<le> e" "e \<le> length p" "even (at - l4)"
  shows "same_below at p q" "(region q l4 e rest + wsum new) mod modulus = (region p l4 e rest + wsum old) mod modulus"
proof -
  have below: "same_below at p p1" by (rule same_below_update [OF assms(2)]) simp
  note upd = region_update_in [OF assms(2) len assms(8-11), of rest]
  show "same_below at p q"
    using below same_below_trans same_below_overwrite [of p1 at "[0xff, 0xff]" q at] assms(4) by (auto split: if_splits)
  show "(region q l4 e rest + wsum new) mod modulus = (region p l4 e rest + wsum old) mod modulus"
  proof (cases "d = 0")
    case True
    then have q: "overwrite p1 at [0xff, 0xff] = Some q" using assms(4) by simp
    have "wsum (take (Suc (Suc 0)) (drop at p1)) = 0"
      using wsum_u16_at [OF assms(3)] True by (simp add: numeral_2_eq_2)
    then have "region q l4 e rest = region p1 l4 e rest + modulus"
      using region_overwrite_in [OF q, of l4 e rest] assms(8-11) below by (simp add: same_below_def)
    then show ?thesis using upd by (metis add.commute group_cancel.add2 mod_add_self2)
  qed (use upd assms(4) in simp)
qed

lemma transport_spec:
  assumes "rewrite_transport p l old new side = Some q" "layout_ok p l"
    and len: "length (as_slice new) = length (as_slice old)" "even (length (as_slice old))" "length (as_slice old) \<le> 16"
  shows "same_below (la_l4_offset l + 2) p q \<and>
    (la_protocol l = PROTO_ICMP \<longrightarrow> q = p \<or> p ! la_l4_offset l \<noteq> 0) \<and>
    (checked l \<longrightarrow> (if unchecked_udp l p then q = p else
      (region q (la_l4_offset l) (la_end l) rest + (if la_protocol l = PROTO_ICMP then 0 else wsum (as_slice new))) mod modulus =
      (region p (la_l4_offset l) (la_end l) rest + (if la_protocol l = PROTO_ICMP then 0 else wsum (as_slice old))) mod modulus))"
proof -
  let ?l4 = "la_l4_offset l" and ?e = "la_end l" and ?o = "as_slice old" and ?n = "as_slice new"
  have e: "?e \<le> length p" using assms(2) by (simp add: layout_ok_def)
  consider (tcp) "la_protocol l = PROTO_TCP" "18 \<le> ?e - ?l4" | (udp) "la_protocol l = PROTO_UDP" "8 \<le> ?e - ?l4"
    | (icmp) "la_protocol l \<in> {PROTO_ICMP, PROTO_ICMPV6}" "8 \<le> ?e - ?l4"
    | (none) "q = p" "\<not> checked l"
    using assms(1) by (fastforce simp: rewrite_transport_def Let_def checked_def split: if_splits)
  then show ?thesis
  proof cases
    case tcp
    then have u: "update_checksum p (?l4 + 16) ?o ?n = Some q"
      using assms(1) by (simp add: rewrite_transport_def Let_def)
    then show ?thesis
      using region_update_in [OF u len, of ?l4 ?e rest] same_below_update [OF u, of "?l4 + 2"] tcp e
      by (simp add: unchecked_udp_def)
  next
    case udp
    obtain c where c: "u16_at p (?l4 + 6) = Some c"
      using udp e by (simp add: byte_simps)
    show ?thesis
    proof (cases "la_family l = FamilyV6 \<or> c \<noteq> 0")
      case True
      then obtain p1 d where s: "update_checksum p (?l4 + 6) ?o ?n = Some p1" "u16_at p1 (?l4 + 6) = Some d"
        "(if d = 0 then overwrite p1 (?l4 + 6) [0xff, 0xff] else Some p1) = Some q"
        using assms(1) udp c by (auto simp: rewrite_transport_def Let_def bind_eq_Some_conv)
      from udp_spec [OF c s len, of ?l4 ?e] udp e True c show ?thesis
        by (auto simp: same_below_def unchecked_udp_def)
    next
      case False
      then have "q = p" "unchecked_udp l p"
        using assms(1) udp c by (auto simp: rewrite_transport_def Let_def unchecked_udp_def intro: Family.exhaust)
      then show ?thesis by simp
    qed
  next
    case icmp
    obtain p1 t where p1: "(if la_protocol l = PROTO_ICMPV6 then update_checksum p (?l4 + 2) ?o ?n else Some p) = Some p1"
      and t: "index p1 ?l4 = Some t"
      and q: "(if side = SideDestination \<and> is_icmp_error (la_family l) t
        then rewrite_quoted_source p1 l old new else Some p1) = Some q"
    proof -
      have "do { p1 \<leftarrow> (if la_protocol l = PROTO_ICMPV6 then update_checksum p (?l4 + 2) ?o ?n else Some p);
          t \<leftarrow> index p1 ?l4; if side = SideDestination \<and> is_icmp_error (la_family l) t
            then rewrite_quoted_source p1 l old new else Some p1 } = Some q"
        using assms(1) icmp unfolding rewrite_transport_def Let_def by fastforce
      then show thesis using that unfolding bind_eq_Some_conv by blast
    qed
    have l1: "same_below (?l4 + 2) p p1" using p1 same_below_update [of p "?l4 + 2"] by (auto split: if_splits)
    have r1: "(region p1 ?l4 ?e rest + (if la_protocol l = PROTO_ICMP then 0 else wsum ?n)) mod modulus =
      (region p ?l4 ?e rest + (if la_protocol l = PROTO_ICMP then 0 else wsum ?o)) mod modulus"
      using p1 region_update_in [of p "?l4 + 2" ?o ?n p1 ?l4 ?e rest] len icmp e by (auto split: if_splits)
    have r2: "same_below (?l4 + 2) p1 q \<and> region q ?l4 ?e rest mod modulus = region p1 ?l4 ?e rest mod modulus"
      using q quoted_source_spec [of p1 l old new q rest] icmp e len l1 by (auto simp: same_below_def split: if_splits)
    have "(region q ?l4 ?e rest + x) mod modulus = (region p1 ?l4 ?e rest + x) mod modulus" for x
      using r2 mod_add_cancel_nat by blast
    moreover have "la_protocol l = PROTO_ICMP \<longrightarrow> q = p \<or> p ! ?l4 \<noteq> 0"
      using p1 t q by (auto simp: index_def is_icmp_error_def split: if_splits Family.splits)
    ultimately show ?thesis using r1 same_below_trans [OF l1] r2 icmp by (auto simp: unchecked_udp_def)
  qed simp
qed

section \<open>A rewrite in stages\<close>

definition family_len :: "Family \<Rightarrow> nat" where
  "family_len family = (case family of FamilyV4 \<Rightarrow> 4 | FamilyV6 \<Rightarrow> 16)"

abbreviation octets :: "IpAddr \<Rightarrow> bytes" where
  "octets a \<equiv> as_slice (addr_of a)"

lemma length_octets [simp]: "length (octets a) = ab_len (addr_of a)"
  by (simp add: as_slice_def addr_of_def split: IpAddr.splits)

lemma addr_from_slice_spec: "addr_from_slice b = Some a \<Longrightarrow> as_slice a = b"
  by (auto simp: addr_from_slice_def as_slice_def overwrite_def bind_eq_Some_conv split: if_splits)

lemma from_packet_error_Ok: "from_packet_error r = Some (Inr a) \<longleftrightarrow> r = Some (Inr a)"
  by (cases r; cases "the r") (simp_all add: from_packet_error_def)

lemma rewrite_stages:
  assumes "rewrite p new side = Some (Inr q)"
  obtains l b old p1 p2 where "locate p = Some (Inr l)" "ab_len (addr_of new) = family_len (la_family l)"
    "slice p (fst (side_range side l)) (snd (side_range side l)) = Some b" "as_slice old = b"
    "overwrite p (fst (side_range side l)) (octets new) = Some p1"
    "(if la_family l = FamilyV4 then update_checksum p1 10 b (octets new) else Some p1) = Some p2"
    "(if has_transport l then rewrite_transport p2 l old (addr_of new) side else Some p2) = Some q"
proof -
  obtain l where l: "locate p = Some (Inr l)"
    using assms by (auto simp: rewrite_def obind_Ok_iff from_packet_error_Ok)
  then have n: "ab_len (addr_of new) = family_len (la_family l)"
    using assms by (auto simp: rewrite_def from_packet_error_def family_len_def Let_def split: if_splits Family.splits)
  let ?r = "side_range side l"
  have eq: "do { b \<leftarrow> slice p (fst ?r) (snd ?r); old \<leftarrow> addr_from_slice b;
      p1 \<leftarrow> overwrite p (fst ?r) (octets new);
      p2 \<leftarrow> (if la_family l = FamilyV4 then update_checksum p1 10 (as_slice old) (octets new) else Some p1);
      p3 \<leftarrow> (if has_transport l then rewrite_transport p2 l old (addr_of new) side else Some p2);
      Some (Inr p3) } = Some (Inr q :: (NatError, bytes) result)"
    using assms l n unfolding rewrite_def from_packet_error_def family_len_def Let_def by simp
  then obtain b old p1 p2 where st: "slice p (fst ?r) (snd ?r) = Some b" "addr_from_slice b = Some old"
    "overwrite p (fst ?r) (octets new) = Some p1"
    "(if la_family l = FamilyV4 then update_checksum p1 10 (as_slice old) (octets new) else Some p1) = Some p2"
    "(if has_transport l then rewrite_transport p2 l old (addr_of new) side else Some p2) = Some q"
    unfolding bind_eq_Some_conv by auto
  with addr_from_slice_spec [OF st(2)] show thesis by (intro that [OF l n]) simp_all
qed

lemma side_range_ok:
  assumes "layout_ok p l"
  shows "snd (side_range side l) = fst (side_range side l) + family_len (la_family l)"
    "snd (side_range side l) \<le> la_l4_offset l" "snd (side_range side l) \<le> length p"
    "even (fst (side_range side l))" "8 \<le> fst (side_range side l)"
    "la_family l = FamilyV4 \<Longrightarrow> 12 \<le> fst (side_range side l)"
  using assms by (auto simp: side_range_def src_range_def dst_range_def family_len_def layout_ok_def
      split: Side.splits Family.splits)

fun other_side :: "Side \<Rightarrow> Side" where
  "other_side SideSource = SideDestination"
| "other_side SideDestination = SideSource"

lemma other_side_disjoint:
  "snd (side_range (other_side side) l) \<le> fst (side_range side l) \<or>
   snd (side_range side l) \<le> fst (side_range (other_side side) l)"
  by (cases side) (auto simp: side_range_def src_range_def dst_range_def split: Family.splits)

abbreviation field_sum :: "Side \<Rightarrow> Layout \<Rightarrow> bytes \<Rightarrow> nat" where
  "field_sum side l p \<equiv> region p (fst (side_range side l)) (snd (side_range side l)) []"

text \<open>
  The address and header stages: the header sum is kept modulo 65535, the other address and the upper
  layer are kept, and the rewritten field holds the new address.
\<close>

lemma address_stages:
  assumes ok: "layout_ok p l" and n: "ab_len (addr_of new) = family_len (la_family l)"
    and b: "slice p (fst (side_range side l)) (snd (side_range side l)) = Some b"
    and p1: "overwrite p (fst (side_range side l)) (octets new) = Some p1"
    and p2: "(if la_family l = FamilyV4 then update_checksum p1 10 b (octets new) else Some p1) = Some p2"
  shows "length p2 = length p"
    "slice p2 (fst (side_range side l)) (snd (side_range side l)) = Some (octets new)"
    "field_sum side l p = wsum b" "field_sum side l p2 = wsum (octets new)"
    "region p2 (la_l4_offset l) (la_end l) rest = region p (la_l4_offset l) (la_end l) rest"
    "la_family l = FamilyV4 \<Longrightarrow> region p2 0 (la_l4_offset l) [] mod modulus = region p 0 (la_l4_offset l) [] mod modulus"
    "\<And>i. i < length p \<Longrightarrow> \<not> (fst (side_range side l) \<le> i \<and> i < snd (side_range side l)) \<Longrightarrow>
       \<not> (la_family l = FamilyV4 \<and> i \<in> {10, 11}) \<Longrightarrow> p2 ! i = p ! i"
proof -
  let ?a = "fst (side_range side l)" and ?z = "snd (side_range side l)" and ?l4 = "la_l4_offset l"
  note r = side_range_ok [OF ok, of side] and bb = slice_SomeD [OF b] and q1 = overwrite_SomeD [OF p1]
  have l1: "length p1 = length p" by (rule q1(2))
  have z: "?z = ?a + length (octets new)" using r(1) n by simp
  have "length b = ?z - ?a" using bb by blast
  then have b_len: "length b = length (octets new)" using z by simp
  have small: "length b \<le> 16" "even (length b)" using bb r(1) by (auto simp: family_len_def split: Family.splits)
  have l4: "?l4 \<le> la_end l" "la_end l \<le> length p" using ok by (auto simp: layout_ok_def)
  have u2: "p2 = p1 \<and> la_family l = FamilyV6 \<or>
      la_family l = FamilyV4 \<and> update_checksum p1 10 b (octets new) = Some p2"
    using p2 by (cases "la_family l") auto
  show len2: "length p2 = length p"
    using u2 l1 update_overwrites overwrite_SomeD(2) by metis
  show "slice p2 ?a ?z = Some (octets new)"
  proof -
    have "slice p1 ?a ?z = Some (octets new)" using slice_overwrite_same [OF p1] z by simp
    moreover have "slice p2 ?a ?z = slice p1 ?a ?z"
      using u2 r(6) update_overwrites [of p1 10 b "octets new" p2] slice_overwrite_disjoint [of p1 10 _ p2 ?z ?a] by auto
    ultimately show ?thesis by simp
  qed
  then show "field_sum side l p2 = wsum (octets new)" by (auto simp: region_def dest: slice_SomeD)
  show "field_sum side l p = wsum b" using bb by (simp add: region_def)
  have "region p1 ?l4 (la_end l) rest = region p ?l4 (la_end l) rest"
    using region_overwrite_out [OF p1] r(2) z l4 by simp
  then show "region p2 ?l4 (la_end l) rest = region p ?l4 (la_end l) rest"
    using u2 region_update_out [of p1 10 b "octets new" p2 "la_end l" ?l4 rest] l4 l1 r(2) r(6) z by auto
  show "region p2 0 ?l4 [] mod modulus = region p 0 ?l4 [] mod modulus" if v4: "la_family l = FamilyV4"
  proof -
    have "region p1 0 ?l4 [] + wsum b = region p 0 ?l4 [] + wsum (octets new)"
      using region_overwrite_in [OF p1, of 0 ?l4 "[]"] r z l4 small(2) b_len bb by simp
    moreover have "(region p2 0 ?l4 [] + wsum (octets new)) mod modulus = (region p1 0 ?l4 [] + wsum b) mod modulus"
      using u2 v4 region_update_in [of p1 10 b "octets new" p2 0 ?l4 "[]"] b_len small r(2,6) l4 l1 z by auto
    ultimately show ?thesis by (simp add: mod_add_cancel_nat)
  qed
  show "p2 ! i = p ! i" if "i < length p" "\<not> (?a \<le> i \<and> i < ?z)" "\<not> (la_family l = FamilyV4 \<and> i \<in> {10, 11})" for i
  proof -
    have "p1 ! i = p ! i" using overwrite_nth [OF p1 that(1)] that(2) z by auto
    moreover have "p2 ! i = p1 ! i"
    proof (cases "la_family l = FamilyV4")
      case True
      then obtain c where c: "overwrite p1 10 (u16_to_be c) = Some p2" using u2 update_overwrites by force
      then show ?thesis using overwrite_nth [OF c, of i] that True l1 by auto
    qed (use u2 in auto)
    ultimately show ?thesis by simp
  qed
qed

section \<open>Checksums\<close>

text \<open>
  What a receiver checks (RFC 1071): the folded sum of all words, the checksum included, is all ones.
  The transport checksum also covers the pseudo-header of the addresses, the protocol and the length,
  except for ICMP over IPv4, and all fragments: \<^term>\<open>rest\<close> is what later fragments carry and
  \<^term>\<open>len\<close> the length of the whole upper layer.
\<close>

definition verifies :: "bytes \<Rightarrow> bool" where
  "verifies bs \<longleftrightarrow> wsum bs \<noteq> 0 \<and> wsum bs mod modulus = 0"

text \<open>For buffers within the range of the \<open>u32\<close> sum this is what the code's own checksum computes.\<close>

lemma verifies_checksum:
  assumes "even (length bs)" "length bs < 131072"
  shows "verifies bs \<longleftrightarrow> checksum [bs] = 0"
proof -
  let ?S = "add_words 0 (be_words bs)"
  have S: "unat ?S = wsum bs"
    using unat_add_words [of 0 "be_words bs"] wsum_be_words [OF assms(1)] assms(2) by (simp add: length_be_words)
  have "checksum [bs] = 0 \<longleftrightarrow> unat (NOT (ucast (fold_carries ?S)) :: 16 word) = 0"
    by (simp add: checksum_def word_unat_eq_iff)
  also have "\<dots> \<longleftrightarrow> unat (fold_carries ?S) = modulus"
    using fold_carries_props [of ?S] by (auto simp: unat_not_u16 unat_ucast_fold)
  also have "\<dots> \<longleftrightarrow> verifies bs"
    using fold_carries_props [of ?S] S unfolding verifies_def word_unat_eq_iff
    by (cases "unat (fold_carries ?S) = modulus") (auto simp: mod_less)
  finally show ?thesis by simp
qed

definition header_ok :: "Layout \<Rightarrow> bytes \<Rightarrow> bool" where
  "header_ok l p \<longleftrightarrow> (la_family l = FamilyV4 \<longrightarrow> verifies (take (la_l4_offset l) p))"

definition address_bytes :: "Side \<Rightarrow> Layout \<Rightarrow> bytes \<Rightarrow> bytes" where
  "address_bytes side l p = take (family_len (la_family l)) (drop (fst (side_range side l)) p)"

definition pseudo_header :: "Layout \<Rightarrow> bytes \<Rightarrow> nat \<Rightarrow> bytes" where
  "pseudo_header l p len =
     (if la_protocol l = PROTO_ICMP then []
      else address_bytes SideSource l p @ address_bytes SideDestination l p @
        (case la_family l of
           FamilyV4 \<Rightarrow> [0, la_protocol l] @ to_be 2 len
         | FamilyV6 \<Rightarrow> to_be 4 len @ [0, 0, 0, la_protocol l]))"

definition transport_ok :: "Layout \<Rightarrow> bytes \<Rightarrow> nat \<Rightarrow> bytes \<Rightarrow> bool" where
  "transport_ok l rest len p \<longleftrightarrow>
     (checked l \<longrightarrow> unchecked_udp l p \<or>
        verifies (pseudo_header l p len @ take (la_end l - la_l4_offset l) (drop (la_l4_offset l) p) @ rest))"

lemma field_sum_address:
  "layout_ok p l \<Longrightarrow> wsum (address_bytes side l p) = field_sum side l p \<and> length (address_bytes side l p) = family_len (la_family l)"
  using side_range_ok [of p l side] by (simp add: address_bytes_def region_def)

text \<open>The part of the pseudo-header's sum that no rewrite changes.\<close>

definition pseudo_const :: "Layout \<Rightarrow> nat \<Rightarrow> nat" where
  "pseudo_const l len = unat (la_protocol l) +
     (case la_family l of FamilyV4 \<Rightarrow> wsum (to_be 2 len) | FamilyV6 \<Rightarrow> wsum (to_be 4 len))"

lemma transport_sum:
  assumes "layout_ok p l"
  shows "wsum (pseudo_header l p len @ take (la_end l - la_l4_offset l) (drop (la_l4_offset l) p) @ rest) =
    (if la_protocol l = PROTO_ICMP then 0
     else field_sum side l p + field_sum (other_side side) l p + pseudo_const l len) +
    region p (la_l4_offset l) (la_end l) rest"
proof -
  have ev: "even (length (address_bytes s l p))" for s
    using field_sum_address [OF assms] by (simp add: family_len_def split: Family.splits)
  have "field_sum SideSource l p + field_sum SideDestination l p =
      field_sum side l p + field_sum (other_side side) l p"
    by (cases side) simp_all
  then show ?thesis
    using ev field_sum_address [OF assms] by (cases "la_family l")
      (auto simp: pseudo_header_def pseudo_const_def region_def wsum_append)
qed

lemma verifies_cong:
  assumes "verifies xs" "wsum ys mod modulus = wsum xs mod modulus" "wsum ys \<noteq> 0"
  shows "verifies ys"
  using assms by (simp add: verifies_def)

lemma region_nonzero:
  assumes "a < b" "b \<le> length p" "p ! a \<noteq> 0"
  shows "region p a b rest \<noteq> 0"
proof -
  obtain n where n: "b - a = Suc n" using assms(1) by (cases "b - a") auto
  have "drop a p = p ! a # drop (Suc a) p" using assms by (simp add: Cons_nth_drop_Suc)
  then obtain r where r: "take (b - a) (drop a p) @ rest = p ! a # r" using n by simp
  have "wsum (x # r) \<noteq> 0" if "x \<noteq> 0" for x :: byte and r
    using that by (cases r) (auto simp: unat_eq_0)
  then show ?thesis using r assms(3) by (simp add: region_def)
qed

end
