(* ===== verification/Nat_Properties.thy ===== *)
theory Nat_Properties
  imports Packet_Nat
begin

text \<open>
  The properties of address translation: a rewrite changes the one address and keeps every valid
  checksum valid, rewriting back restores the packet byte for byte, and no packet makes it panic.
\<close>

section \<open>What a rewrite changes\<close>

definition packet_address :: "Side \<Rightarrow> Layout \<Rightarrow> bytes \<Rightarrow> IpAddr option" where
  "packet_address side l p = (case side of SideSource \<Rightarrow> packet_src l p | SideDestination \<Rightarrow> packet_dst l p)"

lemma packet_address_slice:
  "packet_address side l p =
     do { b \<leftarrow> slice p (fst (side_range side l)) (snd (side_range side l)); read_addr (la_family l) b }"
  by (simp add: packet_address_def packet_src_def packet_dst_def side_range_def split: Side.splits)

lemma octets_eq: "octets a = (case a of V4 x \<Rightarrow> to_be 4 (unat x) | V6 x \<Rightarrow> to_be 16 (unat x))"
  by (simp add: as_slice_def addr_of_def split: IpAddr.splits)

lemma read_addr_octets:
  assumes "ab_len (addr_of a) = family_len family"
  shows "read_addr family (octets a) = Some a"
proof (cases a)
  case (V4 x)
  then have "family = FamilyV4" using assms by (simp add: addr_of_def family_len_def split: Family.splits)
  moreover have "from_be (to_be 4 (unat x)) = unat x"
    using unsigned_less [of x, where 'a = nat] by (simp add: from_be_to_be)
  ultimately show ?thesis using V4 by (simp add: octets_eq read_addr_def slice_def)
next
  case (V6 x)
  then have "family = FamilyV6" using assms by (simp add: addr_of_def family_len_def split: Family.splits)
  moreover have "from_be (to_be 16 (unat x)) = unat x"
    using unsigned_less [of x, where 'a = nat] by (simp add: from_be_to_be)
  ultimately show ?thesis using V6 by (simp add: octets_eq read_addr_def slice_def)
qed

text \<open>The facts of one rewrite of \<open>p\<close> to \<open>q\<close>, whose address field held \<open>b\<close>.\<close>

definition translates :: "Side \<Rightarrow> IpAddr \<Rightarrow> Layout \<Rightarrow> bytes \<Rightarrow> bytes \<Rightarrow> bytes \<Rightarrow> bool" where
  "translates side new l b p q \<longleftrightarrow>
     locate p = Some (Inr l) \<and> locate q = Some (Inr l) \<and> length q = length p \<and>
     ab_len (addr_of new) = family_len (la_family l) \<and>
     slice p (fst (side_range side l)) (snd (side_range side l)) = Some b \<and>
     slice q (fst (side_range side l)) (snd (side_range side l)) = Some (octets new) \<and>
     slice q (fst (side_range (other_side side) l)) (snd (side_range (other_side side) l)) =
       slice p (fst (side_range (other_side side) l)) (snd (side_range (other_side side) l)) \<and>
     (la_family l = FamilyV4 \<longrightarrow> region q 0 (la_l4_offset l) [] mod modulus = region p 0 (la_l4_offset l) [] mod modulus) \<and>
     (la_protocol l = PROTO_ICMP \<longrightarrow>
        q ! la_l4_offset l \<noteq> 0 \<or> (\<forall>rest. region q (la_l4_offset l) (la_end l) rest = region p (la_l4_offset l) (la_end l) rest)) \<and>
     (\<forall>rest. checked l \<longrightarrow> (if unchecked_udp l p then unchecked_udp l q else
        (region q (la_l4_offset l) (la_end l) rest + (if la_protocol l = PROTO_ICMP then 0 else wsum (octets new))) mod modulus =
        (region p (la_l4_offset l) (la_end l) rest + (if la_protocol l = PROTO_ICMP then 0 else wsum b)) mod modulus))"

lemma rewrite_translates:
  assumes "rewrite p new side = Some (Inr q)"
  shows "\<exists>l b. translates side new l b p q"
proof -
  from rewrite_stages [OF assms] obtain l b old p1 p2 where
    l: "locate p = Some (Inr l)" and n: "ab_len (addr_of new) = family_len (la_family l)"
    and b: "slice p (fst (side_range side l)) (snd (side_range side l)) = Some b" and old: "as_slice old = b"
    and p1: "overwrite p (fst (side_range side l)) (octets new) = Some p1"
    and p2: "(if la_family l = FamilyV4 then update_checksum p1 10 b (octets new) else Some p1) = Some p2"
    and q: "(if has_transport l then rewrite_transport p2 l old (addr_of new) side else Some p2) = Some q" by metis
  let ?l4 = "la_l4_offset l" and ?a = "fst (side_range side l)" and ?z = "snd (side_range side l)"
  have ok: "layout_ok p l" by (rule locate_ok(1) [OF l])
  note st = address_stages [OF ok n b p1 p2] and r = side_range_ok [OF ok]
  have ok2: "layout_ok p2 l" using ok st(1) by (simp add: layout_ok_def)
  have "length b = ?z - ?a" using slice_SomeD [OF b] by blast
  then have bl: "length (octets new) = length b" "even (length b)" "length b \<le> 16"
    using r(1) [of side] n by (auto simp: family_len_def split: Family.splits)
  have tr: "same_below (?l4 + 2) p2 q \<and> (la_protocol l = PROTO_ICMP \<longrightarrow> q = p2 \<or> p2 ! ?l4 \<noteq> 0) \<and> (checked l \<longrightarrow> (if unchecked_udp l p2 then q = p2 else
      (region q ?l4 (la_end l) rest + (if la_protocol l = PROTO_ICMP then 0 else wsum (octets new))) mod modulus =
      (region p2 ?l4 (la_end l) rest + (if la_protocol l = PROTO_ICMP then 0 else wsum b)) mod modulus))" for rest
    using q transport_spec [of p2 l old "addr_of new" side q rest] ok2 bl old
    by (auto simp: checked_def split: if_splits)
  have below: "same_below (?l4 + 2) p2 q" using tr by blast
  have same: "q ! i = p ! i" if "i < ?l4 + 2" "i < length p" "\<not> (?a \<le> i \<and> i < ?z)"
    "\<not> (la_family l = FamilyV4 \<and> i \<in> {10, 11})" for i
    using st(7) [OF that(2-4)] below that(1) by (simp add: same_below_def)
  have lq: "length q = length p" using below st(1) by (simp add: same_below_def)
  have "q ! i = p ! i" if "reads_header l i" "i < length p" for i
    by (rule same) (use that ok in \<open>auto simp: layout_ok_def reads_header_def side_range_def src_range_def
        dst_range_def split: Family.splits Side.splits\<close>)
  then have loc: "locate q = Some (Inr l)"
    using locate_with_frame [of p False l q] l lq by (simp add: locate_def)
  have keep: "slice q x y = slice p2 x y" if "y \<le> ?l4" for x y
    using below that by (intro slice_cong_bytes) (auto simp: same_below_def)
  have other: "slice p2 (fst (side_range (other_side side) l)) (snd (side_range (other_side side) l)) =
      slice p (fst (side_range (other_side side) l)) (snd (side_range (other_side side) l))"
    using st(1) other_side_disjoint [of side l] r(3) [of "other_side side"] r(6) [of "other_side side"]
    by (intro slice_cong_bytes st(7)) auto
  have "p2 ! i = p ! i" if "?l4 \<le> i" "i < length p" for i
    using st(7) [OF that(2)] r(1,2,6) [of side] that(1) by fastforce
  then have field: "u16_at p2 (?l4 + 6) = u16_at p (?l4 + 6)"
    using st(1) by (simp add: u16_at_def index_def)
  have "slice q ?a ?z = Some (octets new)" using keep st(2) r(2) by simp
  moreover have "slice q (fst (side_range (other_side side) l)) (snd (side_range (other_side side) l)) =
      slice p (fst (side_range (other_side side) l)) (snd (side_range (other_side side) l))"
    using keep other r(2) by simp
  moreover have "la_family l = FamilyV4 \<longrightarrow> region q 0 ?l4 [] mod modulus = region p 0 ?l4 [] mod modulus"
    using st(6) same_below_region [OF below, of ?l4 0 "[]"] by simp
  moreover have "la_protocol l = PROTO_ICMP \<longrightarrow> q ! ?l4 \<noteq> 0 \<or>
      (\<forall>rest. region q ?l4 (la_end l) rest = region p ?l4 (la_end l) rest)"
    using tr st(5) below by (auto simp: same_below_def)
  moreover have "checked l \<longrightarrow> (if unchecked_udp l p then unchecked_udp l q else
      (region q ?l4 (la_end l) rest + (if la_protocol l = PROTO_ICMP then 0 else wsum (octets new))) mod modulus =
      (region p ?l4 (la_end l) rest + (if la_protocol l = PROTO_ICMP then 0 else wsum b)) mod modulus)" for rest
    using tr [of rest] st(5) [of rest] field by (auto simp: unchecked_udp_def)
  ultimately show ?thesis using l loc lq n b unfolding translates_def by blast
qed

lemma located_first_byte:
  assumes "locate p = Some (Inr l)"
  shows "p ! 0 \<noteq> 0 \<and> p \<noteq> []"
  using assms by (auto simp: locate_def locate_with_def index_def split: if_splits)

lemma translates_header:
  assumes "translates side new l b p q" "header_ok l p"
  shows "header_ok l q"
proof -
  have q: "locate q = Some (Inr l)" using assms(1) by (simp add: translates_def)
  have "0 < la_l4_offset l" "la_l4_offset l \<le> length q"
    using locate_ok(1) [OF q] by (auto simp: layout_ok_def split: Family.splits)
  then have "region q 0 (la_l4_offset l) [] \<noteq> 0" using located_first_byte [OF q] by (intro region_nonzero) auto
  then show ?thesis using assms by (auto simp: translates_def header_ok_def verifies_def region_def)
qed

lemma translates_transport:
  assumes "translates side new l b p q" "transport_ok l rest len p"
  shows "transport_ok l rest len q"
proof (cases "checked l \<and> \<not> unchecked_udp l q")
  case True
  let ?R = "\<lambda>x. region x (la_l4_offset l) (la_end l) rest"
  have ok: "layout_ok p l" "layout_ok q l" using assms(1) locate_ok(1) by (auto simp: translates_def)
  note sums = transport_sum [OF ok(1), of len rest side] transport_sum [OF ok(2), of len rest side]
  have m: "(?R q + (if la_protocol l = PROTO_ICMP then 0 else wsum (octets new))) mod modulus =
      (?R p + (if la_protocol l = PROTO_ICMP then 0 else wsum b)) mod modulus"
    and v: "verifies (pseudo_header l p len @ take (la_end l - la_l4_offset l) (drop (la_l4_offset l) p) @ rest)"
  proof -
    have "if unchecked_udp l p then unchecked_udp l q else
      (?R q + (if la_protocol l = PROTO_ICMP then 0 else wsum (octets new))) mod modulus =
      (?R p + (if la_protocol l = PROTO_ICMP then 0 else wsum b)) mod modulus"
      using assms(1) True unfolding translates_def by blast
    then have u: "\<not> unchecked_udp l p" using True by auto
    then show "verifies (pseudo_header l p len @ take (la_end l - la_l4_offset l) (drop (la_l4_offset l) p) @ rest)"
      using assms(2) True by (simp add: transport_ok_def)
    show "(?R q + (if la_protocol l = PROTO_ICMP then 0 else wsum (octets new))) mod modulus =
      (?R p + (if la_protocol l = PROTO_ICMP then 0 else wsum b)) mod modulus"
      using \<open>if _ then _ else _\<close> u by simp
  qed
  have f: "field_sum side l p = wsum b" "field_sum side l q = wsum (octets new)"
    "field_sum (other_side side) l q = field_sum (other_side side) l p"
    using assms(1) side_range_ok(1,3) [OF ok(1)] by (auto simp: translates_def region_def slice_def dest!: slice_SomeD)
  show ?thesis
  proof (cases "la_protocol l = PROTO_ICMP")
    case True
    have "?R q \<noteq> 0" if "?R p \<noteq> 0"
    proof (cases "q ! la_l4_offset l = 0")
      case False
      then show ?thesis using \<open>checked l \<and> _\<close> ok(2) True
        by (intro region_nonzero) (auto simp: checked_def layout_ok_def)
    qed (use that assms(1) True in \<open>auto simp: translates_def\<close>)
    then show ?thesis using v m sums True by (auto simp: transport_ok_def verifies_def)
  next
    case False
    have "unat (la_protocol l) \<noteq> 0" using \<open>checked l \<and> _\<close> by (auto simp: checked_def proto_defs)
    then have "pseudo_const l len \<noteq> 0" by (simp add: pseudo_const_def)
    let ?K = "field_sum (other_side side) l p + pseudo_const l len"
    have "(wsum (octets new) + ?R q + ?K) mod modulus = (wsum b + ?R p + ?K) mod modulus"
      unfolding mod_add_cancel_nat using m False by (simp add: add.commute)
    then show ?thesis using v sums f False \<open>pseudo_const l len \<noteq> 0\<close>
      by (auto simp: transport_ok_def verifies_def ac_simps)
  qed
qed (auto simp: transport_ok_def)

section \<open>No panic\<close>

lemma update_length: "update_checksum p at old new = Some q \<Longrightarrow> length q = length p"
  using update_overwrites overwrite_SomeD(2) by blast

lemma update_defined:
  assumes "at + 2 \<le> length p"
  obtains q where "update_checksum p at old new = Some q" "length q = length p"
  using update_total [OF assms] update_length by blast

lemma quoted_source_total:
  assumes "la_l4_offset l + 8 \<le> la_end l" "la_end l \<le> length p" "length (as_slice new) = length (as_slice old)"
  shows "rewrite_quoted_source p l old new \<noteq> None"
proof -
  let ?icmp = "la_l4_offset l"
  obtain b where b: "slice p (?icmp + 8) (la_end l) = Some b" "length b = la_end l - (?icmp + 8)"
    using assms(1,2) by (simp add: slice_def)
  obtain r where r: "locate_quoted b = Some r" using locate_total(2) [of b] by blast
  show ?thesis
  proof (cases r)
    case (Inr quoted)
    have ok: "layout_ok b quoted" using locate_ok(2) r Inr by simp
    let ?at = "?icmp + 8 + fst (src_range quoted)" and ?z = "?icmp + 8 + snd (src_range quoted)"
    have z: "?at \<le> ?z" "?z \<le> length p" "?icmp + 20 \<le> length p"
      using ok b(2) assms by (auto simp: layout_ok_def src_range_def split: Family.splits)
    obtain s where s: "slice p ?at ?z = Some s" "length s = ?z - ?at" using z by (simp add: slice_def)
    show ?thesis
    proof (cases "la_family quoted = la_family l \<and> s = as_slice old")
      case True
      then have "?at + length (as_slice new) \<le> length p" using s(2) z assms(3) by simp
      then obtain p1 where p1: "overwrite p ?at (as_slice new) = Some p1" by (simp add: overwrite_def)
      then have l1: "length p1 = length p" by (rule overwrite_SomeD(2))
      obtain p2 where p2: "update_checksum p1 (?icmp + 2) (as_slice old) (as_slice new) = Some p2" "length p2 = length p"
        by (rule update_defined [of "?icmp + 2" p1]) (use z(3) l1 in auto)
      obtain p3 where p3: "update_checksum p2 (?icmp + 18) (as_slice old) (as_slice new) = Some p3" "length p3 = length p"
        by (rule update_defined [of "?icmp + 18" p2]) (use z(3) p2(2) in auto)
      have sl: "slice x (?icmp + 18) (?icmp + 20) \<noteq> None" if "length x = length p" for x
        using z(3) that by (simp add: slice_def)
      have "update_checksum p3 (?icmp + 2) o' n' \<noteq> None" for o' n'
        using z(3) p3(2) by (intro update_total) simp
      then show ?thesis
        using b r Inr s True p1 p2(1) p3(1) sl [OF p2(2)] sl [OF p3(2)] unfolding rewrite_quoted_source_def Let_def
        by (auto simp: ac_simps)
    qed (use b r Inr s in \<open>auto simp: rewrite_quoted_source_def Let_def\<close>)
  qed (use b r in \<open>simp add: rewrite_quoted_source_def Let_def\<close>)
qed

lemma transport_total:
  assumes "layout_ok p l" "length (as_slice new) = length (as_slice old)"
  shows "rewrite_transport p l old new side \<noteq> None"
proof -
  let ?l4 = "la_l4_offset l"
  have e: "?l4 \<le> la_end l" "la_end l \<le> length p" using assms(1) by (auto simp: layout_ok_def)
  have upd: "\<exists>q. update_checksum p (?l4 + k) (as_slice old) (as_slice new) = Some q \<and> length q = length p"
    if "k + 2 \<le> la_end l - ?l4" for k
  proof -
    have "?l4 + k + 2 \<le> length p" using e that by simp
    from update_defined [OF this] show ?thesis by blast
  qed
  show ?thesis
  proof (cases "la_protocol l \<in> {PROTO_ICMP, PROTO_ICMPV6} \<and> 8 \<le> la_end l - ?l4")
    case True
    obtain p1 where p1: "(if la_protocol l = PROTO_ICMPV6 then update_checksum p (?l4 + 2) (as_slice old) (as_slice new)
        else Some p) = Some p1" "length p1 = length p"
      using upd [of 2] True by auto
    have "?l4 < length p1" using p1(2) e True by linarith
    then obtain t where "index p1 ?l4 = Some t" by (simp add: index_def)
    then show ?thesis using p1 True quoted_source_total [of l p1 new old] e assms(2)
      unfolding rewrite_transport_def Let_def by auto
  next
    case False
    show ?thesis
    proof (cases "la_protocol l = PROTO_UDP \<and> 8 \<le> la_end l - ?l4")
      case True
      obtain p1 where p1: "update_checksum p (?l4 + 6) (as_slice old) (as_slice new) = Some p1" "length p1 = length p"
        using upd [of 6] True by auto
      have "?l4 + 8 \<le> length p" using True e by linarith
      then obtain c d q where "u16_at p (?l4 + 6) = Some c" "u16_at p1 (?l4 + 6) = Some d"
        "overwrite p1 (?l4 + 6) [0xff, 0xff] = Some q"
        using p1(2) by (simp add: overwrite_def u16_at_def index_def)
      then show ?thesis using True p1 unfolding rewrite_transport_def Let_def by auto
    qed (use False upd [of 16] in \<open>auto simp: rewrite_transport_def Let_def\<close>)
  qed
qed

lemma rewrite_total: "rewrite p new side \<noteq> None"
proof (cases "\<exists>l. locate p = Some (Inr l) \<and> ab_len (addr_of new) = family_len (la_family l)")
  case True
  then obtain l where l: "locate p = Some (Inr l)" and n: "ab_len (addr_of new) = family_len (la_family l)" by blast
  have ok: "layout_ok p l" by (rule locate_ok(1) [OF l])
  note r = side_range_ok [OF ok, of side]
  let ?a = "fst (side_range side l)"
  obtain b where b: "slice p ?a (snd (side_range side l)) = Some b" "length b = family_len (la_family l)"
    using r(1,3) by (simp add: slice_def)
  obtain old where old: "addr_from_slice b = Some old"
    using b(2) by (simp add: addr_from_slice_def overwrite_def family_len_def split: Family.splits)
  have lo: "length (as_slice old) = length (octets new)" using addr_from_slice_spec [OF old] b(2) n by simp
  obtain p1 where p1: "overwrite p ?a (octets new) = Some p1" "length p1 = length p"
    using r(1,3) n by (simp add: overwrite_def)
  obtain p2 where p2: "(if la_family l = FamilyV4 then update_checksum p1 10 (as_slice old) (octets new) else Some p1) = Some p2"
    "length p2 = length p"
    using update_defined [of 10 p1] p1(2) ok by (auto simp: layout_ok_def split: Family.splits)
  have "layout_ok p2 l" using ok p2(2) by (simp add: layout_ok_def)
  then have "(if has_transport l then rewrite_transport p2 l old (addr_of new) side else Some p2) \<noteq> None"
    using transport_total [of p2 l "addr_of new" old side] lo by simp
  then show ?thesis using l n b(1) old p1(1) p2(1)
    unfolding rewrite_def from_packet_error_def family_len_def Let_def by auto
next
  case False
  obtain r where "locate p = Some r" using locate_total(1) [of p] by blast
  then show ?thesis using False by (cases r) (auto simp: rewrite_def from_packet_error_def family_len_def Let_def)
qed

lemma rewrite_Ok_iff:
  "(\<exists>q. rewrite p new side = Some (Inr q)) \<longleftrightarrow>
     (\<exists>l. locate p = Some (Inr l) \<and> ab_len (addr_of new) = family_len (la_family l))"
proof
  assume "\<exists>l. locate p = Some (Inr l) \<and> ab_len (addr_of new) = family_len (la_family l)"
  then obtain l where l: "locate p = Some (Inr l)" "ab_len (addr_of new) = family_len (la_family l)" by blast
  obtain r where r: "rewrite p new side = Some r" using rewrite_total [of p new side] by blast
  have "r \<noteq> Inl e" for e
    using r l unfolding rewrite_def from_packet_error_def family_len_def Let_def
    by (auto simp: bind_eq_Some_conv)
  then show "\<exists>q. rewrite p new side = Some (Inr q)" using r by (cases r) auto
qed (use rewrite_stages in \<open>metis\<close>)

section \<open>A sample packet\<close>

text \<open>A UDP datagram from 10.64.0.2 port 50000 to 198.51.100.9 port 53, with its checksums.\<close>

definition sample_packet :: bytes where
  "sample_packet =
     [69, 0, 0, 30, 0, 0, 64, 0, 64, 17, 6, 81, 10, 64, 0, 2, 198, 51, 100, 9, 195, 80, 0, 53, 0, 10, 159, 108, 104, 105]"

definition sample_route :: IpAddr where
  "sample_route = V4 0x0a6311c9"

abbreviation sample_layout :: Layout where
  "sample_layout \<equiv> \<lparr>la_family = FamilyV4, la_protocol = 17, la_l4_offset = 20, la_end = 30, la_fragment = None\<rparr>"

lemma sample_locate: "locate sample_packet = Some (Inr sample_layout)"
  by (simp add: locate_def locate_with_def index_def locate_v4_eq Let_def u16_from_be_def from_be_def sample_packet_def)

lemma sample_rewrite: "\<exists>q. rewrite sample_packet sample_route SideSource = Some (Inr q)"
  using sample_locate by (auto simp: rewrite_Ok_iff family_len_def addr_of_def sample_route_def)

lemma sample_header_ok: "header_ok sample_layout sample_packet"
  by (simp add: header_ok_def verifies_def sample_packet_def)

lemma to_be_2: "to_be 2 x = [word_of_nat (x div 256), word_of_nat x]"
  by (simp add: numeral_2_eq_2)

lemma sample_transport_ok: "transport_ok sample_layout [] 10 sample_packet"
  by (simp add: transport_ok_def verifies_def sample_packet_def pseudo_header_def address_bytes_def
      side_range_def src_range_def dst_range_def family_len_def proto_defs to_be_2)

section \<open>Checksums stay valid\<close>

lemma translates_addresses:
  assumes "translates side new l b p q"
  shows "packet_address side l q = Some new" "packet_address (other_side side) l q = packet_address (other_side side) l p"
  using assms read_addr_octets by (auto simp: translates_def packet_address_slice)

text \<open>
  C27. A packet whose address is rewritten keeps its layout and its other address, carries the new
  address, and every checksum that was valid stays valid: the IPv4 header checksum and the transport
  checksum over the pseudo-header, with whatever later fragments carry, in an ICMP error with the
  packet it quotes. A UDP datagram without checksum stays one without.
\<close>

theorem rewrite_keeps_checksums:
  assumes "rewrite p new side = Some (Inr q)"
  shows "\<exists>l. locate p = Some (Inr l) \<and> locate q = Some (Inr l) \<and> length q = length p \<and>
    packet_address side l q = Some new \<and>
    packet_address (other_side side) l q = packet_address (other_side side) l p \<and>
    (header_ok l p \<longrightarrow> header_ok l q) \<and>
    (\<forall>rest len. transport_ok l rest len p \<longrightarrow> transport_ok l rest len q)"
proof -
  obtain l b where t: "translates side new l b p q" using rewrite_translates [OF assms] by blast
  then show ?thesis using translates_addresses [OF t] translates_header [OF t] translates_transport [OF t]
    unfolding translates_def by blast
qed


theorem rewrite_keeps_checksums_witness:
  "\<exists>q. rewrite sample_packet sample_route SideSource = Some (Inr q) \<and> locate q = Some (Inr sample_layout) \<and>
     packet_address SideSource sample_layout q = Some sample_route \<and>
     header_ok sample_layout q \<and> transport_ok sample_layout [] 10 q"
proof -
  obtain q where q: "rewrite sample_packet sample_route SideSource = Some (Inr q)" using sample_rewrite by blast
  from rewrite_keeps_checksums [OF q] show ?thesis using q sample_locate sample_header_ok sample_transport_ok by auto
qed

section \<open>Rewriting back\<close>

text \<open>Where the code updates the transport checksum.\<close>

definition checksum_at :: "Layout \<Rightarrow> nat option" where
  "checksum_at l =
     (let l4 = la_l4_offset l; available = la_end l - l4 in
      if \<not> has_transport l then None
      else if la_protocol l = PROTO_TCP \<and> 18 \<le> available then Some (l4 + 16)
      else if la_protocol l = PROTO_UDP \<and> 8 \<le> available then Some (l4 + 6)
      else if la_protocol l = PROTO_ICMPV6 \<and> 8 \<le> available then Some (l4 + 2)
      else None)"

definition touched :: "Side \<Rightarrow> Layout \<Rightarrow> nat set" where
  "touched side l =
     {fst (side_range side l)..<snd (side_range side l)} \<union> (if la_family l = FamilyV4 then {10, 11} else {}) \<union>
     (case checksum_at l of None \<Rightarrow> {} | Some at \<Rightarrow> {at, at + 1})"

definition agree :: "nat set \<Rightarrow> bytes \<Rightarrow> bytes \<Rightarrow> bool" where
  "agree S p q \<longleftrightarrow> length q = length p \<and> (\<forall>i < length p. i \<notin> S \<longrightarrow> q ! i = p ! i)"

lemma agree_overwrite: "overwrite p at bs = Some q \<Longrightarrow> agree {at..<at + length bs} p q"
  using overwrite_SomeD(2) overwrite_nth by (auto simp: agree_def)

lemma agree_trans: "agree S p q \<Longrightarrow> agree T q r \<Longrightarrow> agree (S \<union> T) p r"
  by (auto simp: agree_def)

lemma agree_u16: "agree S p q \<Longrightarrow> {at, at + 1} \<inter> S = {} \<Longrightarrow> u16_at q at = u16_at p at"
  by (auto simp: agree_def u16_at_def index_def)

text \<open>
  How a checksum field changes for a change of the words it covers. A field that is not all ones does
  not become so, and UDP never stores zero.
\<close>

definition keeps :: "bool \<Rightarrow> bytes \<Rightarrow> bytes \<Rightarrow> 16 word \<Rightarrow> 16 word \<Rightarrow> bool" where
  "keeps udp old new c c' \<longleftrightarrow>
     (unat c' + wsum new) mod modulus = (unat c + wsum old) mod modulus \<and>
     (if udp then c' \<noteq> 0 else c \<noteq> 65535 \<longrightarrow> c' \<noteq> 65535)"

lemma unat_u16_all: "unat (c :: 16 word) = 65535 \<longleftrightarrow> c = 65535"
  by (simp add: word_unat_eq_iff)

lemma keeps_back:
  assumes "keeps udp old new c c'" "keeps udp new old c' c''" "if udp then c \<noteq> 0 else c \<noteq> 65535"
  shows "c'' = c"
proof -
  have "(unat c'' + wsum old) mod modulus = (unat c + wsum old) mod modulus"
    using assms(1,2) by (simp add: keeps_def)
  then have m: "unat c'' mod modulus = unat c mod modulus" by (simp only: mod_add_cancel_nat)
  have "unat c'' = unat c"
  proof (cases udp)
    case True
    then have "unat c'' \<noteq> 0" "unat c \<noteq> 0" using assms by (auto simp: keeps_def word_unat_eq_iff)
    then show ?thesis using m u16_bound [of c] u16_bound [of c'']
      by (cases "unat c = 65535"; cases "unat c'' = 65535") auto
  next
    case False
    then have "unat c'' \<noteq> 65535" "unat c \<noteq> 65535" using assms by (auto simp: keeps_def unat_u16_all)
    then show ?thesis using m u16_bound [of c] u16_bound [of c''] by simp
  qed
  then show ?thesis by (simp add: word_unat_eq_iff)
qed

lemma overwrite_u16_at: "overwrite p at (u16_to_be c) = Some q \<Longrightarrow> u16_at q at = Some c"
proof -
  assume o: "overwrite p at (u16_to_be c) = Some q"
  obtain x y where xy: "u16_to_be c = [x, y]" by (rule u16_to_be_cases)
  show ?thesis using index_overwrite [OF o, of at] index_overwrite [OF o, of "at + 1"] xy u16_from_to_be [OF xy]
    by (simp add: u16_at_def)
qed

lemma update_keeps:
  assumes "update_checksum p at old new = Some q" "length new = length old" "even (length old)" "length old \<le> 16"
  obtains c c' where "u16_at p at = Some c" "u16_at q at = Some c'" "overwrite p at (u16_to_be c') = Some q"
    "keeps False old new c c'"
proof -
  from update_checksum_field [OF assms] obtain c c' where
    c: "u16_at p at = Some c" "overwrite p at (u16_to_be c') = Some q"
      "(unat c' + wsum new) mod modulus = (unat c + wsum old) mod modulus" "c' = 65535 \<Longrightarrow> c = 65535"
    by metis
  then have "keeps False old new c c'" by (auto simp: keeps_def)
  moreover have "u16_at q at = Some c'" using overwrite_u16_at [OF c(2)] .
  ultimately show thesis using that c by blast
qed

text \<open>The transport stage when it does not reach into a quoted packet.\<close>

definition quotes :: "Side \<Rightarrow> Layout \<Rightarrow> bool" where
  "quotes side l \<longleftrightarrow> side = SideDestination \<and> la_protocol l \<in> {PROTO_ICMP, PROTO_ICMPV6}"

definition field_kept :: "Layout \<Rightarrow> bytes \<Rightarrow> bytes \<Rightarrow> bytes \<Rightarrow> bytes \<Rightarrow> bool" where
  "field_kept l old new p q \<longleftrightarrow>
     (\<forall>at. checksum_at l = Some at \<longrightarrow>
        (if unchecked_udp l p then u16_at q at = u16_at p at
         else \<exists>c c'. u16_at p at = Some c \<and> u16_at q at = Some c' \<and> keeps (la_protocol l = PROTO_UDP) old new c c'))"

lemma overwrite_twice:
  assumes "overwrite p at a = Some p1" "overwrite p1 at b = Some q" "length a = length b"
  shows "overwrite p at b = Some q"
proof -
  note p1 = overwrite_SomeD [OF assms(1)] and q = overwrite_SomeD [OF assms(2)]
  have "take at p1 = take at p" "drop (at + length b) p1 = drop (at + length b) p"
    unfolding p1(3) using p1(1) assms(3) by auto
  then show ?thesis using p1(1) q(3) assms(3) by (simp add: overwrite_def)
qed

lemma update_agree:
  assumes "update_checksum p at old new = Some q" "length new = length old" "even (length old)" "length old \<le> 16"
  shows "agree {at, at + 1} p q \<and> (\<exists>c c'. u16_at p at = Some c \<and> u16_at q at = Some c' \<and> keeps False old new c c')"
proof -
  from update_keeps [OF assms] obtain c c' where
    c: "u16_at p at = Some c" "u16_at q at = Some c'" "overwrite p at (u16_to_be c') = Some q" "keeps False old new c c'" by metis
  have "{at..<at + 2} = {at, at + 1}" by auto
  then show ?thesis using agree_overwrite [OF c(3)] c by auto
qed

lemma udp_field:
  assumes "update_checksum p at old new = Some p1" "u16_at p1 at = Some d"
    and "(if d = 0 then overwrite p1 at [0xff, 0xff] else Some p1) = Some q"
    and len: "length new = length old" "even (length old)" "length old \<le> 16"
  shows "\<exists>c c'. u16_at p at = Some c \<and> u16_at q at = Some c' \<and> agree {at, at + 1} p q \<and> keeps True old new c c'"
proof -
  from update_keeps [OF assms(1) len] obtain c c' where
    c: "u16_at p at = Some c" "u16_at p1 at = Some c'" "overwrite p at (u16_to_be c') = Some p1" "keeps False old new c c'" by metis
  have two: "{at..<at + 2} = {at, at + 1}" by auto
  show ?thesis
  proof (cases "d = 0")
    case True
    have "u16_from_be 0xff 0xff = 0xffff" by (simp add: word_unat_eq_iff unat_u16_from_be)
    then have ff: "u16_to_be 0xffff = [0xff, 0xff]" using u16_to_from_be [of "0xff" "0xff"] by simp
    have "overwrite p1 at (u16_to_be 0xffff) = Some q" using assms(3) True ff by simp
    then have o: "overwrite p at (u16_to_be 0xffff) = Some q" using overwrite_twice [OF c(3)] by simp
    have "c' = 0" using c(2) assms(2) True by simp
    then have "keeps True old new c 0xffff" using c(4) by (simp add: keeps_def)
    then show ?thesis using c(1) overwrite_u16_at [OF o] agree_overwrite [OF o] two by auto
  next
    case False
    then have "q = p1" "d = c'" using assms(2,3) c(2) by auto
    then have "keeps True old new c c'" using c(4) False by (simp add: keeps_def)
    then show ?thesis using c \<open>q = p1\<close> agree_overwrite [OF c(3)] two by auto
  qed
qed

lemma transport_plain:
  assumes "rewrite_transport p l old new side = Some q" "has_transport l" "\<not> quotes side l"
    and len: "length (as_slice new) = length (as_slice old)" "even (length (as_slice old))" "length (as_slice old) \<le> 16"
  shows "agree (case checksum_at l of None \<Rightarrow> {} | Some at \<Rightarrow> {at, at + 1}) p q \<and>
    field_kept l (as_slice old) (as_slice new) p q"
proof -
  let ?l4 = "la_l4_offset l" and ?o = "as_slice old" and ?n = "as_slice new"
  note upd = update_agree [OF _ len, of p]
  consider (tcp) "la_protocol l = PROTO_TCP" "checksum_at l = Some (?l4 + 16)"
    | (udp) "la_protocol l = PROTO_UDP" "checksum_at l = Some (?l4 + 6)" "8 \<le> la_end l - ?l4"
    | (icmp6) "la_protocol l = PROTO_ICMPV6" "checksum_at l = Some (?l4 + 2)" "8 \<le> la_end l - ?l4"
    | (none) "checksum_at l = None"
    using assms(2) unfolding checksum_at_def Let_def by argo
  then show ?thesis
  proof cases
    case tcp
    then have "update_checksum p (?l4 + 16) ?o ?n = Some q"
      using assms(1,2) by (auto simp: rewrite_transport_def Let_def checksum_at_def split: if_splits)
    from upd [OF this] tcp show ?thesis by (auto simp: field_kept_def unchecked_udp_def)
  next
    case icmp6
    then have "update_checksum p (?l4 + 2) ?o ?n = Some q"
      using assms(1,3) by (auto simp: rewrite_transport_def Let_def quotes_def bind_eq_Some_conv)
    from upd [OF this] icmp6 show ?thesis by (auto simp: field_kept_def unchecked_udp_def)
  next
    case udp
    show ?thesis
    proof (cases "unchecked_udp l p")
      case True
      then have "q = p" using assms(1) udp by (simp add: rewrite_transport_def Let_def unchecked_udp_def)
      then show ?thesis using True by (simp add: agree_def field_kept_def)
    next
      case False
      then obtain p1 d where p1: "update_checksum p (?l4 + 6) ?o ?n = Some p1" and d: "u16_at p1 (?l4 + 6) = Some d"
        and q: "(if d = 0 then overwrite p1 (?l4 + 6) [0xff, 0xff] else Some p1) = Some q"
        using assms(1) udp by (auto simp: rewrite_transport_def Let_def unchecked_udp_def bind_eq_Some_conv split: if_splits)
          (metis Family.exhaust)+
      from udp_field [OF p1 d q len] obtain c c' where "u16_at p (?l4 + 6) = Some c" "u16_at q (?l4 + 6) = Some c'"
        "agree {?l4 + 6, ?l4 + 6 + 1} p q" "keeps True ?o ?n c c'" by blast
      then show ?thesis using udp False by (auto simp: field_kept_def)
    qed
  next
    case none
    then have "q = p" using assms(1-3)
      by (auto simp: rewrite_transport_def Let_def checksum_at_def quotes_def bind_eq_Some_conv split: if_splits)
    then show ?thesis using none by (simp add: agree_def field_kept_def)
  qed
qed

definition rewrites_field :: "Side \<Rightarrow> bytes \<Rightarrow> bytes \<Rightarrow> Layout \<Rightarrow> bytes \<Rightarrow> bytes \<Rightarrow> bool" where
  "rewrites_field side old new l p q \<longleftrightarrow>
     slice p (fst (side_range side l)) (snd (side_range side l)) = Some old \<and> length old = family_len (la_family l) \<and>
     slice q (fst (side_range side l)) (snd (side_range side l)) = Some new \<and>
     locate q = Some (Inr l) \<and> agree (touched side l) p q \<and> field_kept l old new p q \<and>
     (la_family l = FamilyV4 \<longrightarrow>
        (\<exists>c c'. u16_at p 10 = Some c \<and> u16_at q 10 = Some c' \<and> keeps False old new c c'))"

lemma rewrite_plain:
  assumes "rewrite p new side = Some (Inr q)" "locate p = Some (Inr l)" "\<not> quotes side l"
  shows "\<exists>b. rewrites_field side b (octets new) l p q"
proof -
  obtain l' b old p1 p2 where l': "locate p = Some (Inr l')" and st:
    "ab_len (addr_of new) = family_len (la_family l')"
    "slice p (fst (side_range side l')) (snd (side_range side l')) = Some b" "as_slice old = b"
    "overwrite p (fst (side_range side l')) (octets new) = Some p1"
    "(if la_family l' = FamilyV4 then update_checksum p1 10 b (octets new) else Some p1) = Some p2"
    "(if has_transport l' then rewrite_transport p2 l' old (addr_of new) side else Some p2) = Some q"
    by (rule rewrite_stages [OF assms(1)])
  have "l' = l" using l' assms(2) by simp
  then have n: "ab_len (addr_of new) = family_len (la_family l)"
    and b: "slice p (fst (side_range side l)) (snd (side_range side l)) = Some b" and old: "as_slice old = b"
    and p1: "overwrite p (fst (side_range side l)) (octets new) = Some p1"
    and p2: "(if la_family l = FamilyV4 then update_checksum p1 10 b (octets new) else Some p1) = Some p2"
    and q: "(if has_transport l then rewrite_transport p2 l old (addr_of new) side else Some p2) = Some q"
    using st by auto
  have t: "translates side new l b p q"
    using rewrite_translates [OF assms(1)] assms(2) b unfolding translates_def by (metis option.inject sum.inject(2))
  have ok: "layout_ok p l" by (rule locate_ok(1) [OF assms(2)])
  note r = side_range_ok [OF ok, of side]
  let ?A = "{fst (side_range side l)..<snd (side_range side l)}" and ?H = "if la_family l = FamilyV4 then {10, 11} else {}"
  let ?T = "case checksum_at l of None \<Rightarrow> {} | Some at \<Rightarrow> {at, at + 1}"
  have "length b = snd (side_range side l) - fst (side_range side l)" using slice_SomeD [OF b] by blast
  then have bl: "length b = family_len (la_family l)" "length (octets new) = length b" "even (length b)" "length b \<le> 16"
    using r(1) n by (auto simp: family_len_def split: Family.splits)
  have a1: "agree ?A p p1" using agree_overwrite [OF p1] r(1) n by simp
  have h: "la_family l = FamilyV4 \<Longrightarrow>
      agree {10, 11} p1 p2 \<and> (\<exists>c c'. u16_at p1 10 = Some c \<and> u16_at p2 10 = Some c' \<and> keeps False b (octets new) c c')"
    using update_agree [of p1 10 b "octets new" p2] bl p2 by simp
  have a2: "agree ?H p1 p2" using h p2 by (cases "la_family l") (auto simp: agree_def)
  have a3: "agree ?T p2 q \<and> field_kept l b (octets new) p2 q"
    using q transport_plain [of p2 l old "addr_of new" side q] assms(3) old bl
    by (auto simp: agree_def field_kept_def checksum_at_def split: if_splits)
  have disj: "at \<notin> ?A \<union> ?H \<and> at + 1 \<notin> ?A \<union> ?H" "at \<noteq> 10" "at \<noteq> 11" "at \<noteq> 9" if "checksum_at l = Some at" for at
    using that r ok by (auto simp: checksum_at_def Let_def layout_ok_def split: if_splits Family.splits)
  have a12: "agree (?A \<union> ?H) p p2" by (rule agree_trans [OF a1 a2])
  have "u16_at p2 at = u16_at p at" if "checksum_at l = Some at" for at
    using agree_u16 [OF a12] disj [OF that] by auto
  moreover have "unchecked_udp l p2 = unchecked_udp l p" if "checksum_at l = Some at" for at
    using calculation [OF that] that by (auto simp: unchecked_udp_def checksum_at_def Let_def split: if_splits)
  ultimately have f: "field_kept l b (octets new) p q" using a3 unfolding field_kept_def by (metis (full_types))
  have "u16_at p 10 = u16_at p1 10" "u16_at q 10 = u16_at p2 10" if "la_family l = FamilyV4"
    using agree_u16 [OF a1, of 10] agree_u16 [OF conjunct1 [OF a3], of 10] r(6) [OF that] disj by (auto split: option.splits)
  with h have h': "\<exists>c c'. u16_at p 10 = Some c \<and> u16_at q 10 = Some c' \<and> keeps False b (octets new) c c'"
    if "la_family l = FamilyV4" using that by simp
  have "agree (touched side l) p q" unfolding touched_def using agree_trans [OF a12] a3 by blast
  with f h' show ?thesis using b bl(1) t unfolding translates_def rewrites_field_def by blast
qed

text \<open>
  The stored checksums a sender computes: never all ones, except for UDP, where zero means none.
\<close>

definition canonical :: "Layout \<Rightarrow> bytes \<Rightarrow> bool" where
  "canonical l p \<longleftrightarrow>
     (la_family l = FamilyV4 \<longrightarrow> u16_at p 10 \<noteq> Some 0xffff) \<and>
     (case checksum_at l of None \<Rightarrow> True | Some at \<Rightarrow>
        if la_protocol l = PROTO_UDP then la_family l = FamilyV6 \<longrightarrow> u16_at p at \<noteq> Some 0
        else u16_at p at \<noteq> Some 0xffff)"

lemma field_kept_back:
  assumes "field_kept l old new p q" "field_kept l new old q r" "checksum_at l = Some at" "canonical l p"
  shows "u16_at r at = u16_at p at"
proof (cases "unchecked_udp l p")
  case True
  then have "at = la_l4_offset l + 6" using assms(3) by (auto simp: unchecked_udp_def checksum_at_def Let_def split: if_splits)
  then have "unchecked_udp l q" using assms(1,3) True by (simp add: field_kept_def unchecked_udp_def)
  then show ?thesis using assms(1-3) True by (simp add: field_kept_def)
next
  case False
  let ?udp = "la_protocol l = PROTO_UDP"
  obtain c c' where c: "u16_at p at = Some c" "u16_at q at = Some c'" "keeps ?udp old new c c'"
    using assms(1,3) False by (auto simp: field_kept_def)
  have at: "?udp \<Longrightarrow> at = la_l4_offset l + 6" using assms(3) by (auto simp: checksum_at_def Let_def split: if_splits)
  have "\<not> unchecked_udp l q" using c(2,3) at by (auto simp: unchecked_udp_def keeps_def)
  then obtain c'' where c'': "u16_at r at = Some c''" "keeps ?udp new old c' c''"
    using assms(2,3) c(2) by (auto simp: field_kept_def)
  have "if ?udp then c \<noteq> 0 else c \<noteq> 65535"
    using assms(3,4) False c(1) at by (cases "la_family l") (auto simp: canonical_def unchecked_udp_def)
  then show ?thesis using keeps_back [OF c(3) c''(2)] c(1) c''(1) by simp
qed

lemma u16_at_eqD:
  assumes "u16_at r at = u16_at p at" "length r = length p" "at + 1 < length p"
  shows "r ! at = p ! at" "r ! (at + 1) = p ! (at + 1)"
proof -
  have "u16_from_be (r ! at) (r ! (at + 1)) = u16_from_be (p ! at) (p ! (at + 1))"
    using assms by (simp add: byte_simps)
  then have "[r ! at, r ! (at + 1)] = [p ! at, p ! (at + 1)]" by (metis u16_to_from_be)
  then show "r ! at = p ! at" "r ! (at + 1) = p ! (at + 1)" by simp_all
qed

lemma touched_eq:
  assumes "agree (touched side l) p r" "layout_ok p l"
    and "la_family l = FamilyV4 \<Longrightarrow> u16_at r 10 = u16_at p 10"
    and "\<And>at. checksum_at l = Some at \<Longrightarrow> u16_at r at = u16_at p at"
    and "slice r (fst (side_range side l)) (snd (side_range side l)) = slice p (fst (side_range side l)) (snd (side_range side l))"
  shows "r = p"
proof (rule nth_equalityI)
  let ?a = "fst (side_range side l)" and ?z = "snd (side_range side l)"
  show len: "length r = length p" using assms(1) by (simp add: agree_def)
  note sr = side_range_ok [OF assms(2), of side]
  fix i assume i: "i < length r"
  consider "?a \<le> i" "i < ?z" | "la_family l = FamilyV4" "i \<in> {10, 11}"
    | at where "checksum_at l = Some at" "i \<in> {at, at + 1}" | "i \<notin> touched side l"
    by (cases "i \<in> touched side l") (auto simp: touched_def split: if_splits option.splits)
  then show "r ! i = p ! i"
  proof cases
    case 1
    have "take (?z - ?a) (drop ?a r) = take (?z - ?a) (drop ?a p)"
      using assms(5) sr(1,3) len by (simp add: slice_def)
    then have "take (?z - ?a) (drop ?a r) ! (i - ?a) = take (?z - ?a) (drop ?a p) ! (i - ?a)" by simp
    then show ?thesis using 1 len i by simp
  next
    case 2
    have "11 < length p" using assms(2) 2(1) by (auto simp: layout_ok_def)
    then show ?thesis using u16_at_eqD [OF assms(3) [OF 2(1)] len] 2(2) by auto
  next
    case 3
    have "at + 1 < length p"
      using 3(1) assms(2) by (auto simp: checksum_at_def Let_def layout_ok_def split: if_splits)
    then show ?thesis using u16_at_eqD [OF assms(4) [OF 3(1)] len] 3(2) by auto
  qed (use assms(1) i len in \<open>auto simp: agree_def\<close>)
qed

lemma read_addr_total:
  assumes "length b = family_len family"
  obtains a where "read_addr family b = Some a" "octets a = b" "ab_len (addr_of a) = family_len family"
proof (cases family)
  case FamilyV4
  have "unat (word_of_nat (from_be b) :: 32 word) = from_be b"
    using from_be_bound [of b] assms FamilyV4 by (simp add: unat_of_nat family_len_def)
  then show ?thesis using assms FamilyV4 to_be_from_be [of b]
    by (intro that [of "V4 (word_of_nat (from_be b))"]) (simp_all add: read_addr_def slice_def as_slice_def family_len_def addr_of_def)
next
  case FamilyV6
  have "unat (word_of_nat (from_be b) :: 128 word) = from_be b"
    using from_be_bound [of b] assms FamilyV6 by (simp add: unat_of_nat family_len_def)
  then show ?thesis using assms FamilyV6 to_be_from_be [of b]
    by (intro that [of "V6 (word_of_nat (from_be b))"]) (simp_all add: read_addr_def slice_def as_slice_def family_len_def addr_of_def)
qed

text \<open>
  C28. Rewriting an address and then rewriting it back to what it was restores the packet byte for
  byte, with every checksum, whatever the packet, as long as its checksums are the ones a sender
  computes and no packet quoted in an ICMP error is translated with it.
\<close>

theorem rewrite_back:
  assumes "rewrite p new side = Some (Inr q)" "locate p = Some (Inr l)" "\<not> quotes side l" "canonical l p"
  shows "\<exists>a. packet_address side l p = Some a \<and> rewrite q a side = Some (Inr p)"
proof -
  let ?a = "fst (side_range side l)" and ?z = "snd (side_range side l)"
  obtain b where f: "rewrites_field side b (octets new) l p q" using rewrite_plain [OF assms(1-3)] by blast
  then have bl: "length b = family_len (la_family l)" and lq: "locate q = Some (Inr l)"
    by (auto simp: rewrites_field_def)
  obtain a where a: "read_addr (la_family l) b = Some a" "octets a = b" "ab_len (addr_of a) = family_len (la_family l)"
    by (rule read_addr_total [OF bl])
  obtain r where r: "rewrite q a side = Some (Inr r)" using rewrite_Ok_iff [of q a side] lq a(3) by blast
  then obtain b' where "rewrites_field side b' b l q r" using rewrite_plain [OF r lq assms(3)] a(2) by auto
  moreover have "b' = octets new" using calculation f by (simp add: rewrites_field_def)
  ultimately have g: "rewrites_field side (octets new) b l q r" by simp
  have "u16_at r 10 = u16_at p 10" if "la_family l = FamilyV4"
    using f g assms(4) that keeps_back [of False b "octets new"] by (auto simp: canonical_def rewrites_field_def)
  moreover have "u16_at r at = u16_at p at" if at: "checksum_at l = Some at" for at
    using field_kept_back [OF _ _ at assms(4)] f g by (auto simp: rewrites_field_def)
  moreover have "slice r ?a ?z = slice p ?a ?z" "agree (touched side l) p r"
    using f g agree_trans [of "touched side l" p q "touched side l" r] by (auto simp: rewrites_field_def)
  ultimately have "r = p" using touched_eq [OF _ locate_ok(1) [OF assms(2)]] by blast
  then show ?thesis using r a(1) f by (auto simp: packet_address_slice rewrites_field_def)
qed

theorem rewrite_back_witness:
  "\<exists>q a. rewrite sample_packet sample_route SideSource = Some (Inr q) \<and>
     packet_address SideSource sample_layout sample_packet = Some a \<and> rewrite q a SideSource = Some (Inr sample_packet)"
proof -
  obtain q where q: "rewrite sample_packet sample_route SideSource = Some (Inr q)" using sample_rewrite by blast
  have "\<not> quotes SideSource sample_layout" by (simp add: quotes_def)
  moreover have "canonical sample_layout sample_packet"
    by (simp add: canonical_def checksum_at_def has_transport_def proto_defs sample_packet_def
        u16_at_def index_def u16_from_be_def from_be_def)
  ultimately show ?thesis using rewrite_back [OF q sample_locate] q by blast
qed

end
