(* ===== verification/Packet_Reset.thy ===== *)
theory Packet_Reset
  imports Flow_Table Nat_Properties
begin

text \<open>
  Resets toward an app (\<open>talpid-app-routing/src/reset.rs\<close>): the numbers of the segments an app sent,
  where its side of a connection stands in sequence space, and the TCP resets and ICMP errors built for
  it. The theorem reads the packets back: what is built classifies as a packet of the flow it is built
  for, carries the numbers it is asked to carry, and has valid checksums.
\<close>

section \<open>Segments\<close>

definition TCP_HEADER :: nat where "TCP_HEADER = 20"

record Segment =
  sg_seq :: "32 word"
  sg_ack :: "32 word"
  sg_flags :: byte
  sg_len :: "32 word"

record AppSide =
  as_expects :: "32 word option"
  as_next :: "32 word option"

definition app_side_default :: AppSide where
  "app_side_default = \<lparr>as_expects = None, as_next = None\<rparr>"

text \<open>Serial number arithmetic: the later of the two.\<close>

definition furthest :: "32 word option \<Rightarrow> 32 word \<Rightarrow> 32 word" where
  "furthest current candidate =
     (case current of
        Some current \<Rightarrow> if sint (candidate - current) \<le> 0 then current else candidate
      | None \<Rightarrow> candidate)"

definition as_follow :: "Segment \<Rightarrow> AppSide \<Rightarrow> AppSide" where
  "as_follow segment side =
     (if sg_flags segment AND FLAG_RST \<noteq> 0 then side
      else let side = (if sg_flags segment AND FLAG_ACK \<noteq> 0
                       then side\<lparr>as_expects := Some (furthest (as_expects side) (sg_ack segment))\<rparr> else side)
           in side\<lparr>as_next := Some (furthest (as_next side) (sg_seq segment + sg_len segment))\<rparr>)"

definition as_opened_by :: "AppSide \<Rightarrow> Segment \<Rightarrow> bool" where
  "as_opened_by side segment \<longleftrightarrow>
     as_expects side = None \<and> sg_flags segment AND FLAG_SYN \<noteq> 0 \<and>
     as_next side = Some (sg_seq segment + sg_len segment)"

definition u32_at :: "bytes \<Rightarrow> nat \<Rightarrow> 32 word option" where
  "u32_at p i = do { a \<leftarrow> index p i; b \<leftarrow> index p (i + 1); c \<leftarrow> index p (i + 2); d \<leftarrow> index p (i + 3);
                     Some (u32_from_be a b c d) }"

text \<open>\<open>segment\<close>: the outer option is a panic, the inner one the result.\<close>

definition segment :: "bytes \<Rightarrow> Segment option option" where
  "segment packet =
     (case locate packet of
        None \<Rightarrow> None
      | Some (Inl _) \<Rightarrow> Some None
      | Some (Inr layout) \<Rightarrow>
          if la_protocol layout \<noteq> PROTO_TCP \<or> \<not> has_transport layout then Some None
          else case slice packet (la_l4_offset layout) (la_end layout) of
            None \<Rightarrow> Some None
          | Some tcp \<Rightarrow>
              (case slice tcp 0 TCP_HEADER of
                 None \<Rightarrow> Some None
               | Some header \<Rightarrow> do {
                   b12 \<leftarrow> index header 12;
                   let data_offset = unat (drop_bit 4 b12) * 4;
                   if data_offset < TCP_HEADER then Some None
                   else if length tcp < data_offset then Some None
                   else do {
                     let payload = length tcp - data_offset;
                     flags \<leftarrow> index header 13;
                     let control = (if flags AND FLAG_SYN \<noteq> 0 then 1 else 0) + (if flags AND FLAG_FIN \<noteq> 0 then 1 else 0);
                     seq \<leftarrow> u32_at header 4;
                     ack \<leftarrow> u32_at header 8;
                     if payload < 2 ^ 32 then
                       Some (Some \<lparr>sg_seq = seq, sg_ack = ack, sg_flags = flags, sg_len = word_of_nat payload + control\<rparr>)
                     else Some None
                   } }))"

section \<open>Packets\<close>

definition ipv4_header :: "bytes \<Rightarrow> bytes \<Rightarrow> byte \<Rightarrow> nat \<Rightarrow> bytes" where
  "ipv4_header src dst protocol payload =
     (let header = (\<lambda>sum. [0x45, 0] @ u16_to_be (word_of_nat (20 + payload)) @ [0, 0, 0x40, 0, 64, protocol] @ sum @ src @ dst)
      in header (u16_to_be (checksum [header [0, 0]])))"

definition ipv6_header :: "bytes \<Rightarrow> bytes \<Rightarrow> byte \<Rightarrow> nat \<Rightarrow> bytes" where
  "ipv6_header src dst next_header payload =
     [0x60, 0, 0, 0] @ u16_to_be (word_of_nat payload) @ [next_header, 64] @ src @ dst"

definition v4_octets :: "32 word \<Rightarrow> bytes" where
  "v4_octets a = to_be 4 (unat a)"

text \<open>\<open>octets\<close> of the IPv6 address, for an IPv4 address those of its mapped address.\<close>

definition v6_octets :: "IpAddr \<Rightarrow> bytes" where
  "v6_octets addr =
     (case addr of
        V4 a \<Rightarrow> replicate 10 0 @ [0xff, 0xff] @ to_be 4 (unat a)
      | V6 a \<Rightarrow> to_be 16 (unat a))"

text \<open>The bare TCP header of a reset, with its checksum field.\<close>

definition reset_tcp :: "FlowKey \<Rightarrow> 32 word \<Rightarrow> 32 word option \<Rightarrow> bytes \<Rightarrow> bytes" where
  "reset_tcp flow seq ack field =
     u16_to_be (sock_port (fk_remote flow)) @ u16_to_be (sock_port (fk_local flow)) @ u32_to_be seq @
     u32_to_be (case ack of Some a \<Rightarrow> a | None \<Rightarrow> 0) @
     [0x50, FLAG_RST OR (if ack \<noteq> None then FLAG_ACK else 0), 0, 0] @ field @ [0, 0]"

definition build_reset :: "FlowKey \<Rightarrow> 32 word \<Rightarrow> 32 word option \<Rightarrow> bytes" where
  "build_reset flow seq ack =
     (let tcp = reset_tcp flow seq ack in
      case (sock_ip (fk_remote flow), sock_ip (fk_local flow)) of
        (V4 src, V4 dst) \<Rightarrow>
          let sum = checksum [v4_octets src, v4_octets dst, [0, PROTO_TCP], u16_to_be (word_of_nat TCP_HEADER), tcp [0, 0]]
          in ipv4_header (v4_octets src) (v4_octets dst) PROTO_TCP TCP_HEADER @ tcp (u16_to_be sum)
      | (src, dst) \<Rightarrow>
          let sum = checksum [v6_octets src, v6_octets dst, u32_to_be (word_of_nat TCP_HEADER), [0, 0, 0, PROTO_TCP], tcp [0, 0]]
          in ipv6_header (v6_octets src) (v6_octets dst) PROTO_TCP TCP_HEADER @ tcp (u16_to_be sum))"

definition toward_app :: "FlowKey \<Rightarrow> AppSide \<Rightarrow> bytes option" where
  "toward_app flow side =
     (if fk_transport flow \<noteq> FlowTcp then None
      else case (as_expects side, as_next side) of
        (Some expects, nxt) \<Rightarrow> Some (build_reset flow expects nxt)
      | (None, Some nxt) \<Rightarrow> Some (build_reset flow 0 (Some nxt))
      | (None, None) \<Rightarrow> None)"

definition reset_answer :: "FlowKey \<Rightarrow> Segment \<Rightarrow> bytes option" where
  "reset_answer flow seg =
     (if fk_transport flow \<noteq> FlowTcp \<or> sg_flags seg AND FLAG_RST \<noteq> 0 then None
      else Some (if sg_flags seg AND FLAG_ACK \<noteq> 0 then build_reset flow (sg_ack seg) None
                 else build_reset flow 0 (Some (sg_seq seg + sg_len seg))))"

text \<open>The ICMP message quoting a datagram of a flow, with its checksum field.\<close>

definition unreachable_toward_app :: "FlowKey \<Rightarrow> bytes option" where
  "unreachable_toward_app flow =
     (if fk_transport flow \<noteq> FlowUdp then None
      else
        let udp = u16_to_be (sock_port (fk_local flow)) @ u16_to_be (sock_port (fk_remote flow)) @ u16_to_be 8 @ [0, 0]
        in Some (case (sock_ip (fk_local flow), sock_ip (fk_remote flow)) of
             (V4 local, V4 remote) \<Rightarrow>
               let quoted = ipv4_header (v4_octets local) (v4_octets remote) PROTO_UDP (length udp) @ udp;
                   icmp = (\<lambda>sum. [3, 3] @ sum @ [0, 0, 0, 0] @ quoted);
                   sum = checksum [icmp [0, 0]]
               in ipv4_header (v4_octets remote) (v4_octets local) PROTO_ICMP (length (icmp [0, 0])) @ icmp (u16_to_be sum)
           | (local, remote) \<Rightarrow>
               let local = v6_octets local; remote = v6_octets remote;
                   quoted = ipv6_header local remote PROTO_UDP (length udp) @ udp;
                   icmp = (\<lambda>sum. [1, 4] @ sum @ [0, 0, 0, 0] @ quoted);
                   sum = checksum [remote, local, u32_to_be (word_of_nat (length (icmp [0, 0]))), [0, 0, 0, PROTO_ICMPV6], icmp [0, 0]]
               in ipv6_header remote local PROTO_ICMPV6 (length (icmp [0, 0])) @ icmp (u16_to_be sum)))"

section \<open>No panic\<close>

lemma segment_total: "segment p \<noteq> None"
proof (cases "locate p")
  case (Some r)
  then show ?thesis
    by (auto simp: segment_def TCP_HEADER_def slice_head u32_at_def index_def Let_def split: sum.splits option.splits)
qed (simp add: locate_total(1) [of p, unfolded not_None_eq])

section \<open>Checksums\<close>

lemma add_words_append: "add_words (add_words s xs) ys = add_words s (xs @ ys)"
  by (simp add: add_words_def)

lemma checksum_concat: "checksum parts = NOT (ucast (fold_carries (add_words 0 (concat (map be_words parts)))))"
proof -
  have "foldl (\<lambda>s part. add_words s (be_words part)) s parts = add_words s (concat (map be_words parts))" for s
    by (induction parts arbitrary: s) (simp_all add: add_words_append, simp add: add_words_def)
  then show ?thesis by (simp add: checksum_def)
qed

lemma checksum_stored:
  assumes "\<And>part. part \<in> set parts \<Longrightarrow> even (length part)" "sum_list (map length parts) < 131072"
  shows "(unat (checksum parts) + sum_list (map wsum parts)) mod modulus = 0"
proof -
  have len: "length (concat (map be_words parts)) * 2 = sum_list (map length parts)"
    using assms(1) by (induction parts) (auto simp: length_be_words)
  have words: "sum_list (map unat (concat (map be_words parts))) = sum_list (map wsum parts)"
    using assms(1) by (induction parts) (auto simp: wsum_be_words)
  have "unat (add_words 0 (concat (map be_words parts))) = sum_list (map wsum parts)"
    using unat_add_words [of 0 "concat (map be_words parts)"] len assms(2) words by simp
  then show ?thesis using stored_checksum(1) [of "add_words 0 (concat (map be_words parts))"]
    by (simp add: checksum_concat)
qed

lemma wsum_u16_to_be [simp]: "wsum (u16_to_be c) = unat c"
proof -
  obtain x y where xy: "u16_to_be c = [x, y]" by (rule u16_to_be_cases)
  then show ?thesis using unat_u16_from_be [of x y] u16_from_to_be [OF xy] by simp
qed

lemma ipv4_header_valid:
  assumes "length src = 4" "length dst = 4"
  shows "verifies (ipv4_header src dst protocol payload)"
proof -
  define h where "h sm = [0x45, 0] @ u16_to_be (word_of_nat (20 + payload)) @ [0, 0, 0x40, 0, 64, protocol] @ sm @ src @ dst" for sm
  have hdr: "ipv4_header src dst protocol payload = h (u16_to_be (checksum [h [0, 0]]))"
    by (simp add: ipv4_header_def h_def Let_def)
  have w: "wsum (h (u16_to_be c)) = wsum (h [0, 0]) + unat c" for c
    using assms by (simp add: h_def wsum_append del: append.simps)
  have "length (h [0, 0]) = 20" using assms by (simp add: h_def)
  then have "(unat (checksum [h [0, 0]]) + wsum (h [0, 0])) mod modulus = 0"
    using checksum_stored [of "[h [0, 0]]"] by simp
  moreover have "wsum (h [0, 0]) \<noteq> 0" by (simp add: h_def)
  ultimately show ?thesis unfolding verifies_def hdr w by (simp add: add.commute)
qed

section \<open>Reading back\<close>

lemma from_octets4: "(word_of_nat (from_be (v4_octets a)) :: 32 word) = a"
  using unsigned_less [of a, where 'a = nat] by (simp add: v4_octets_def from_be_to_be)

lemma from_octets16: "(word_of_nat (from_be (to_be 16 (unat a))) :: 128 word) = a" for a :: "128 word"
  using unsigned_less [of a, where 'a = nat] by (simp add: from_be_to_be)

lemma length_octets4 [simp]: "length (v4_octets a) = 4"
  by (simp add: v4_octets_def)

lemma slice_mid: "slice (a @ b @ c) (length a) (length a + length b) = Some b"
  by (simp add: slice_def)

lemma slice_at:
  assumes "length a = i" "length b = j - i" "i \<le> j"
  shows "slice (a @ b @ c) i j = Some b"
  using slice_mid [of a b c] assms by simp

lemma u16_at_append:
  "u16_to_be w = [x, y] \<Longrightarrow> length a = i \<Longrightarrow> u16_at (a @ u16_to_be w @ c) i = Some w"
  using u16_from_to_be by (simp add: u16_at_def index_def nth_append)

lemma u16_at_be: "length a = i \<Longrightarrow> u16_at (a @ u16_to_be w @ c) i = Some w"
  using u16_at_append by (metis u16_to_be_cases)

lemma length_4: "length xs = 4 \<Longrightarrow> \<exists>p q r t. xs = [p, q, r, t]"
  by (auto simp: length_Suc_conv eval_nat_numeral)

lemma u32_at_be:
  assumes "length a = i"
  shows "u32_at (a @ u32_to_be w @ c) i = Some w"
proof -
  obtain p q r t where w: "u32_to_be w = [p, q, r, t]" using length_4 [OF length_uN_to_be(2)] by blast
  have "index (a @ [p, q, r, t] @ c) (i + k) = Some ([p, q, r, t] ! k)" if "k < 4" for k
    using that assms nth_append_left [of k "[p, q, r, t]" c] by (simp add: index_def nth_append)
  from this [of 0] this [of 1] this [of 2] this [of 3] show ?thesis
    unfolding w u32_at_def using u32_from_to_be [OF w] by simp
qed

abbreviation reset_flags :: "32 word option \<Rightarrow> byte" where
  "reset_flags ack \<equiv> FLAG_RST OR (if ack \<noteq> None then FLAG_ACK else 0)"

lemma length_reset_tcp [simp]: "length (reset_tcp flow seq ack (u16_to_be c)) = 20" "length (reset_tcp flow seq ack [0, 0]) = 20"
  by (simp_all add: reset_tcp_def)

lemma reset_tcp_fields:
  assumes "t = reset_tcp flow seq ack (u16_to_be c)"
  shows "ports t = Some (sock_port (fk_remote flow), sock_port (fk_local flow))"
    "index t 13 = Some (reset_flags ack)" "index t 12 = Some 0x50"
    "u32_at t 4 = Some seq" "u32_at t 8 = Some (case ack of Some a \<Rightarrow> a | None \<Rightarrow> 0)"
proof -
  let ?a = "u16_to_be (sock_port (fk_remote flow))" and ?b = "u16_to_be (sock_port (fk_local flow))"
  let ?s = "u32_to_be seq" and ?k = "u32_to_be (case ack of Some a \<Rightarrow> a | None \<Rightarrow> 0)"
  let ?r = "[0x50, reset_flags ack, 0, 0] @ u16_to_be c @ [0, 0]"
  have t: "t = ?a @ ?b @ ?s @ ?k @ ?r" by (simp add: assms reset_tcp_def)
  have "u16_at t 0 = Some (sock_port (fk_remote flow))" using u16_at_be [of "[]" 0] by (simp add: t)
  moreover have "u16_at t 2 = Some (sock_port (fk_local flow))" using u16_at_be [of ?a 2] by (simp add: t)
  ultimately show "ports t = Some (sock_port (fk_remote flow), sock_port (fk_local flow))" by (simp add: ports_def)
  show "u32_at t 4 = Some seq" using u32_at_be [of "?a @ ?b" 4] by (simp add: t)
  show "u32_at t 8 = Some (case ack of Some a \<Rightarrow> a | None \<Rightarrow> 0)"
    using u32_at_be [of "?a @ ?b @ ?s" 8] by (simp add: t)
  show "index t 13 = Some (reset_flags ack)" "index t 12 = Some 0x50"
    by (simp_all add: t index_def nth_append)
qed

text \<open>A packet whose upper layer is such a header: what it classifies as and which segment it carries.\<close>

lemma reset_parses:
  assumes l: "locate p = Some (Inr l)" "la_protocol l = PROTO_TCP" "la_fragment l = None"
    and t: "slice p (la_l4_offset l) (la_end l) = Some (reset_tcp flow seq ack (u16_to_be c))"
    and a: "packet_src l p = Some (sock_ip (fk_remote flow))" "packet_dst l p = Some (sock_ip (fk_local flow))"
    and flow: "fk_transport flow = FlowTcp" "fk_local flow = socket_new (sock_ip (fk_local flow)) (sock_port (fk_local flow))"
      "fk_remote flow = socket_new (sock_ip (fk_remote flow)) (sock_port (fk_remote flow))"
  shows "classify p Downlink = Some (Inr (CFlow flow (reset_flags ack) None))"
    "segment p = Some (Some \<lparr>sg_seq = seq, sg_ack = (case ack of Some a \<Rightarrow> a | None \<Rightarrow> 0),
       sg_flags = reset_flags ack, sg_len = 0\<rparr>)"
proof -
  let ?t = "reset_tcp flow seq ack (u16_to_be c)"
  note f = reset_tcp_fields [OF refl, of flow seq ack c]
  have h: "slice ?t 0 20 = Some ?t" by (simp add: slice_head)
  have k: "\<lparr>fk_transport = FlowTcp, fk_local = socket_new (sock_ip (fk_local flow)) (sock_port (fk_local flow)),
      fk_remote = socket_new (sock_ip (fk_remote flow)) (sock_port (fk_remote flow))\<rparr> = flow"
    using flow(1) by (subst flow(2) [symmetric], subst flow(3) [symmetric]) simp
  show "classify p Downlink = Some (Inr (CFlow flow (reset_flags ack) None))"
    using l a t h f(1,2) k
    by (simp add: classify_def classify_transport_def transport_flow_def oriented_def Let_def)
  have ht: "has_transport l" using l(3) by (simp add: has_transport_def)
  have fl: "reset_flags ack AND FLAG_SYN = 0" "reset_flags ack AND FLAG_FIN = 0" by (auto simp: flag_defs)
  show "segment p = Some (Some \<lparr>sg_seq = seq, sg_ack = (case ack of Some a \<Rightarrow> a | None \<Rightarrow> 0),
       sg_flags = reset_flags ack, sg_len = 0\<rparr>)"
    using l t ht h f(2-5) fl by (simp add: segment_def TCP_HEADER_def)
qed

text \<open>The layouts of packets behind the headers that are built here.\<close>

abbreviation built_layout :: "Family \<Rightarrow> byte \<Rightarrow> nat \<Rightarrow> Layout" where
  "built_layout family protocol payload \<equiv>
     (let off = (case family of FamilyV4 \<Rightarrow> 20 | FamilyV6 \<Rightarrow> 40)
      in \<lparr>la_family = family, la_protocol = protocol, la_l4_offset = off, la_end = off + payload, la_fragment = None\<rparr>)"

lemma ipv4_header_split:
  obtains c where "ipv4_header src dst protocol payload =
    [0x45, 0] @ u16_to_be (word_of_nat (20 + payload)) @ [0, 0, 0x40, 0, 64, protocol] @ u16_to_be c @ src @ dst"
  by (simp add: ipv4_header_def Let_def)

lemma locate_ipv4_header:
  assumes "length src = 4" "length dst = 4" "length rest = payload" "20 + payload < 65536"
  shows "locate_with (ipv4_header src dst protocol payload @ rest) q = Some (Inr (built_layout FamilyV4 protocol payload))"
    "length (ipv4_header src dst protocol payload) = 20"
    "packet_src (built_layout FamilyV4 protocol payload) (ipv4_header src dst protocol payload @ rest) = Some (V4 (word_of_nat (from_be src)))"
    "packet_dst (built_layout FamilyV4 protocol payload) (ipv4_header src dst protocol payload @ rest) = Some (V4 (word_of_nat (from_be dst)))"
    "address_bytes SideSource (built_layout FamilyV4 protocol payload) (ipv4_header src dst protocol payload @ rest) = src"
    "address_bytes SideDestination (built_layout FamilyV4 protocol payload) (ipv4_header src dst protocol payload @ rest) = dst"
proof -
  let ?p = "ipv4_header src dst protocol payload @ rest"
  obtain c where h: "ipv4_header src dst protocol payload =
    [0x45, 0] @ u16_to_be (word_of_nat (20 + payload)) @ [0, 0, 0x40, 0, 64, protocol] @ u16_to_be c @ src @ dst"
    by (rule ipv4_header_split)
  obtain x y where xy: "u16_to_be (word_of_nat (20 + payload)) = [x, y]" by (rule u16_to_be_cases)
  obtain u v where uv: "u16_to_be c = [u, v]" by (rule u16_to_be_cases)
  show len: "length (ipv4_header src dst protocol payload) = 20" using assms by (simp add: h)
  have p: "?p = [0x45, 0, x, y, 0, 0, 0x40, 0, 64, protocol, u, v] @ src @ dst @ rest"
    unfolding h xy uv by simp
  have total: "unat (u16_from_be x y) = 20 + payload"
    unfolding u16_from_to_be [OF xy] unat_of_nat using assms(4) by simp
  have "20 \<le> length ?p" "length ?p = 20 + payload" using len assms(3) by auto
  then show "locate_with ?p q = Some (Inr (built_layout FamilyV4 protocol payload))"
    using total by (simp add: locate_with_def locate_v4_eq index_def Let_def p u16_from_be_def from_be_def)
  have "slice ?p 12 16 = Some src" unfolding p using assms by (intro slice_at) auto
  moreover have "slice ?p 16 20 = Some dst"
    using slice_at [of "[0x45, 0, x, y, 0, 0, 0x40, 0, 64, protocol, u, v] @ src" 16 dst 20 rest] assms unfolding p by simp
  ultimately show "packet_src (built_layout FamilyV4 protocol payload) ?p = Some (V4 (word_of_nat (from_be src)))"
    "packet_dst (built_layout FamilyV4 protocol payload) ?p = Some (V4 (word_of_nat (from_be dst)))"
    "address_bytes SideSource (built_layout FamilyV4 protocol payload) ?p = src"
    "address_bytes SideDestination (built_layout FamilyV4 protocol payload) ?p = dst"
    using assms(1,2) slice_SomeD [of ?p 12 16 src] slice_SomeD [of ?p 16 20 dst]
    by (simp_all add: packet_src_def packet_dst_def src_range_def dst_range_def read_addr_def slice_head Let_def
        address_bytes_def side_range_def family_len_def)
qed

lemma locate_ipv6_header:
  assumes "length src = 16" "length dst = 16" "length rest = payload" "payload < 65536"
    and "protocol \<in> {PROTO_TCP, PROTO_UDP, PROTO_ICMPV6}"
  shows "locate_with (ipv6_header src dst protocol payload @ rest) q = Some (Inr (built_layout FamilyV6 protocol payload))"
    "length (ipv6_header src dst protocol payload) = 40"
    "packet_src (built_layout FamilyV6 protocol payload) (ipv6_header src dst protocol payload @ rest) = Some (V6 (word_of_nat (from_be src)))"
    "packet_dst (built_layout FamilyV6 protocol payload) (ipv6_header src dst protocol payload @ rest) = Some (V6 (word_of_nat (from_be dst)))"
    "address_bytes SideSource (built_layout FamilyV6 protocol payload) (ipv6_header src dst protocol payload @ rest) = src"
    "address_bytes SideDestination (built_layout FamilyV6 protocol payload) (ipv6_header src dst protocol payload @ rest) = dst"
proof -
  let ?p = "ipv6_header src dst protocol payload @ rest"
  obtain x y where xy: "u16_to_be (word_of_nat payload) = [x, y]" by (rule u16_to_be_cases)
  show len: "length (ipv6_header src dst protocol payload) = 40" using assms by (simp add: ipv6_header_def)
  have p: "?p = [0x60, 0, 0, 0, x, y, protocol, 64] @ src @ dst @ rest" by (simp add: ipv6_header_def xy)
  have total: "unat (u16_from_be x y) = payload"
    unfolding u16_from_to_be [OF xy] unat_of_nat using assms(4) by simp
  have l: "40 \<le> length ?p" "length ?p = 40 + payload" using len assms(3) by auto
  have e: "v6_end ?p q = 40 + payload" using total l(2) by (simp add: v6_end_def Let_def p)
  have "?p ! 6 = protocol" by (simp add: p)
  then have "locate_v6 ?p q = Some (Inr (built_layout FamilyV6 protocol payload))"
    using l e assms(5) by (simp add: locate_v6_eq Let_def)
  moreover have "index ?p 0 = Some 0x60" by (simp add: p index_def)
  ultimately show "locate_with ?p q = Some (Inr (built_layout FamilyV6 protocol payload))"
    by (simp add: locate_with_def)
  have "slice ?p 8 24 = Some src" unfolding p using assms by (intro slice_at) auto
  moreover have "slice ?p 24 40 = Some dst"
    using slice_at [of "[0x60, 0, 0, 0, x, y, protocol, 64] @ src" 24 dst 40 rest] assms unfolding p by simp
  ultimately show "packet_src (built_layout FamilyV6 protocol payload) ?p = Some (V6 (word_of_nat (from_be src)))"
    "packet_dst (built_layout FamilyV6 protocol payload) ?p = Some (V6 (word_of_nat (from_be dst)))"
    "address_bytes SideSource (built_layout FamilyV6 protocol payload) ?p = src"
    "address_bytes SideDestination (built_layout FamilyV6 protocol payload) ?p = dst"
    using assms(1,2) slice_SomeD [of ?p 8 24 src] slice_SomeD [of ?p 24 40 dst]
    by (simp_all add: packet_src_def packet_dst_def src_range_def dst_range_def read_addr_def slice_head Let_def
        address_bytes_def side_range_def family_len_def)
qed

text \<open>A flow between addresses of one family, as packets name it.\<close>

definition plain_flow :: "FlowKey \<Rightarrow> bool" where
  "plain_flow flow \<longleftrightarrow>
     fk_local flow = socket_new (sock_ip (fk_local flow)) (sock_port (fk_local flow)) \<and>
     fk_remote flow = socket_new (sock_ip (fk_remote flow)) (sock_port (fk_remote flow)) \<and>
     is_ipv4 (sock_ip (fk_local flow)) = is_ipv4 (sock_ip (fk_remote flow))"

definition reset_layout :: "FlowKey \<Rightarrow> Layout" where
  "reset_layout flow = built_layout (if is_ipv4 (sock_ip (fk_local flow)) then FamilyV4 else FamilyV6) PROTO_TCP 20"

lemma wsum_reset_tcp: "wsum (reset_tcp flow seq ack (u16_to_be c)) = wsum (reset_tcp flow seq ack [0, 0]) + unat c"
  by (simp add: reset_tcp_def wsum_append del: append.simps)

lemma to_be_4:
  "to_be 4 x = [word_of_nat (x div 256 div 256 div 256), word_of_nat (x div 256 div 256), word_of_nat (x div 256), word_of_nat x]"
proof -
  have four: "(4 :: nat) = Suc (Suc (Suc (Suc 0)))" by simp
  show ?thesis unfolding four to_be.simps by simp
qed

lemma build_reset_v4:
  assumes "sock_ip (fk_remote flow) = V4 src" "sock_ip (fk_local flow) = V4 dst"
    and p_def: "p = build_reset flow seq ack" and l_def: "l = built_layout FamilyV4 PROTO_TCP 20"
  shows "\<exists>c. locate p = Some (Inr l) \<and> slice p 20 40 = Some (reset_tcp flow seq ack (u16_to_be c)) \<and>
    packet_src l p = Some (V4 src) \<and> packet_dst l p = Some (V4 dst) \<and> header_ok l p \<and> transport_ok l [] 20 p"
proof -
  let ?s = "v4_octets src" and ?d = "v4_octets dst" and ?tcp = "reset_tcp flow seq ack"
  define parts where "parts = [?s, ?d, [0, PROTO_TCP], u16_to_be (word_of_nat TCP_HEADER), ?tcp [0, 0]]"
  define t where "t = ?tcp (u16_to_be (checksum parts))"
  let ?h = "ipv4_header ?s ?d PROTO_TCP 20"
  have p: "p = ?h @ t"
    using assms by (simp add: p_def build_reset_def parts_def t_def Let_def TCP_HEADER_def)
  have len: "length t = 20" by (simp add: t_def)
  note loc = locate_ipv4_header [of ?s ?d t 20 PROTO_TCP, OF _ _ len, simplified]
  have "(unat (checksum parts) + sum_list (map wsum parts)) mod modulus = 0"
    by (rule checksum_stored) (auto simp: parts_def TCP_HEADER_def)
  moreover have "wsum t = wsum (?tcp [0, 0]) + unat (checksum parts)" unfolding t_def by (rule wsum_reset_tcp)
  moreover have "sum_list (map wsum parts) = wsum ?s + wsum ?d + 26 + wsum (?tcp [0, 0])"
    by (simp add: parts_def TCP_HEADER_def PROTO_TCP_def u32_to_be_def to_be_4)
  moreover have "wsum (pseudo_header l p 20 @ t) = wsum ?s + wsum ?d + 26 + wsum t"
    using loc(5,6) by (simp add: pseudo_header_def l_def p wsum_append proto_defs Let_def to_be_2 to_be_4)
  ultimately have "verifies (pseudo_header l p 20 @ t)"
    by (simp add: verifies_def add.commute add.left_commute)
  moreover have "take 20 (drop 20 p) = t" "take 20 p = ?h" using len loc(2) by (simp_all add: p)
  ultimately have "header_ok l p" "transport_ok l [] 20 p" "slice p 20 40 = Some t"
    using ipv4_header_valid [of ?s ?d PROTO_TCP 20] len loc(2)
    by (simp_all add: header_ok_def transport_ok_def l_def Let_def slice_def p)
  then show ?thesis using loc(1,3,4) from_octets4 by (auto simp: l_def p t_def locate_def)
qed

lemma build_reset_v6:
  assumes "sock_ip (fk_remote flow) = V6 src" "sock_ip (fk_local flow) = V6 dst"
    and p_def: "p = build_reset flow seq ack" and l_def: "l = built_layout FamilyV6 PROTO_TCP 20"
  shows "\<exists>c. locate p = Some (Inr l) \<and> slice p 40 60 = Some (reset_tcp flow seq ack (u16_to_be c)) \<and>
    packet_src l p = Some (V6 src) \<and> packet_dst l p = Some (V6 dst) \<and> header_ok l p \<and> transport_ok l [] 20 p"
proof -
  let ?s = "to_be 16 (unat src)" and ?d = "to_be 16 (unat dst)" and ?tcp = "reset_tcp flow seq ack"
  define parts where "parts = [?s, ?d, u32_to_be (word_of_nat TCP_HEADER), [0, 0, 0, PROTO_TCP], ?tcp [0, 0]]"
  define t where "t = ?tcp (u16_to_be (checksum parts))"
  let ?h = "ipv6_header ?s ?d PROTO_TCP 20"
  have p: "p = ?h @ t"
    using assms by (simp add: p_def build_reset_def parts_def t_def Let_def TCP_HEADER_def v6_octets_def)
  have len: "length t = 20" by (simp add: t_def)
  note loc = locate_ipv6_header [of ?s ?d t 20 PROTO_TCP, OF _ _ len, simplified]
  have "(unat (checksum parts) + sum_list (map wsum parts)) mod modulus = 0"
    by (rule checksum_stored) (auto simp: parts_def TCP_HEADER_def)
  moreover have "wsum t = wsum (?tcp [0, 0]) + unat (checksum parts)" unfolding t_def by (rule wsum_reset_tcp)
  moreover have "sum_list (map wsum parts) = wsum ?s + wsum ?d + 26 + wsum (?tcp [0, 0])"
    by (simp add: parts_def TCP_HEADER_def PROTO_TCP_def u32_to_be_def to_be_4)
  moreover have "wsum (pseudo_header l p 20 @ t) = wsum ?s + wsum ?d + 26 + wsum t"
    using loc(5,6) by (simp add: pseudo_header_def l_def p wsum_append proto_defs Let_def to_be_2 to_be_4)
  ultimately have "verifies (pseudo_header l p 20 @ t)"
    by (simp add: verifies_def add.commute add.left_commute)
  moreover have "take 20 (drop 40 p) = t" using len loc(2) by (simp add: p)
  ultimately have "header_ok l p" "transport_ok l [] 20 p" "slice p 40 60 = Some t"
    using len loc(2) by (simp_all add: header_ok_def transport_ok_def l_def Let_def slice_def p)
  then show ?thesis using loc(1,3,4) from_octets16 by (auto simp: l_def p t_def locate_def)
qed

text \<open>The port unreachable: the quoted datagram leads back to the flow.\<close>

definition quoted_udp :: "FlowKey \<Rightarrow> bytes" where
  "quoted_udp flow = u16_to_be (sock_port (fk_local flow)) @ u16_to_be (sock_port (fk_remote flow)) @ u16_to_be 8 @ [0, 0]"

lemma quoted_udp_simps [simp]:
  "length (quoted_udp flow) = 8" "ports (take 4 (quoted_udp flow)) = Some (sock_port (fk_local flow), sock_port (fk_remote flow))"
proof -
  let ?a = "u16_to_be (sock_port (fk_local flow))" and ?b = "u16_to_be (sock_port (fk_remote flow))"
  show "length (quoted_udp flow) = 8" by (simp add: quoted_udp_def)
  have "take 4 (quoted_udp flow) = ?a @ ?b @ []" by (simp add: quoted_udp_def)
  then show "ports (take 4 (quoted_udp flow)) = Some (sock_port (fk_local flow), sock_port (fk_remote flow))"
    using u16_at_be [of "[]" 0 "sock_port (fk_local flow)" ?b] u16_at_be [of ?a 2 "sock_port (fk_remote flow)" "[]"]
    by (simp add: ports_def)
qed

lemma quoted_flow_back:
  assumes "locate_quoted q = Some (Inr l)" "la_protocol l = PROTO_UDP" "la_fragment l = None"
    and "slice q (la_l4_offset l) (la_end l) = Some (quoted_udp flow)"
    and "packet_src l q = Some (sock_ip (fk_local flow))" "packet_dst l q = Some (sock_ip (fk_remote flow))"
    and "plain_flow flow" "fk_transport flow = FlowUdp"
  shows "quoted_flow q Downlink = Some (Inr (CIcmpError flow))"
proof -
  have k: "\<lparr>fk_transport = FlowUdp, fk_local = socket_new (sock_ip (fk_local flow)) (sock_port (fk_local flow)),
      fk_remote = socket_new (sock_ip (fk_remote flow)) (sock_port (fk_remote flow))\<rparr> = flow"
    using assms(7,8) by (simp add: plain_flow_def)
  show ?thesis using assms k
    by (simp add: quoted_flow_def has_transport_def slice_head flip_direction_def oriented_def Let_def)
qed

lemma icmp_error_back:
  assumes "locate p = Some (Inr l)" "la_protocol l \<in> {PROTO_ICMP, PROTO_ICMPV6}" "la_fragment l = None"
    and "slice p (la_l4_offset l) (la_end l) = Some ([t, code, a, b, 0, 0, 0, 0] @ q)" "icmp_kind (la_family l) t = KindError"
    and "packet_src l p \<noteq> None" "packet_dst l p \<noteq> None"
  shows "classify p Downlink = quoted_flow q Downlink"
proof -
  let ?l4 = "[t, code, a, b, 0, 0, 0, 0] @ q"
  have "slice ?l4 8 (length ?l4) = Some q" by (simp add: slice_def)
  then show ?thesis using assms
    by (auto simp: classify_def classify_transport_def slice_head index_def Let_def)
qed

lemma unreachable_v4:
  assumes "sock_ip (fk_local flow) = V4 la" "sock_ip (fk_remote flow) = V4 ra" "plain_flow flow" "fk_transport flow = FlowUdp"
  shows "\<exists>p. unreachable_toward_app flow = Some p \<and> classify p Downlink = Some (Inr (CIcmpError flow))"
proof -
  let ?l = "v4_octets la" and ?r = "v4_octets ra"
  define q where "q = ipv4_header ?l ?r PROTO_UDP 8 @ quoted_udp flow"
  define icmp where "icmp sm = [3, 3] @ sm @ [0, 0, 0, 0] @ q" for sm :: bytes
  obtain a b where ab: "u16_to_be (checksum [icmp [0, 0]]) = [a, b]" by (rule u16_to_be_cases)
  note inner = locate_ipv4_header [of ?l ?r "quoted_udp flow" 8 PROTO_UDP, simplified, folded q_def]
  have lq: "length q = 28" using inner(2) by (simp add: q_def)
  let ?i = "[3, 3, a, b, 0, 0, 0, 0] @ q"
  let ?p = "ipv4_header ?r ?l PROTO_ICMP 36 @ ?i"
  have up: "unreachable_toward_app flow = Some ?p"
    using assms lq ab by (simp add: unreachable_toward_app_def Let_def quoted_udp_def [symmetric] q_def icmp_def)
  have li: "length ?i = 36" using lq by simp
  note outer = locate_ipv4_header [of ?r ?l ?i 36 PROTO_ICMP, OF _ _ li, simplified]
  have "quoted_flow q Downlink = Some (Inr (CIcmpError flow))"
    using inner assms from_octets4
    by (intro quoted_flow_back [where l = "built_layout FamilyV4 PROTO_UDP 8"])
      (auto simp: locate_quoted_def Let_def slice_def q_def)
  moreover have "classify ?p Downlink = quoted_flow q Downlink"
    using outer li by (intro icmp_error_back [where l = "built_layout FamilyV4 PROTO_ICMP 36" and t = 3 and code = 3 and a = a and b = b])
      (auto simp: locate_def Let_def slice_def icmp_kind_def)
  ultimately show ?thesis using up by simp
qed

lemma unreachable_v6:
  assumes "sock_ip (fk_local flow) = V6 la" "sock_ip (fk_remote flow) = V6 ra" "plain_flow flow" "fk_transport flow = FlowUdp"
  shows "\<exists>p. unreachable_toward_app flow = Some p \<and> classify p Downlink = Some (Inr (CIcmpError flow))"
proof -
  let ?l = "to_be 16 (unat la)" and ?r = "to_be 16 (unat ra)"
  define q where "q = ipv6_header ?l ?r PROTO_UDP 8 @ quoted_udp flow"
  define icmp where "icmp sm = [1, 4] @ sm @ [0, 0, 0, 0] @ q" for sm :: bytes
  obtain a b where ab: "u16_to_be (checksum [?r, ?l, u32_to_be (word_of_nat 56), [0, 0, 0, PROTO_ICMPV6], icmp [0, 0]]) = [a, b]"
    by (rule u16_to_be_cases)
  note inner = locate_ipv6_header [of ?l ?r "quoted_udp flow" 8 PROTO_UDP, simplified, folded q_def]
  have lq: "length q = 48" using inner(2) by (simp add: q_def)
  let ?i = "[1, 4, a, b, 0, 0, 0, 0] @ q"
  let ?p = "ipv6_header ?r ?l PROTO_ICMPV6 56 @ ?i"
  have up: "unreachable_toward_app flow = Some ?p"
    using assms lq ab by (simp add: unreachable_toward_app_def Let_def quoted_udp_def [symmetric] q_def icmp_def v6_octets_def)
  have li: "length ?i = 56" using lq by simp
  note outer = locate_ipv6_header [of ?r ?l ?i 56 PROTO_ICMPV6, OF _ _ li, simplified]
  have "quoted_flow q Downlink = Some (Inr (CIcmpError flow))"
    using inner assms from_octets16
    by (intro quoted_flow_back [where l = "built_layout FamilyV6 PROTO_UDP 8"])
      (auto simp: locate_quoted_def Let_def slice_def q_def)
  moreover have "classify ?p Downlink = quoted_flow q Downlink"
    using outer li by (intro icmp_error_back [where l = "built_layout FamilyV6 PROTO_ICMPV6 56" and t = 1 and code = 4 and a = a and b = b])
      (auto simp: locate_def Let_def slice_def icmp_kind_def)
  ultimately show ?thesis using up by simp
qed


definition sample_tcp_flow :: FlowKey where
  "sample_tcp_flow =
     \<lparr>fk_transport = FlowTcp, fk_local = SocketV4 0x0a400002 50000, fk_remote = SocketV4 0xc6336409 443\<rparr>"


section \<open>The packet path does not panic\<close>

text \<open>
  C30. Whatever bytes are read from the TUN device or delivered by a session, none of the functions that
  look at a packet panics: every index and slice they use is in range. The headers they locate lie in
  the buffer: the addresses before the upper layer, the upper layer before the end of the datagram,
  and that end inside the buffer.
\<close>

theorem packet_path_total:
  "(\<exists>r. locate p = Some r \<and> (case r of Inl _ \<Rightarrow> True | Inr l \<Rightarrow> layout_ok p l)) \<and>
   (\<exists>r. classify p d = Some r) \<and> (\<exists>r. rewrite_source p a = Some r) \<and> (\<exists>r. rewrite_destination p a = Some r) \<and>
   (\<exists>r. segment p = Some r)"
proof -
  obtain r where r: "locate p = Some r" using locate_total(1) [of p] by blast
  then have "case r of Inl _ \<Rightarrow> True | Inr l \<Rightarrow> layout_ok p l" using locate_ok(1) [of p] by (cases r) simp_all
  then show ?thesis using r classify_total [of p d] rewrite_total [of p a] segment_total [of p]
    by (auto simp: rewrite_source_def rewrite_destination_def)
qed

end
