(* ===== verification/App_Matcher.thy ===== *)
theory App_Matcher
  imports Bytes Bounded_Store "HOL-Library.Monad_Syntax"
begin

text \<open>
  Whether an executable belongs to an app the user chose (\<open>talpid-app-routing/src/app.rs\<close>): the key a
  path reduces to on each system, the matcher from keys to values, and the cache of decisions. Paths
  and strings are their bytes, an \<open>OsStr\<close> as on Unix; slicing a \<open>str\<close> off a character boundary is a
  panic, the value \<^const>\<open>None\<close>. The file system's \<open>canonicalize\<close>, the Unicode tables of
  \<open>to_lowercase\<close> and the system the code was built for are parameters.
\<close>

section \<open>Strings\<close>

definition is_cont :: "byte \<Rightarrow> bool" where
  "is_cont b \<longleftrightarrow> 0x80 \<le> b \<and> b \<le> 0xBF"

definition cont_at :: "bytes \<Rightarrow> nat \<Rightarrow> bool" where
  "cont_at s i \<longleftrightarrow> i < length s \<and> is_cont (s ! i)"

text \<open>The second byte of a sequence of three or four: no overlong form, surrogate or number out of range.\<close>

definition second_ok :: "byte \<Rightarrow> byte \<Rightarrow> bool" where
  "second_ok b c \<longleftrightarrow>
     is_cont c \<and> (b = 0xE0 \<longrightarrow> 0xA0 \<le> c) \<and> (b = 0xED \<longrightarrow> c \<le> 0x9F) \<and>
     (b = 0xF0 \<longrightarrow> 0x90 \<le> c) \<and> (b = 0xF4 \<longrightarrow> c \<le> 0x8F)"

text \<open>Whether a string of bytes starts with a character, and how many bytes are the character or the malformed start of one.\<close>

fun utf8_head :: "bytes \<Rightarrow> bool \<times> nat" where
  "utf8_head [] = (True, 0)"
| "utf8_head (b # rest) =
     (if b < 0x80 then (True, 1)
      else if 0xC2 \<le> b \<and> b \<le> 0xDF then (if cont_at rest 0 then (True, 2) else (False, 1))
      else if 0xE0 \<le> b \<and> b \<le> 0xF4 then
        (if rest = [] \<or> \<not> second_ok b (hd rest) then (False, 1)
         else if \<not> cont_at rest 1 then (False, 2)
         else if b \<le> 0xEF then (True, 3)
         else if cont_at rest 2 then (True, 4) else (False, 3))
      else (False, 1))"

lemma utf8_head_bounds:
  assumes "s \<noteq> []"
  shows "0 < snd (utf8_head s)" "snd (utf8_head s) \<le> length s"
  using assms by (cases s; auto simp: cont_at_def neq_Nil_conv Suc_le_eq)+

lemma utf8_head_shrinks: "s \<noteq> [] \<Longrightarrow> (ok, n) = utf8_head s \<Longrightarrow> length s - n < length s"
  using utf8_head_bounds [of s] by (cases "utf8_head s") auto

declare utf8_head.simps [simp del]

function to_string_lossy :: "bytes \<Rightarrow> bytes" where
  "to_string_lossy s =
     (if s = [] then []
      else case utf8_head s of (ok, n) \<Rightarrow>
        (if ok then take n s else [0xEF, 0xBF, 0xBD]) @ to_string_lossy (drop n s))"
  by auto
termination
  by (relation "measure length") (simp_all add: utf8_head_shrinks)

declare to_string_lossy.simps [simp del]

function valid_utf8 :: "bytes \<Rightarrow> bool" where
  "valid_utf8 s = (if s = [] then True else case utf8_head s of (ok, n) \<Rightarrow> ok \<and> valid_utf8 (drop n s))"
  by auto
termination
  by (relation "measure length") (simp_all add: utf8_head_shrinks)

declare valid_utf8.simps [simp del]

text \<open>\<open>is_char_boundary\<close>, and the slices \<open>s[i..]\<close> and \<open>s[..i]\<close> of a \<open>str\<close>.\<close>

definition is_char_boundary :: "bytes \<Rightarrow> nat \<Rightarrow> bool" where
  "is_char_boundary s i \<longleftrightarrow> i = 0 \<or> i = length s \<or> i < length s \<and> \<not> is_cont (s ! i)"

definition str_from :: "bytes \<Rightarrow> nat \<Rightarrow> bytes option" where
  "str_from s i = (if is_char_boundary s i then Some (drop i s) else None)"

definition str_to :: "bytes \<Rightarrow> nat \<Rightarrow> bytes option" where
  "str_to s i = (if is_char_boundary s i then Some (take i s) else None)"

definition to_ascii_lowercase :: "byte \<Rightarrow> byte" where
  "to_ascii_lowercase b = (if 0x41 \<le> b \<and> b \<le> 0x5A then b + 0x20 else b)"

definition eq_ignore_ascii_case :: "bytes \<Rightarrow> bytes \<Rightarrow> bool" where
  "eq_ignore_ascii_case a b \<longleftrightarrow> map to_ascii_lowercase a = map to_ascii_lowercase b"

text \<open>\<open>split\<close> at a separator: never empty.\<close>

fun split_on :: "byte \<Rightarrow> bytes \<Rightarrow> bytes list" where
  "split_on sep [] = [[]]"
| "split_on sep (b # s) =
     (if b = sep then [] # split_on sep s
      else case split_on sep s of c # cs \<Rightarrow> (b # c) # cs | [] \<Rightarrow> [[b]])"

definition strip_prefix :: "bytes \<Rightarrow> bytes \<Rightarrow> bytes option" where
  "strip_prefix p s = (if take (length p) s = p then Some (drop (length p) s) else None)"

definition strip_suffix :: "bytes \<Rightarrow> bytes \<Rightarrow> bytes option" where
  "strip_suffix p s =
     (if length p \<le> length s \<and> drop (length s - length p) s = p then Some (take (length s - length p) s) else None)"

section \<open>Keys\<close>

datatype PathFlavor = MacOs | Windows | LinuxOs

text \<open>The system: its path conventions (\<open>HOST\<close>), \<open>canonicalize\<close> and \<open>to_lowercase\<close>.\<close>

record Platform =
  pf_host :: PathFlavor
  pf_canonicalize :: "bytes \<Rightarrow> bytes option"
  pf_to_lowercase :: "bytes \<Rightarrow> bytes"

definition slash :: byte where "slash = 0x2F"
definition backslash :: byte where "backslash = 0x5C"
definition dot_app :: bytes where "dot_app = [0x2E, 0x61, 0x70, 0x70]"
definition verbatim :: bytes where "verbatim = [0x5C, 0x5C, 0x3F, 0x5C]"
definition deleted :: bytes where
  "deleted = [0x20, 0x28, 0x64, 0x65, 0x6C, 0x65, 0x74, 0x65, 0x64, 0x29]"

definition is_bundle :: "bytes \<Rightarrow> bool option" where
  "is_bundle component =
     (if 4 < length component then do {
        ending \<leftarrow> str_from component (length component - 4);
        Some (eq_ignore_ascii_case ending dot_app) }
      else Some False)"

fun macos_loop :: "bytes \<Rightarrow> nat \<Rightarrow> bytes list \<Rightarrow> bytes option" where
  "macos_loop path pos [] = Some path"
| "macos_loop path pos (component # rest) = do {
     let pos = pos + length component;
     bundle \<leftarrow> is_bundle component;
     if bundle then str_to path pos else macos_loop path (pos + 1) rest }"

definition macos_key :: "bytes \<Rightarrow> bytes option" where
  "macos_key path = macos_loop path 0 (split_on slash path)"

definition windows_key :: "Platform \<Rightarrow> bytes \<Rightarrow> bytes" where
  "windows_key pf path =
     (let path = unwrap_or (strip_prefix verbatim path) path
      in pf_to_lowercase pf (map (\<lambda>b. if b = slash then backslash else b) path))"

definition linux_key :: "bytes \<Rightarrow> bytes" where
  "linux_key path = unwrap_or (strip_suffix deleted path) path"

definition app_key :: "Platform \<Rightarrow> PathFlavor \<Rightarrow> bytes \<Rightarrow> bytes option" where
  "app_key pf flavor path =
     (let path = to_string_lossy path
      in case flavor of
           MacOs \<Rightarrow> macos_key path
         | Windows \<Rightarrow> Some (windows_key pf path)
         | LinuxOs \<Rightarrow> Some (linux_key path))"

section \<open>The matcher\<close>

record 'v AppMatcher =
  am_flavor :: PathFlavor
  am_apps :: "(bytes, 'v) hash_map"

fun am_insert_all ::
  "Platform \<Rightarrow> PathFlavor \<Rightarrow> (bytes \<times> 'v) list \<Rightarrow> (bytes, 'v) hash_map \<Rightarrow> (bytes, 'v) hash_map option" where
  "am_insert_all pf flavor [] m = Some m"
| "am_insert_all pf flavor ((app, value) # rest) m = do {
     m \<leftarrow> (case (if flavor = pf_host pf then pf_canonicalize pf app else None) of
             Some resolved \<Rightarrow> do { key \<leftarrow> app_key pf flavor resolved; Some (hm_insert key value m) }
           | None \<Rightarrow> Some m);
     key \<leftarrow> app_key pf flavor app;
     am_insert_all pf flavor rest (hm_insert key value m) }"

definition am_new :: "Platform \<Rightarrow> PathFlavor \<Rightarrow> (bytes \<times> 'v) list \<Rightarrow> 'v AppMatcher option" where
  "am_new pf flavor apps = do {
     m \<leftarrow> am_insert_all pf flavor apps [];
     Some \<lparr>am_flavor = flavor, am_apps = m\<rparr> }"

definition am_is_empty :: "'v AppMatcher \<Rightarrow> bool" where
  "am_is_empty m = (am_apps m = [])"

definition am_apps_only :: "'v AppMatcher \<Rightarrow> unit AppMatcher" where
  "am_apps_only m = \<lparr>am_flavor = am_flavor m, am_apps = map (\<lambda>(app, _). (app, ())) (am_apps m)\<rparr>"

text \<open>\<open>lookup\<close>: the outer option is a panic.\<close>

definition am_lookup :: "Platform \<Rightarrow> 'v AppMatcher \<Rightarrow> bytes \<Rightarrow> 'v option option" where
  "am_lookup pf m executable = do {
     key \<leftarrow> app_key pf (am_flavor m) executable;
     Some (hm_get (am_apps m) key) }"

section \<open>Decisions\<close>

record ProcessKey =
  pk_pid :: "32 word"
  pk_start_time :: "64 word"
  pk_image :: "64 word"

record 'v DecisionCache =
  dc_decisions :: "(ProcessKey, 'v option) hash_map"
  dc_capacity :: nat

definition dc_new :: "nat \<Rightarrow> 'v DecisionCache" where
  "dc_new capacity = \<lparr>dc_decisions = [], dc_capacity = max capacity 1\<rparr>"

definition dc_get :: "'v DecisionCache \<Rightarrow> ProcessKey \<Rightarrow> 'v option option" where
  "dc_get c process = hm_get (dc_decisions c) process"

definition dc_insert :: "ProcessKey \<Rightarrow> 'v option \<Rightarrow> 'v DecisionCache \<Rightarrow> 'v DecisionCache" where
  "dc_insert process decision c =
     (let c = (if dc_capacity c \<le> length (dc_decisions c) \<and> hm_get (dc_decisions c) process = None
               then c\<lparr>dc_decisions := []\<rparr> else c)
      in c\<lparr>dc_decisions := hm_insert process decision (dc_decisions c)\<rparr>)"

definition dc_len :: "'v DecisionCache \<Rightarrow> nat" where
  "dc_len c = length (dc_decisions c)"

definition dc_is_empty :: "'v DecisionCache \<Rightarrow> bool" where
  "dc_is_empty c = (dc_decisions c = [])"

definition dc_clear :: "'v DecisionCache \<Rightarrow> 'v DecisionCache" where
  "dc_clear c = c\<lparr>dc_decisions := []\<rparr>"

definition dc_ok :: "'v DecisionCache \<Rightarrow> bool" where
  "dc_ok c \<longleftrightarrow> hm_ok (dc_decisions c) \<and> length (dc_decisions c) \<le> dc_capacity c \<and> 1 \<le> dc_capacity c"

lemma dc_ok_simps [simp]: "dc_ok (dc_new n)" "dc_get (dc_new n) p = None" "dc_get (dc_clear c) p = None"
  "dc_ok c \<Longrightarrow> dc_ok (dc_clear c)"
  by (simp_all add: dc_ok_def dc_new_def dc_get_def dc_clear_def)

interpretation decisions: bounded_store dc_get "\<lambda>k v _. dc_insert k v" dc_len dc_capacity dc_ok
proof
  fix c :: "'v DecisionCache" and k k' v w
  assume ok: "dc_ok c"
  show "dc_get (dc_insert k v c) k = Some v" by (simp add: dc_get_def dc_insert_def Let_def)
  show "dc_get c k' = Some w" if "k' \<noteq> k" "dc_get (dc_insert k v c) k' = Some w"
    using that by (auto simp: dc_get_def dc_insert_def Let_def split: if_splits)
  show "dc_ok (dc_insert k v c)" using ok by (auto simp: dc_ok_def dc_insert_def length_hm_insert Let_def)
  show "dc_len c \<le> dc_capacity c" using ok by (simp add: dc_ok_def dc_len_def)
qed (simp add: dc_insert_def Let_def)

section \<open>Properties of keys\<close>

lemma split_on_neq [simp]: "split_on sep s \<noteq> []"
  by (cases s) (auto split: list.splits)

lemma split_on_append:
  "sep \<notin> set c \<Longrightarrow> split_on sep (c @ sep # s) = c # split_on sep s"
  by (induction c) auto

lemma split_on_single: "sep \<notin> set c \<Longrightarrow> split_on sep c = [c]"
  by (induction c) auto

lemma split_on_components: "c \<in> set (split_on sep s) \<Longrightarrow> sep \<notin> set c"
proof (induction s arbitrary: c)
  case (Cons b s)
  then show ?case by (cases "split_on sep s") (auto split: if_splits)
qed simp

text \<open>The inverse of splitting.\<close>

fun join_with :: "byte \<Rightarrow> bytes list \<Rightarrow> bytes" where
  "join_with sep [] = []"
| "join_with sep [c] = c"
| "join_with sep (c # cs) = c @ sep # join_with sep cs"

lemma join_with_Cons: "cs \<noteq> [] \<Longrightarrow> join_with sep (c # cs) = c @ sep # join_with sep cs"
  by (cases cs) auto

lemma join_split [simp]: "join_with sep (split_on sep s) = s"
proof (induction s)
  case (Cons b s)
  obtain c cs where "split_on sep s = c # cs" using split_on_neq by (metis neq_Nil_conv)
  then show ?case using Cons by (cases cs) auto
qed simp

lemma split_join: "cs \<noteq> [] \<Longrightarrow> (\<And>c. c \<in> set cs \<Longrightarrow> sep \<notin> set c) \<Longrightarrow> split_on sep (join_with sep cs) = cs"
  by (induction sep cs rule: join_with.induct) (auto simp: split_on_append split_on_single)

text \<open>
  A component that looks like a bundle, and one whose fourth byte from the end is inside a character.
\<close>

definition bundle_name :: "bytes \<Rightarrow> bool" where
  "bundle_name c \<longleftrightarrow> (\<exists>n e. c = n @ e \<and> n \<noteq> [] \<and> map to_ascii_lowercase e = dot_app)"

definition splits_char :: "bytes \<Rightarrow> bool" where
  "splits_char c \<longleftrightarrow> 4 < length c \<and> is_cont (c ! (length c - 4))"

lemma dot_app_fold: "map to_ascii_lowercase dot_app = dot_app" "length dot_app = 4"
  by (simp_all add: dot_app_def to_ascii_lowercase_def)

lemma is_bundle_spec: "is_bundle c = (if splits_char c then None else Some (bundle_name c))"
proof (cases "4 < length c")
  case True
  have "bundle_name c \<longleftrightarrow> map to_ascii_lowercase (drop (length c - 4) c) = dot_app"
  proof
    assume "bundle_name c"
    then obtain n e where "c = n @ e" "map to_ascii_lowercase e = dot_app" by (auto simp: bundle_name_def)
    moreover from this have "length e = 4" using dot_app_fold(2) by (metis length_map)
    ultimately show "map to_ascii_lowercase (drop (length c - 4) c) = dot_app" by simp
  next
    assume "map to_ascii_lowercase (drop (length c - 4) c) = dot_app"
    then show "bundle_name c" using True unfolding bundle_name_def
      by - (rule exI [of _ "take (length c - 4) c"], rule exI [of _ "drop (length c - 4) c"], auto simp: dot_app_def)
  qed
  then show ?thesis using True
    by (auto simp: is_bundle_def splits_char_def str_from_def is_char_boundary_def eq_ignore_ascii_case_def dot_app_fold)
next
  case False
  have "4 < length c" if "bundle_name c"
  proof -
    obtain n e where "c = n @ e" "n \<noteq> []" "map to_ascii_lowercase e = dot_app" using \<open>bundle_name c\<close> by (auto simp: bundle_name_def)
    moreover from this have "length e = 4" using dot_app_fold(2) by (metis length_map)
    ultimately show ?thesis by simp
  qed
  then show ?thesis using False by (auto simp: is_bundle_def splits_char_def)
qed


text \<open>The components of a path up to its outermost bundle, all of them outside any bundle.\<close>

definition upto_bundle :: "bytes \<Rightarrow> bytes list" where
  "upto_bundle path =
     (let cs = split_on slash path in take (Suc (length (takeWhile (\<lambda>c. \<not> bundle_name c) cs))) cs)"

lemma not_cont_slash [simp]: "\<not> is_cont slash"
  by (simp add: is_cont_def slash_def)

lemma str_to_component:
  "str_to (a @ slash # b) (length a) = Some a" "str_to a (length a) = Some a"
  by (simp_all add: str_to_def is_char_boundary_def)

lemma macos_loop_spec:
  assumes "cs \<noteq> []"
  shows "macos_loop (pre @ join_with slash cs) (length pre) cs =
    (let us = take (Suc (length (takeWhile (\<lambda>c. \<not> bundle_name c) cs))) cs
     in if list_ex splits_char us then None else Some (pre @ join_with slash us))"
  using assms
proof (induction cs arbitrary: pre)
  case (Cons c cs)
  show ?case
  proof (cases "cs = []")
    case True
    then show ?thesis using str_to_component(2) [of "pre @ c"]
      by (auto simp: is_bundle_spec Let_def)
  next
    case False
    let ?us = "take (Suc (length (takeWhile (\<lambda>c. \<not> bundle_name c) cs))) cs"
    have IH: "macos_loop (pre @ c @ slash # join_with slash cs) (Suc (length pre + length c)) cs =
      (if list_ex splits_char ?us then None else Some (pre @ c @ slash # join_with slash ?us))"
      using Cons.IH [OF False, of "pre @ c @ [slash]"] by (simp add: Let_def)
    have us: "?us \<noteq> []" using False by simp
    show ?thesis using IH False us str_to_component(1) [of "pre @ c" "join_with slash cs"]
      by (auto simp: is_bundle_spec Let_def join_with_Cons)
  qed
qed simp

lemma macos_key_upto:
  "macos_key path =
     (if list_ex splits_char (upto_bundle path) then None else Some (join_with slash (upto_bundle path)))"
  using macos_loop_spec [OF split_on_neq, of "[]" slash path]
  by (simp add: macos_key_def upto_bundle_def Let_def)

lemma split_on_append_path: "split_on sep (a @ sep # b) = split_on sep a @ split_on sep b"
proof (induction a)
  case (Cons x a)
  obtain c cs where "split_on sep a = c # cs" using split_on_neq by (metis neq_Nil_conv)
  then show ?case using Cons by simp
qed simp

lemma takeWhile_some: "\<exists>c \<in> set cs. P c \<Longrightarrow> length (takeWhile (\<lambda>c. \<not> P c) cs) < length cs"
  by (induction cs) auto

lemma upto_bundle_inside:
  assumes "bundle_name (last (split_on slash b))"
  shows "upto_bundle (b @ slash # rest) = upto_bundle b"
proof -
  have "\<exists>c \<in> set (split_on slash b). bundle_name c" using assms by (metis last_in_set split_on_neq)
  then have w: "takeWhile (\<lambda>c. \<not> bundle_name c) (split_on slash b @ split_on slash rest) =
      takeWhile (\<lambda>c. \<not> bundle_name c) (split_on slash b)"
    and l: "length (takeWhile (\<lambda>c. \<not> bundle_name c) (split_on slash b)) < length (split_on slash b)"
    using takeWhile_some [of "split_on slash b" bundle_name] by (metis takeWhile_append1, blast)
  show ?thesis using l by (simp add: upto_bundle_def split_on_append_path w Let_def)
qed


text \<open>
  C36. The key of a macOS path is the path up to its outermost component named \<open>*.app\<close> in any case, the
  whole path when it has none, and the same for everything inside a bundle: a helper nested in it
  reduces to the bundle's own key. Computing it panics exactly when a component up to there, of more
  than four bytes, has a character that spans its fourth byte from the end.
\<close>

theorem macos_keys:
  "macos_key path =
     (if list_ex splits_char (upto_bundle path) then None else Some (join_with slash (upto_bundle path))) \<and>
   (bundle_name (last (split_on slash path)) \<longrightarrow> macos_key (path @ slash # inner) = macos_key path)"
  by (simp add: macos_key_upto upto_bundle_inside)

definition sample_bundle :: bytes where
  "sample_bundle = [0x2F, 0x46, 0x69, 0x72, 0x65, 0x2E, 0x41, 0x70, 0x70]"

theorem macos_keys_witness:
  "macos_key (sample_bundle @ slash # [0x78, 0x2E, 0x61, 0x70, 0x70]) = Some sample_bundle"
proof -
  have "bundle_name (last (split_on slash sample_bundle))"
    unfolding bundle_name_def
    by (rule exI [of _ "[0x46, 0x69, 0x72, 0x65]"], rule exI [of _ "[0x2E, 0x41, 0x70, 0x70]"])
      (simp add: sample_bundle_def slash_def dot_app_def to_ascii_lowercase_def)
  moreover have "macos_key sample_bundle = Some sample_bundle"
    by (simp add: macos_key_def sample_bundle_def slash_def is_bundle_def str_from_def str_to_def is_char_boundary_def
        is_cont_def eq_ignore_ascii_case_def to_ascii_lowercase_def dot_app_def)
  ultimately show ?thesis using macos_keys [of sample_bundle "[0x78, 0x2E, 0x61, 0x70, 0x70]"] by simp
qed

text \<open>A directory whose name ends in two characters of three bytes each, and the executable in it.\<close>

definition sample_cjk :: bytes where
  "sample_cjk = [0x2F, 0xE6, 0x97, 0xA5, 0xE6, 0x9C, 0xAC, 0x2F, 0x78]"

lemma macos_key_panics: "valid_utf8 sample_cjk" "macos_key sample_cjk = None"
  by (simp_all add: sample_cjk_def valid_utf8.simps utf8_head.simps cont_at_def second_ok_def is_cont_def
      macos_key_def slash_def is_bundle_def str_from_def is_char_boundary_def)

end
