(* ===== verification/Socket_Table.thy ===== *)
theory Socket_Table
  imports Packet_Flow "HOL-Library.Product_Lexorder" "HOL-Library.Multiset"
begin

text \<open>
  Which process owns a flow, from the socket tables of macOS and Windows
  (\<open>talpid-app-routing/src/owner\<close>: \<open>mod.rs\<close>, \<open>pcblist.rs\<close>, \<open>win_tables.rs\<close> and the refreshes of
  \<open>macos.rs\<close> and \<open>windows.rs\<close>): the table and its search, the two parsers of kernel exports, and the
  snapshot. A panic is \<^const>\<open>None\<close>; the system call that fills a buffer is a parameter, \<^const>\<open>None\<close>
  where it fails. The hosts are little-endian, which is what native byte order means here.
\<close>

section \<open>The table\<close>

datatype OwnerError = SocketTableError | UnknownLayout

record SocketRecord =
  sr_transport :: Transport
  sr_local :: SocketAddr
  sr_remote :: "SocketAddr option"
  sr_pid :: "32 word"

record SocketTable =
  st_records :: "SocketRecord list"

text \<open>\<open>to_canonical\<close>: an IPv4-mapped IPv6 address is the IPv4 address in it.\<close>

definition to_canonical :: "IpAddr \<Rightarrow> IpAddr" where
  "to_canonical ip =
     (case ip of V4 a \<Rightarrow> V4 a | V6 a \<Rightarrow> if drop_bit 32 a = 0xffff then V4 (ucast a) else V6 a)"

definition is_unspecified :: "IpAddr \<Rightarrow> bool" where
  "is_unspecified ip = (case ip of V4 a \<Rightarrow> a = 0 | V6 a \<Rightarrow> a = 0)"

definition transport_rank :: "Transport \<Rightarrow> byte" where
  "transport_rank t = (case t of FlowTcp \<Rightarrow> 0 | FlowUdp \<Rightarrow> 1 | FlowIcmpEcho \<Rightarrow> 2)"

definition local_matches :: "IpAddr \<Rightarrow> IpAddr \<Rightarrow> bool" where
  "local_matches bound packet \<longleftrightarrow> is_unspecified bound \<or> bound = packet"

definition unmapped :: "SocketAddr \<Rightarrow> SocketAddr" where
  "unmapped addr = socket_new (to_canonical (sock_ip addr)) (sock_port addr)"

definition st_empty :: SocketTable where
  "st_empty = \<lparr>st_records = []\<rparr>"

definition st_clear :: "SocketTable \<Rightarrow> SocketTable" where
  "st_clear t = t\<lparr>st_records := []\<rparr>"

definition st_push :: "SocketRecord \<Rightarrow> SocketTable \<Rightarrow> SocketTable" where
  "st_push r t =
     t\<lparr>st_records := st_records t @ [r\<lparr>sr_local := unmapped (sr_local r), sr_remote := map_option unmapped (sr_remote r)\<rparr>]\<rparr>"

abbreviation record_key :: "SocketRecord \<Rightarrow> byte \<times> 16 word" where
  "record_key r \<equiv> (transport_rank (sr_transport r), sock_port (sr_local r))"

text \<open>
  The sort of the code is not stable; this one is. The search is characterised below for every order of
  the records that is sorted by the key.
\<close>

definition st_finish :: "SocketTable \<Rightarrow> SocketTable" where
  "st_finish t = t\<lparr>st_records := sort_key record_key (st_records t)\<rparr>"

definition st_len :: "SocketTable \<Rightarrow> nat" where
  "st_len t = length (st_records t)"

definition st_is_empty :: "SocketTable \<Rightarrow> bool" where
  "st_is_empty t \<longleftrightarrow> st_records t = []"

text \<open>\<open>partition_point\<close> of a partitioned slice.\<close>

definition partition_point :: "('a \<Rightarrow> bool) \<Rightarrow> 'a list \<Rightarrow> nat" where
  "partition_point P xs = length (takeWhile P xs)"

fun owner_loop :: "FlowKey \<Rightarrow> SocketRecord list \<Rightarrow> 32 word option \<Rightarrow> bool \<Rightarrow> 32 word option" where
  "owner_loop flow [] unconnected shared = (if shared then None else unconnected)"
| "owner_loop flow (r # rest) unconnected shared =
     (case sr_remote r of
        Some remote \<Rightarrow>
          if remote = fk_remote flow then Some (sr_pid r) else owner_loop flow rest unconnected shared
      | None \<Rightarrow>
          if fk_transport flow = FlowUdp then
            (case unconnected of
               None \<Rightarrow> owner_loop flow rest (Some (sr_pid r)) shared
             | Some pid \<Rightarrow> owner_loop flow rest unconnected (shared \<or> pid \<noteq> sr_pid r))
          else owner_loop flow rest unconnected shared)"

definition st_owner :: "FlowKey \<Rightarrow> SocketTable \<Rightarrow> 32 word option" where
  "st_owner flow t =
     (let key = (transport_rank (fk_transport flow), sock_port (fk_local flow));
          start = partition_point (\<lambda>r. record_key r < key) (st_records t);
          candidates = filter (\<lambda>r. sr_pid r \<noteq> 0 \<and> local_matches (sock_ip (sr_local r)) (sock_ip (fk_local flow)))
                         (takeWhile (\<lambda>r. record_key r = key) (drop start (st_records t)))
      in owner_loop flow candidates None False)"

section \<open>The macOS export\<close>

definition XINPGEN_LEN :: nat where "XINPGEN_LEN = 24"
definition KIND_SOCKET :: "32 word" where "KIND_SOCKET = 0x001"
definition KIND_INPCB :: "32 word" where "KIND_INPCB = 0x010"
definition XINPCB_N_LEN :: nat where "XINPCB_N_LEN = 104"
definition INP_FPORT :: nat where "INP_FPORT = 16"
definition INP_LPORT :: nat where "INP_LPORT = 18"
definition INP_VFLAG :: nat where "INP_VFLAG = 44"
definition INP_FADDR :: nat where "INP_FADDR = 48"
definition INP_LADDR :: nat where "INP_LADDR = 64"
definition INP_IPV4 :: byte where "INP_IPV4 = 0x1"
definition INP_IPV6 :: byte where "INP_IPV6 = 0x2"
definition V4_IN_UNION :: nat where "V4_IN_UNION = 12"
definition XSOCKET_N_MIN_LEN :: nat where "XSOCKET_N_MIN_LEN = 76"
definition SO_LAST_PID :: nat where "SO_LAST_PID = 68"
definition SO_E_PID :: nat where "SO_E_PID = 72"

lemmas pcb_defs = XINPGEN_LEN_def KIND_SOCKET_def KIND_INPCB_def XINPCB_N_LEN_def INP_FPORT_def INP_LPORT_def
  INP_VFLAG_def INP_FADDR_def INP_LADDR_def INP_IPV4_def INP_IPV6_def V4_IN_UNION_def XSOCKET_N_MIN_LEN_def
  SO_LAST_PID_def SO_E_PID_def

text \<open>Four bytes in the order of a little-endian host.\<close>

definition read_u32 :: "bytes \<Rightarrow> nat \<Rightarrow> 32 word option" where
  "read_u32 buf at = do {
     s \<leftarrow> slice buf at (at + 4);
     case s of [a, b, c, d] \<Rightarrow> Some (u32_from_be d c b a) | _ \<Rightarrow> None }"

definition next_multiple_of :: "nat \<Rightarrow> nat \<Rightarrow> nat" where
  "next_multiple_of n m = (n + m - 1) div m * m"

definition pcb_addr :: "bytes \<Rightarrow> byte \<Rightarrow> nat \<Rightarrow> IpAddr option option" where
  "pcb_addr inpcb vflag at =
     (if vflag AND INP_IPV4 \<noteq> 0 then do {
        octets \<leftarrow> slice inpcb (at + V4_IN_UNION) (at + 16);
        Some (Some (V4 (word_of_nat (from_be octets)))) }
      else if vflag AND INP_IPV6 \<noteq> 0 then do {
        octets \<leftarrow> slice inpcb at (at + 16);
        Some (Some (V6 (word_of_nat (from_be octets)))) }
      else Some None)"

text \<open>\<open>ends\<close>: the outer option is a panic.\<close>

definition pcb_ends :: "bytes \<Rightarrow> (SocketAddr \<times> SocketAddr option) option option" where
  "pcb_ends inpcb = do {
     vflag \<leftarrow> index inpcb INP_VFLAG;
     laddr \<leftarrow> pcb_addr inpcb vflag INP_LADDR;
     case laddr of
       None \<Rightarrow> Some None
     | Some laddr \<Rightarrow> do {
         lport \<leftarrow> u16_at inpcb INP_LPORT;
         faddr \<leftarrow> pcb_addr inpcb vflag INP_FADDR;
         case faddr of
           None \<Rightarrow> Some None
         | Some faddr \<Rightarrow> do {
             fport \<leftarrow> u16_at inpcb INP_FPORT;
             let remote = socket_new faddr fport;
             let connected = (\<not> (is_unspecified (sock_ip remote) \<and> sock_port remote = 0));
             Some (Some (socket_new laddr lport, if connected then Some remote else None)) } } }"

definition pcb_push ::
  "Transport \<Rightarrow> SocketAddr \<Rightarrow> SocketAddr option \<Rightarrow> bytes \<Rightarrow> SocketTable \<Rightarrow> SocketTable" where
  "pcb_push transport local remote socket table =
     (let last_pid = unwrap_or (read_u32 socket SO_LAST_PID) 0;
          e_pid = unwrap_or (read_u32 socket SO_E_PID) 0;
          pid = (if 0 < sint e_pid then e_pid else last_pid)
      in if 0 \<le> sint pid
         then st_push \<lparr>sr_transport = transport, sr_local = local, sr_remote = remote, sr_pid = pid\<rparr> table
         else table)"

lemma next_multiple_of_ge: "0 < m \<Longrightarrow> n \<le> next_multiple_of n m"
proof -
  assume m: "0 < m"
  have "(n + m - 1) mod m < m" using m by simp
  then show ?thesis using div_mult_mod_eq [of "n + m - 1" m] m unfolding next_multiple_of_def by linarith
qed

lemma slice_ge: "slice buf a b = Some s \<Longrightarrow> b \<le> length buf"
  by (auto simp: slice_def split: if_splits)

lemma next_record:
  "slice buf offset (offset + len) = Some s \<Longrightarrow> len \<noteq> 0 \<Longrightarrow>
    length buf - (offset + next_multiple_of len 8) < length buf - offset"
  using next_multiple_of_ge [of 8 len] slice_ge [of buf offset "offset + len" s] by linarith

function pcb_loop ::
  "bytes \<Rightarrow> Transport \<Rightarrow> nat \<Rightarrow> (SocketAddr \<times> SocketAddr option) option \<Rightarrow> SocketTable \<Rightarrow>
     ((OwnerError, unit) result \<times> SocketTable) option" where
  "pcb_loop buf transport offset pending table =
     (case (read_u32 buf offset, read_u32 buf (offset + 4)) of
        (Some len, Some kind) \<Rightarrow>
          let len = unat len in
          if len = 0 \<or> (len = XINPGEN_LEN \<and> length buf \<le> offset + len) then Some (Inr (), table)
          else
            (case slice buf offset (offset + len) of
               None \<Rightarrow> Some (Inl UnknownLayout, table)
             | Some r \<Rightarrow>
                 if kind = KIND_INPCB then
                   (if len \<noteq> XINPCB_N_LEN then Some (Inl UnknownLayout, table)
                    else case pcb_ends r of
                      None \<Rightarrow> None
                    | Some pending \<Rightarrow> pcb_loop buf transport (offset + next_multiple_of len 8) pending table)
                 else if kind = KIND_SOCKET then
                   (if len < XSOCKET_N_MIN_LEN then Some (Inl UnknownLayout, table)
                    else
                      let table = (case pending of Some (local, remote) \<Rightarrow> pcb_push transport local remote r table | None \<Rightarrow> table)
                      in pcb_loop buf transport (offset + next_multiple_of len 8) None table)
                 else pcb_loop buf transport (offset + next_multiple_of len 8) pending table)
      | _ \<Rightarrow> Some (Inr (), table))"
  by pat_completeness auto

termination
  by (relation "measure (\<lambda>(buf, _, offset, _). length buf - offset)")
    (auto simp: next_record dest: next_record)

declare pcb_loop.simps [simp del]

definition pcb_parse :: "bytes \<Rightarrow> Transport \<Rightarrow> SocketTable \<Rightarrow> ((OwnerError, unit) result \<times> SocketTable) option" where
  "pcb_parse buf transport table =
     (if map_option unat (read_u32 buf 0) \<noteq> Some XINPGEN_LEN then Some (Inl UnknownLayout, table)
      else pcb_loop buf transport XINPGEN_LEN None table)"

section \<open>The Windows tables\<close>

datatype TableKind = Tcp4 | Tcp6 | Udp4 | Udp6

definition row_len :: "TableKind \<Rightarrow> nat" where
  "row_len kind = (case kind of Tcp4 \<Rightarrow> 24 | Tcp6 \<Rightarrow> 56 | Udp4 \<Rightarrow> 12 | Udp6 \<Rightarrow> 28)"

definition row_v4 :: "bytes \<Rightarrow> nat \<Rightarrow> IpAddr option" where
  "row_v4 row at = do {
     a \<leftarrow> index row at; b \<leftarrow> index row (at + 1); c \<leftarrow> index row (at + 2); d \<leftarrow> index row (at + 3);
     Some (V4 (u32_from_be a b c d)) }"

definition row_v6 :: "bytes \<Rightarrow> nat \<Rightarrow> IpAddr option" where
  "row_v6 row at = do { octets \<leftarrow> slice row at (at + 16); Some (V6 (word_of_nat (from_be octets))) }"

definition row_dword :: "bytes \<Rightarrow> nat \<Rightarrow> 32 word option" where
  "row_dword row at = do {
     a \<leftarrow> index row at; b \<leftarrow> index row (at + 1); c \<leftarrow> index row (at + 2); d \<leftarrow> index row (at + 3);
     Some (u32_from_be d c b a) }"

definition win_ends :: "bytes \<Rightarrow> (bytes \<Rightarrow> nat \<Rightarrow> IpAddr option) \<Rightarrow> nat \<Rightarrow> nat \<Rightarrow> SocketAddr option" where
  "win_ends row ip at port_at = do { a \<leftarrow> ip row at; p \<leftarrow> u16_at row port_at; Some (socket_new a p) }"

definition win_record :: "bytes \<Rightarrow> TableKind \<Rightarrow> SocketRecord option" where
  "win_record row kind =
     (case kind of
        Tcp4 \<Rightarrow> do { l \<leftarrow> win_ends row row_v4 4 8; r \<leftarrow> win_ends row row_v4 12 16; pid \<leftarrow> row_dword row 20;
                    Some \<lparr>sr_transport = FlowTcp, sr_local = l, sr_remote = Some r, sr_pid = pid\<rparr> }
      | Tcp6 \<Rightarrow> do { l \<leftarrow> win_ends row row_v6 0 20; r \<leftarrow> win_ends row row_v6 24 44; pid \<leftarrow> row_dword row 52;
                    Some \<lparr>sr_transport = FlowTcp, sr_local = l, sr_remote = Some r, sr_pid = pid\<rparr> }
      | Udp4 \<Rightarrow> do { l \<leftarrow> win_ends row row_v4 0 4; pid \<leftarrow> row_dword row 8;
                    Some \<lparr>sr_transport = FlowUdp, sr_local = l, sr_remote = None, sr_pid = pid\<rparr> }
      | Udp6 \<Rightarrow> do { l \<leftarrow> win_ends row row_v6 0 20; pid \<leftarrow> row_dword row 24;
                    Some \<lparr>sr_transport = FlowUdp, sr_local = l, sr_remote = None, sr_pid = pid\<rparr> })"

text \<open>\<open>chunks_exact\<close>: the whole chunks of a slice; a chunk length of zero would panic.\<close>

fun win_rows :: "nat \<Rightarrow> TableKind \<Rightarrow> bytes \<Rightarrow> SocketTable \<Rightarrow> SocketTable option" where
  "win_rows 0 kind rows table = Some table"
| "win_rows (Suc n) kind rows table = do {
     r \<leftarrow> win_record (take (row_len kind) rows) kind;
     win_rows n kind (drop (row_len kind) rows) (st_push r table) }"

definition win_parse :: "bytes \<Rightarrow> TableKind \<Rightarrow> SocketTable \<Rightarrow> ((OwnerError, unit) result \<times> SocketTable) option" where
  "win_parse buf kind table =
     (case slice buf 0 4 of
        None \<Rightarrow> Some (Inl UnknownLayout, table)
      | Some word \<Rightarrow> do {
          count \<leftarrow> row_dword word 0;
          case slice buf 4 (4 + unat count * row_len kind) of
            None \<Rightarrow> Some (Inl UnknownLayout, table)
          | Some rows \<Rightarrow> do {
              table \<leftarrow> win_rows (length rows div row_len kind) kind rows table;
              Some (Inr (), table) } })"

section \<open>Snapshots\<close>

text \<open>\<open>try_for_each\<close> over the exports: reading one may fail, parsing it may.\<close>

fun read_all ::
  "('x \<Rightarrow> bytes option) \<Rightarrow> (bytes \<Rightarrow> 'x \<Rightarrow> SocketTable \<Rightarrow> ((OwnerError, unit) result \<times> SocketTable) option) \<Rightarrow>
     'x list \<Rightarrow> SocketTable \<Rightarrow> ((OwnerError, unit) result \<times> SocketTable) option" where
  "read_all sys parse [] table = Some (Inr (), table)"
| "read_all sys parse (x # xs) table =
     (case sys x of
        None \<Rightarrow> Some (Inl SocketTableError, table)
      | Some buf \<Rightarrow>
          (case parse buf x table of
             None \<Rightarrow> None
           | Some (Inl e, table) \<Rightarrow> Some (Inl e, table)
           | Some (Inr _, table) \<Rightarrow> read_all sys parse xs table))"

definition refresh_with ::
  "('x \<Rightarrow> bytes option) \<Rightarrow> (bytes \<Rightarrow> 'x \<Rightarrow> SocketTable \<Rightarrow> ((OwnerError, unit) result \<times> SocketTable) option) \<Rightarrow>
     'x list \<Rightarrow> SocketTable \<Rightarrow> ((OwnerError, unit) result \<times> SocketTable) option" where
  "refresh_with sys parse xs table = do {
     (res, table) \<leftarrow> read_all sys parse xs (st_clear table);
     Some (res, st_finish (if is_ok res then table else st_clear table)) }"

definition mac_refresh ::
  "(Transport \<Rightarrow> bytes option) \<Rightarrow> SocketTable \<Rightarrow> ((OwnerError, unit) result \<times> SocketTable) option" where
  "mac_refresh sysctl table = refresh_with sysctl pcb_parse [FlowTcp, FlowUdp] table"

definition win_refresh ::
  "(TableKind \<Rightarrow> bytes option) \<Rightarrow> SocketTable \<Rightarrow> ((OwnerError, unit) result \<times> SocketTable) option" where
  "win_refresh get_table table = refresh_with get_table win_parse [Tcp4, Tcp6, Udp4, Udp6] table"


section \<open>The search\<close>

lemma transport_rank_inj [simp]: "transport_rank a = transport_rank b \<longleftrightarrow> a = b"
  by (cases a; cases b; simp add: transport_rank_def)

lemma sorted_range:
  assumes "sorted (map f xs)"
  shows "takeWhile (\<lambda>x. f x = k) (drop (length (takeWhile (\<lambda>x. f x < k) xs)) xs) = filter (\<lambda>x. f x = k) xs"
  using assms
proof (induction xs)
  case (Cons x xs)
  then have IH: "takeWhile (\<lambda>x. f x = k) (drop (length (takeWhile (\<lambda>x. f x < k) xs)) xs) = filter (\<lambda>x. f x = k) xs" by simp
  consider "f x < k" | "f x = k" | "k < f x" by (rule linorder_cases)
  then show ?case
  proof cases
    case 2
    then have "takeWhile (\<lambda>x. f x < k) xs = []" using Cons.prems by (cases xs) auto
    then show ?thesis using 2 IH by simp
  next
    case 3
    then have "\<forall>y \<in> set xs. f y \<noteq> k" using Cons.prems by auto
    then show ?thesis using 3 by auto
  qed (use IH in simp)
qed simp

lemma owner_loop_connected:
  assumes "r \<in> set rs" "sr_remote r = Some (fk_remote flow)"
  shows "\<exists>r \<in> set rs. sr_remote r = Some (fk_remote flow) \<and> owner_loop flow rs un sh = Some (sr_pid r)"
  using assms by (induction flow rs un sh rule: owner_loop.induct) (auto split: option.splits)

lemma owner_loop_held:
  assumes "\<forall>r \<in> set rs. sr_remote r \<noteq> Some (fk_remote flow)" "fk_transport flow = FlowUdp"
  shows "owner_loop flow rs (Some q) sh = (if sh \<or> (\<exists>r \<in> set rs. sr_remote r = None \<and> sr_pid r \<noteq> q) then None else Some q)"
  using assms by (induction rs arbitrary: sh) (auto split: option.splits)

lemma owner_loop_unconnected:
  assumes "\<forall>r \<in> set rs. sr_remote r \<noteq> Some (fk_remote flow)"
  shows "owner_loop flow rs None False = Some pid \<longleftrightarrow>
    fk_transport flow = FlowUdp \<and> sr_pid ` {r \<in> set rs. sr_remote r = None} = {pid}"
proof (cases "fk_transport flow = FlowUdp")
  case True
  show ?thesis using assms
  proof (induction rs)
    case (Cons r rs)
    show ?case
    proof (cases "sr_remote r")
      case None
      then have "owner_loop flow (r # rs) None False =
          (if \<exists>x \<in> set rs. sr_remote x = None \<and> sr_pid x \<noteq> sr_pid r then None else Some (sr_pid r))"
        using owner_loop_held [of rs flow "sr_pid r" False] Cons.prems True by simp
      moreover have "sr_pid ` {x \<in> set (r # rs). sr_remote x = None} =
          insert (sr_pid r) (sr_pid ` {x \<in> set rs. sr_remote x = None})" using None by auto
      ultimately show ?thesis using True by (auto simp: singleton_insert_inj_eq')
    next
      case (Some remote)
      then have "{x \<in> set (r # rs). sr_remote x = None} = {x \<in> set rs. sr_remote x = None}" by auto
      then show ?thesis using Cons Some True by simp
    qed
  qed simp
next
  case False
  have "owner_loop flow rs None False = None" using assms False by (induction rs) (auto split: option.splits)
  then show ?thesis using False by simp
qed

text \<open>A record that may own a flow: of its transport, on its port and address, with a process.\<close>

definition may_own :: "FlowKey \<Rightarrow> SocketRecord \<Rightarrow> bool" where
  "may_own flow r \<longleftrightarrow>
     sr_transport r = fk_transport flow \<and> sock_port (sr_local r) = sock_port (fk_local flow) \<and> sr_pid r \<noteq> 0 \<and>
     local_matches (sock_ip (sr_local r)) (sock_ip (fk_local flow))"

lemma st_owner_filter:
  assumes "sorted (map record_key (st_records t))"
  shows "st_owner flow t = owner_loop flow (filter (may_own flow) (st_records t)) None False"
proof -
  let ?key = "(transport_rank (fk_transport flow), sock_port (fk_local flow))"
  have "filter (\<lambda>r. sr_pid r \<noteq> 0 \<and> local_matches (sock_ip (sr_local r)) (sock_ip (fk_local flow)))
      (filter (\<lambda>r. record_key r = ?key) (st_records t)) = filter (may_own flow) (st_records t)"
    by (auto simp: may_own_def intro: filter_cong)
  then show ?thesis
    using sorted_range [of record_key "st_records t" ?key] assms by (simp add: st_owner_def partition_point_def Let_def)
qed

text \<open>
  C37. The owner of a flow in a finished table, however its sort ordered the records of one port: a
  connected socket with exactly the two ends of the flow, where there is one; otherwise, for UDP alone,
  the one process that holds every unconnected socket of the local port and address; nobody else, and
  nobody when two processes share the port.
\<close>

theorem socket_owner_exact:
  assumes "mset xs = mset (st_records t)" "sorted (map record_key xs)"
  shows "if \<exists>r \<in> set (st_records t). may_own flow r \<and> sr_remote r = Some (fk_remote flow)
    then \<exists>r \<in> set (st_records t). may_own flow r \<and> sr_remote r = Some (fk_remote flow) \<and>
           st_owner flow (t\<lparr>st_records := xs\<rparr>) = Some (sr_pid r)
    else \<forall>pid. st_owner flow (t\<lparr>st_records := xs\<rparr>) = Some pid \<longleftrightarrow>
           fk_transport flow = FlowUdp \<and> sr_pid ` {r \<in> set (st_records t). may_own flow r \<and> sr_remote r = None} = {pid}"
proof -
  have set: "set xs = set (st_records t)" using assms(1) by (metis set_mset_mset)
  have own: "st_owner flow (t\<lparr>st_records := xs\<rparr>) = owner_loop flow (filter (may_own flow) xs) None False"
    using st_owner_filter [of "t\<lparr>st_records := xs\<rparr>"] assms(2) by simp
  show ?thesis
  proof (cases "\<exists>r \<in> set (st_records t). may_own flow r \<and> sr_remote r = Some (fk_remote flow)")
    case True
    then obtain r where "r \<in> set (filter (may_own flow) xs)" "sr_remote r = Some (fk_remote flow)" using set by auto
    from owner_loop_connected [OF this, of None False] show ?thesis using True set own by auto
  next
    case False
    then have "\<forall>r \<in> set (filter (may_own flow) xs). sr_remote r \<noteq> Some (fk_remote flow)" using set by auto
    from owner_loop_unconnected [OF this] False show ?thesis using set own by (auto simp: conj_commute conj_left_commute)
  qed
qed

definition sample_socket :: "16 word \<Rightarrow> 32 word \<Rightarrow> SocketRecord" where
  "sample_socket port pid =
     \<lparr>sr_transport = FlowUdp, sr_local = SocketV4 0 port, sr_remote = None, sr_pid = pid\<rparr>"

theorem socket_owner_exact_witness:
  "st_owner \<lparr>fk_transport = FlowUdp, fk_local = SocketV4 0x0a400002 53, fk_remote = SocketV4 1 2\<rparr>
     (st_finish (st_push (sample_socket 53 7) (st_push (sample_socket 80 8) st_empty))) = Some 7"
proof -
  let ?t = "st_push (sample_socket 53 7) (st_push (sample_socket 80 8) st_empty)"
    and ?flow = "\<lparr>fk_transport = FlowUdp, fk_local = SocketV4 0x0a400002 53, fk_remote = SocketV4 1 2\<rparr>"
  let ?xs = "sort_key record_key (st_records ?t)"
  have ord: "mset ?xs = mset (st_records ?t)" "sorted (map record_key ?xs)" by simp_all
  have none: "\<not> (\<exists>r \<in> set (st_records ?t). may_own ?flow r \<and> sr_remote r = Some (fk_remote ?flow))"
    and one: "{r \<in> set (st_records ?t). may_own ?flow r \<and> sr_remote r = None} = {sample_socket 53 7}"
    by (auto simp: st_push_def st_empty_def sample_socket_def unmapped_def to_canonical_def socket_new_def
        may_own_def local_matches_def is_unspecified_def)
  have "st_owner ?flow (?t\<lparr>st_records := ?xs\<rparr>) = Some 7 \<longleftrightarrow> fk_transport ?flow = FlowUdp \<and> sr_pid ` {sample_socket 53 7} = {7}"
    using socket_owner_exact [OF ord, of ?flow] unfolding if_not_P [OF none] one by blast
  then show ?thesis by (simp add: st_finish_def) (simp add: sample_socket_def)
qed

section \<open>The parsers\<close>

lemma pcb_ends_total: "length r = XINPCB_N_LEN \<Longrightarrow> pcb_ends r \<noteq> None"
  by (auto simp: pcb_ends_def pcb_addr_def pcb_defs byte_simps index_def slice_def u16_at_def Let_def split: option.splits)

lemma pcb_loop_total: "pcb_loop buf transport offset pending table \<noteq> None"
proof (induction buf transport offset pending table rule: pcb_loop.induct)
  case (1 buf transport offset pending table)
  show ?case
  proof (cases "read_u32 buf offset = None \<or> read_u32 buf (offset + 4) = None")
    case True
    then show ?thesis by (subst pcb_loop.simps) (auto split: option.splits)
  next
    case False
    then obtain len kind where lk: "read_u32 buf offset = Some len" "read_u32 buf (offset + 4) = Some kind" by auto
    show ?thesis
    proof (cases "unat len = 0 \<or> (unat len = XINPGEN_LEN \<and> length buf \<le> offset + unat len) \<or> slice buf offset (offset + unat len) = None")
      case True
      then show ?thesis using lk by (subst pcb_loop.simps) (auto simp: Let_def split: option.splits)
    next
      case False
      then obtain r where r: "slice buf offset (offset + unat len) = Some r" by auto
      then have "length r = unat len" by (auto dest: slice_SomeD)
      then have "unat len = XINPCB_N_LEN \<Longrightarrow> pcb_ends r \<noteq> None" using pcb_ends_total by simp
      then show ?thesis using 1 lk False r by (subst pcb_loop.simps) (auto simp: Let_def split: option.splits)
    qed
  qed
qed

lemma pcb_parse_total: "pcb_parse buf transport table \<noteq> None"
  using pcb_loop_total by (simp add: pcb_parse_def)

lemma win_record_total: "row_len kind \<le> length row \<Longrightarrow> win_record row kind \<noteq> None"
  by (cases kind)
    (auto simp: win_record_def win_ends_def row_len_def row_v4_def row_v6_def row_dword_def u16_at_def index_def slice_def)

lemma win_rows_total: "n * row_len kind \<le> length rows \<Longrightarrow> win_rows n kind rows table \<noteq> None"
proof (induction n arbitrary: rows table)
  case (Suc n)
  then obtain r where "win_record (take (row_len kind) rows) kind = Some r"
    using win_record_total [of kind "take (row_len kind) rows"] by auto
  then show ?case using Suc by simp
qed simp

lemma win_parse_total: "win_parse buf kind table \<noteq> None"
proof (cases "slice buf 0 4")
  case (Some word)
  then have "length word = 4" by (auto dest: slice_SomeD)
  then obtain count where c: "row_dword word 0 = Some count" by (auto simp: row_dword_def index_def)
  have rows: "win_rows (length rows div row_len kind) kind rows table \<noteq> None" for rows
    by (rule win_rows_total) simp
  show ?thesis
  proof (cases "slice buf 4 (4 + unat count * row_len kind)")
    case (Some rs)
    then show ?thesis using rows [of rs] c \<open>slice buf 0 4 = Some word\<close> by (auto simp: win_parse_def)
  qed (use Some c in \<open>simp add: win_parse_def\<close>)
qed (simp add: win_parse_def)

lemma read_all_total:
  assumes "\<And>buf x table. parse buf x table \<noteq> None"
  shows "read_all sys parse xs table \<noteq> None"
proof (induction xs arbitrary: table)
  case (Cons x xs)
  show ?case
  proof (cases "sys x")
    case (Some buf)
    obtain res table' where "parse buf x table = Some (res, table')" using assms [of buf x table] by auto
    then show ?thesis using Cons Some by (cases res) auto
  qed simp
qed simp

lemma refresh_with_spec:
  assumes "\<And>buf x table. parse buf x table \<noteq> None"
  shows "\<exists>res table'. refresh_with sys parse xs table = Some (res, table') \<and> (is_ok res \<or> st_records table' = []) \<and>
    sorted (map record_key (st_records table'))"
proof -
  obtain res t where r: "read_all sys parse xs (st_clear table) = Some (res, t)"
    using read_all_total [where parse = parse and sys = sys and xs = xs and table = "st_clear table"] assms by auto
  then show ?thesis by (simp add: refresh_with_def st_finish_def st_clear_def)
qed

text \<open>
  C38. Taking a snapshot ends, without a panic, whatever bytes the kernel of macOS or Windows exports:
  the walk over the records of a macOS export always moves on, every row of a Windows table is read in
  range. The table is sorted for the search, and where reading or parsing failed it is empty rather
  than stale.
\<close>

theorem snapshots_terminate:
  "(\<exists>res table'. mac_refresh sysctl table = Some (res, table') \<and> (is_ok res \<or> st_records table' = []) \<and>
      sorted (map record_key (st_records table'))) \<and>
   (\<exists>res table'. win_refresh get_table table = Some (res, table') \<and> (is_ok res \<or> st_records table' = []) \<and>
      sorted (map record_key (st_records table')))"
  unfolding mac_refresh_def win_refresh_def
  using refresh_with_spec [of pcb_parse] refresh_with_spec [of win_parse] pcb_parse_total win_parse_total by blast

end
