(* ===== verification/Router.thy ===== *)
theory Router
  imports Packet_Reset App_Matcher Socket_Table
begin

text \<open>
  The per-packet decision (\<open>talpid-app-routing/src/router.rs\<close>): the policy, the flows and fragments the
  router tracks, and every operation on it. The resolver of socket owners (the trait \<open>OwnerResolver\<close> of
  \<open>owner/mod.rs\<close>) is a record of operations on a state of any type; the clock readings the code takes
  are arguments; a panic is \<^const>\<open>None\<close>. The order in which a hash set or map is walked is that of
  the flow table's entries.
\<close>

section \<open>Policies\<close>

definition DEFAULT_FLOW_CAPACITY :: nat where "DEFAULT_FLOW_CAPACITY = 32768"
definition PROCESS_CAPACITY :: nat where "PROCESS_CAPACITY = 4096"
definition FRAGMENT_CAPACITY :: nat where "FRAGMENT_CAPACITY = 256"
definition FRAGMENT_TIMEOUT :: duration where "FRAGMENT_TIMEOUT = from_secs 10"
definition SWEEP_INTERVAL :: duration where "SWEEP_INTERVAL = from_secs 5"
definition MAX_QUEUED_RESETS :: nat where "MAX_QUEUED_RESETS = 4096"

datatype RouteId = RouteId (route_num: "8 word")
datatype SessionId = SessionId "64 word"

record SessionAddresses =
  ad_v4 :: "32 word option"
  ad_v6 :: "128 word option"

definition for_family_of :: "SessionAddresses \<Rightarrow> IpAddr \<Rightarrow> IpAddr option" where
  "for_family_of a ip =
     (case ip of V4 _ \<Rightarrow> map_option V4 (ad_v4 a) | V6 _ \<Rightarrow> map_option V6 (ad_v6 a))"

datatype RouteState = RouteConnecting | RouteConnected SessionAddresses | RouteUnavailable

datatype PolicyError = UnknownRoute | SessionCount

record Policy =
  po_main :: SessionAddresses
  po_apps :: "RouteId AppMatcher"
  po_routes :: "RouteState list"
  po_sessions :: "SessionId list"

text \<open>\<open>slice.get(i)\<close> of a vector.\<close>

definition vec_get :: "'a list \<Rightarrow> nat \<Rightarrow> 'a option" where
  "vec_get xs i = (if i < length xs then Some (xs ! i) else None)"

fun position :: "('a \<Rightarrow> bool) \<Rightarrow> 'a list \<Rightarrow> nat option" where
  "position P [] = None"
| "position P (x # xs) = (if P x then Some 0 else map_option Suc (position P xs))"

definition policy_new ::
  "Platform \<Rightarrow> SessionAddresses \<Rightarrow> (bytes \<times> RouteId) list \<Rightarrow> RouteState list \<Rightarrow> (PolicyError, Policy) outcome" where
  "policy_new pf main apps routes =
     (if list_ex (\<lambda>(_, route). length routes \<le> unat (route_num route)) apps then Some (Inl UnknownRoute)
      else do {
        matcher \<leftarrow> am_new pf (pf_host pf) apps;
        Some (Inr \<lparr>po_main = main, po_apps = matcher, po_routes = routes,
                   po_sessions = map (\<lambda>n. SessionId (word_of_nat n)) [0..<length routes]\<rparr>) })"

definition with_sessions :: "SessionId list \<Rightarrow> Policy \<Rightarrow> (PolicyError, Policy) result" where
  "with_sessions sessions p =
     (if length sessions \<noteq> length (po_routes p) then Inl SessionCount else Inr (p\<lparr>po_sessions := sessions\<rparr>))"

definition policy_inactive :: "Platform \<Rightarrow> Policy" where
  "policy_inactive pf =
     \<lparr>po_main = \<lparr>ad_v4 = None, ad_v6 = None\<rparr>, po_apps = \<lparr>am_flavor = pf_host pf, am_apps = []\<rparr>,
      po_routes = [], po_sessions = []\<rparr>"

definition policy_is_active :: "Policy \<Rightarrow> bool" where
  "policy_is_active p \<longleftrightarrow> \<not> am_is_empty (po_apps p)"

definition policy_session :: "Policy \<Rightarrow> RouteId \<Rightarrow> SessionId option" where
  "policy_session p route = vec_get (po_sessions p) (unat (route_num route))"

definition policy_route_of :: "Policy \<Rightarrow> SessionId \<Rightarrow> RouteId option" where
  "policy_route_of p session = do {
     i \<leftarrow> position (\<lambda>held. held = session) (po_sessions p);
     if i < 256 then Some (RouteId (word_of_nat i)) else None }"

section \<open>The resolver\<close>

datatype SocketOwner = OwnerProcess "32 word" | OwnerUnwatched | OwnerUnknown

record 'r OwnerResolver =
  os_socket_owner :: "FlowKey \<Rightarrow> 'r \<Rightarrow> 32 word option \<times> 'r"
  os_owner :: "FlowKey \<Rightarrow> 'r \<Rightarrow> SocketOwner \<times> 'r"
  os_watch_programs :: "RouteId AppMatcher \<Rightarrow> 'r \<Rightarrow> 'r"
  os_refresh :: "'r \<Rightarrow> (OwnerError, unit) result \<times> 'r"
  os_process_key :: "32 word \<Rightarrow> 'r \<Rightarrow> ProcessKey option \<times> 'r"
  os_executable :: "32 word \<Rightarrow> 'r \<Rightarrow> bytes option \<times> 'r"

section \<open>What the router attr_frame\<close>

datatype PacketVerdict = VMain | VRoute RouteId | VDrop | VHold FlowKey

record OwnerQuery =
  oq_flow :: FlowKey
  oq_under_way :: bool

datatype Delivery = Deliver | NoDelivery

record Counters =
  ct_new_flows :: "64 word"
  ct_unresolved_flows :: "64 word"
  ct_refreshes :: "64 word"
  ct_refresh_errors :: "64 word"
  ct_routed_packets :: "64 word"
  ct_dropped_packets :: "64 word"
  ct_reset_flows :: "64 word"
  ct_refused_flows :: "64 word"

definition counters_default :: Counters where
  "counters_default =
     \<lparr>ct_new_flows = 0, ct_unresolved_flows = 0, ct_refreshes = 0, ct_refresh_errors = 0,
      ct_routed_packets = 0, ct_dropped_packets = 0, ct_reset_flows = 0, ct_refused_flows = 0\<rparr>"

datatype Binding = BMain | BRoute RouteId | BBlocked | BReset | BPending

record Tracked =
  tk_binding :: Binding
  tk_process :: "ProcessKey option"
  tk_app_side :: AppSide

datatype Target = TMain | TSession "SessionId option"

subsection \<open>Fragments\<close>

record FragmentMap =
  fm_entries :: "(FragmentKey, Binding \<times> instant) hash_map"

definition fm_new :: FragmentMap where
  "fm_new = \<lparr>fm_entries = []\<rparr>"

definition fm_live :: "instant \<Rightarrow> instant \<Rightarrow> bool" where
  "fm_live now seen \<longleftrightarrow> duration_since now seen \<le> FRAGMENT_TIMEOUT"

definition fm_expire :: "instant \<Rightarrow> FragmentMap \<Rightarrow> FragmentMap" where
  "fm_expire now m = m\<lparr>fm_entries := filter (\<lambda>(_, _, seen). fm_live now seen) (fm_entries m)\<rparr>"

text \<open>\<open>min_by_key\<close> on the times: the first of the oldest.\<close>

fun fm_oldest :: "(FragmentKey, Binding \<times> instant) hash_map \<Rightarrow> (FragmentKey \<times> instant) option" where
  "fm_oldest [] = None"
| "fm_oldest ((key, _, seen) # rest) =
     (case fm_oldest rest of
        Some (key', seen') \<Rightarrow> if seen \<le> seen' then Some (key, seen) else Some (key', seen')
      | None \<Rightarrow> Some (key, seen))"

definition fm_remember :: "FragmentKey \<Rightarrow> Binding \<Rightarrow> instant \<Rightarrow> FragmentMap \<Rightarrow> FragmentMap" where
  "fm_remember fragment binding now m =
     (let m =
        (if FRAGMENT_CAPACITY \<le> length (fm_entries m) \<and> hm_get (fm_entries m) fragment = None then
           let m = fm_expire now m
           in if FRAGMENT_CAPACITY \<le> length (fm_entries m) then
                (case fm_oldest (fm_entries m) of
                   Some (oldest, _) \<Rightarrow> m\<lparr>fm_entries := hm_remove oldest (fm_entries m)\<rparr>
                 | None \<Rightarrow> m)
              else m
         else m)
      in m\<lparr>fm_entries := hm_insert fragment (binding, now) (fm_entries m)\<rparr>)"

definition fm_get :: "FragmentKey \<Rightarrow> instant \<Rightarrow> FragmentMap \<Rightarrow> Binding option" where
  "fm_get fragment now m =
     (case hm_get (fm_entries m) fragment of
        Some (binding, seen) \<Rightarrow> if fm_live now seen then Some binding else None
      | None \<Rightarrow> None)"

definition fm_clear :: "FragmentMap \<Rightarrow> FragmentMap" where
  "fm_clear m = m\<lparr>fm_entries := []\<rparr>"

subsection \<open>The router\<close>

record 'r Router =
  ro_resolver :: 'r
  ro_policy :: Policy
  ro_flows :: "Tracked FlowTable option"
  ro_flow_capacity :: nat
  ro_uplink_fragments :: FragmentMap
  ro_downlink_fragments :: FragmentMap
  ro_decisions :: "RouteId DecisionCache"
  ro_snapshot_taken :: "instant option"
  ro_last_sweep :: "instant option"
  ro_counters :: Counters
  ro_resets :: "bytes list"
  ro_deferred :: bool
  ro_queries :: "OwnerQuery list"

definition with_capacity :: "Platform \<Rightarrow> 'r \<Rightarrow> nat \<Rightarrow> 'r Router" where
  "with_capacity pf resolver flow_capacity =
     \<lparr>ro_resolver = resolver, ro_policy = policy_inactive pf, ro_flows = None, ro_flow_capacity = flow_capacity,
      ro_uplink_fragments = fm_new, ro_downlink_fragments = fm_new, ro_decisions = dc_new PROCESS_CAPACITY,
      ro_snapshot_taken = None, ro_last_sweep = None, ro_counters = counters_default, ro_resets = [],
      ro_deferred = False, ro_queries = []\<rparr>"

definition router_new :: "Platform \<Rightarrow> 'r \<Rightarrow> 'r Router" where
  "router_new pf resolver = with_capacity pf resolver DEFAULT_FLOW_CAPACITY"

definition defer_owner_lookups :: "'r Router \<Rightarrow> 'r Router" where
  "defer_owner_lookups \<rho> = \<rho>\<lparr>ro_deferred := True\<rparr>"

definition take_owner_queries :: "'r Router \<Rightarrow> OwnerQuery list \<times> 'r Router" where
  "take_owner_queries \<rho> = (ro_queries \<rho>, \<rho>\<lparr>ro_queries := []\<rparr>)"

definition take_resets :: "'r Router \<Rightarrow> bytes list \<times> 'r Router" where
  "take_resets \<rho> = (ro_resets \<rho>, \<rho>\<lparr>ro_resets := []\<rparr>)"

definition has_resets :: "'r Router \<Rightarrow> bool" where
  "has_resets \<rho> \<longleftrightarrow> ro_resets \<rho> \<noteq> []"

definition router_is_active :: "'r Router \<Rightarrow> bool" where
  "router_is_active \<rho> \<longleftrightarrow>
     policy_is_active (ro_policy \<rho>) \<or> (case ro_flows \<rho> of Some flows \<Rightarrow> \<not> ft_is_empty flows | None \<Rightarrow> False)"

definition set_route_state :: "RouteId \<Rightarrow> RouteState \<Rightarrow> 'r Router \<Rightarrow> 'r Router" where
  "set_route_state route state \<rho> =
     (let p = ro_policy \<rho>; i = unat (route_num route)
      in if i < length (po_routes p) then \<rho>\<lparr>ro_policy := p\<lparr>po_routes := (po_routes p)[i := state]\<rparr>\<rparr> else \<rho>)"

definition is_opening :: "FlowKey \<Rightarrow> byte \<Rightarrow> bool" where
  "is_opening key tcp_flags \<longleftrightarrow>
     fk_transport key = FlowTcp \<and> tcp_flags AND FLAG_SYN \<noteq> 0 \<and> tcp_flags AND FLAG_ACK = 0"

abbreviation count :: "(Counters \<Rightarrow> Counters) \<Rightarrow> 'r Router \<Rightarrow> 'r Router" where
  "count f \<rho> \<equiv> \<rho>\<lparr>ro_counters := f (ro_counters \<rho>)\<rparr>"

definition dropped :: "'r Router \<Rightarrow> PacketVerdict \<times> 'r Router" where
  "dropped \<rho> = (VDrop, count (ct_dropped_packets_update (\<lambda>n. n + 1)) \<rho>)"

definition not_delivered :: "'r Router \<Rightarrow> Delivery \<times> 'r Router" where
  "not_delivered \<rho> = (NoDelivery, count (ct_dropped_packets_update (\<lambda>n. n + 1)) \<rho>)"

definition router_peek :: "FlowKey \<Rightarrow> instant \<Rightarrow> 'r Router \<Rightarrow> Binding option" where
  "router_peek key now \<rho> = do { flows \<leftarrow> ro_flows \<rho>; tracked \<leftarrow> ft_peek key now flows; Some (tk_binding tracked) }"

definition router_lookup ::
  "FlowKey \<Rightarrow> FlowDirection \<Rightarrow> byte \<Rightarrow> instant \<Rightarrow> 'r Router \<Rightarrow> Binding option \<times> 'r Router" where
  "router_lookup key direction tcp_flags now \<rho> =
     (case ro_flows \<rho> of
        None \<Rightarrow> (None, \<rho>)
      | Some flows \<Rightarrow>
          (case ft_lookup key direction tcp_flags now flows of
             (tracked, flows) \<Rightarrow> (map_option tk_binding tracked, \<rho>\<lparr>ro_flows := Some flows\<rparr>)))"

definition sweep :: "instant \<Rightarrow> 'r Router \<Rightarrow> 'r Router" where
  "sweep now \<rho> =
     (if (case ro_last_sweep \<rho> of Some swept \<Rightarrow> duration_since now swept < SWEEP_INTERVAL | None \<Rightarrow> False) then \<rho>
      else \<rho>\<lparr>ro_last_sweep := Some now, ro_flows := map_option (ft_expire now) (ro_flows \<rho>),
             ro_uplink_fragments := fm_expire now (ro_uplink_fragments \<rho>),
             ro_downlink_fragments := fm_expire now (ro_downlink_fragments \<rho>)\<rparr>)"

section \<open>Attribution\<close>

text \<open>What a process takes once its decision is known (the end of \<open>decide\<close>).\<close>

definition bind_route ::
  "bool \<Rightarrow> RouteId option \<Rightarrow> ProcessKey \<Rightarrow> 'r Router \<Rightarrow> (Binding \<times> ProcessKey option) \<times> 'r Router" where
  "bind_route under_way route process \<rho> =
     (case route of
        None \<Rightarrow> ((BMain, Some process), \<rho>)
      | Some route \<Rightarrow>
          if under_way then ((BReset, Some process), count (ct_reset_flows_update (\<lambda>n. n + 1)) \<rho>)
          else ((BRoute route, Some process), \<rho>))"

definition router_decide ::
  "Platform \<Rightarrow> 'r OwnerResolver \<Rightarrow> bool \<Rightarrow> SocketOwner \<Rightarrow> 'r Router \<Rightarrow> ((Binding \<times> ProcessKey option) \<times> 'r Router) option" where
  "router_decide pf os under_way owner \<rho> =
     (if owner = OwnerUnwatched then Some ((BMain, None), \<rho>)
      else
        let (found, \<rho>) =
          (case owner of
             OwnerProcess pid \<Rightarrow>
               (case os_process_key os pid (ro_resolver \<rho>) of
                  (process, r) \<Rightarrow> (map_option (\<lambda>process. (pid, process)) process, \<rho>\<lparr>ro_resolver := r\<rparr>))
           | _ \<Rightarrow> (None, \<rho>))
        in case found of
             None \<Rightarrow>
               Some ((if under_way then BBlocked else BMain, None), count (ct_unresolved_flows_update (\<lambda>n. n + 1)) \<rho>)
           | Some (pid, process) \<Rightarrow>
               (case dc_get (ro_decisions \<rho>) process of
                  Some route \<Rightarrow> Some (bind_route under_way route process \<rho>)
                | None \<Rightarrow>
                    (case os_executable os pid (ro_resolver \<rho>) of
                       (Some path, r) \<Rightarrow> do {
                         route \<leftarrow> am_lookup pf (po_apps (ro_policy \<rho>)) path;
                         Some (bind_route under_way route process
                           (\<rho>\<lparr>ro_resolver := r, ro_decisions := dc_insert process route (ro_decisions \<rho>)\<rparr>)) }
                     | (None, r) \<Rightarrow>
                         if under_way then Some ((BBlocked, None), \<rho>\<lparr>ro_resolver := r\<rparr>)
                         else Some (bind_route under_way None process (\<rho>\<lparr>ro_resolver := r\<rparr>)))))"

definition ensure_fresh_view :: "'r OwnerResolver \<Rightarrow> instant \<Rightarrow> instant \<Rightarrow> 'r Router \<Rightarrow> 'r Router" where
  "ensure_fresh_view os started arrived \<rho> =
     (if (case ro_snapshot_taken \<rho> of Some taken \<Rightarrow> arrived \<le> taken | None \<Rightarrow> False) then \<rho>
      else
        let \<rho> = count (ct_refreshes_update (\<lambda>n. n + 1)) \<rho>
        in case os_refresh os (ro_resolver \<rho>) of
             (res, r) \<Rightarrow>
               let \<rho> = \<rho>\<lparr>ro_resolver := r\<rparr>;
                   \<rho> = (if is_ok res then \<rho> else count (ct_refresh_errors_update (\<lambda>n. n + 1)) \<rho>)
               in \<rho>\<lparr>ro_snapshot_taken := Some started\<rparr>)"

definition attribute ::
  "Platform \<Rightarrow> 'r OwnerResolver \<Rightarrow> instant \<Rightarrow> FlowKey \<Rightarrow> bool \<Rightarrow> instant \<Rightarrow> 'r Router \<Rightarrow>
     ((Binding \<times> ProcessKey option) \<times> 'r Router) option" where
  "attribute pf os started key opening arrived \<rho> =
     (let \<rho> = count (ct_new_flows_update (\<lambda>n. n + 1)) \<rho>
      in if fk_transport key = FlowIcmpEcho then Some ((BMain, None), \<rho>)
         else
           let under_way = (fk_transport key = FlowTcp \<and> \<not> opening)
           in if ro_deferred \<rho> then
                Some ((BPending, None),
                  \<rho>\<lparr>ro_queries := ro_queries \<rho> @ [\<lparr>oq_flow = key, oq_under_way = under_way\<rparr>]\<rparr>)
              else
                let \<rho> = ensure_fresh_view os started arrived \<rho>;
                    (owner, r) =
                      (if under_way then
                         (case os_socket_owner os key (ro_resolver \<rho>) of
                            (Some pid, r) \<Rightarrow> (OwnerProcess pid, r)
                          | (None, r) \<Rightarrow> (OwnerUnknown, r))
                       else os_owner os key (ro_resolver \<rho>))
                in router_decide pf os under_way owner (\<rho>\<lparr>ro_resolver := r\<rparr>))"

definition complete ::
  "Platform \<Rightarrow> 'r OwnerResolver \<Rightarrow> OwnerQuery \<Rightarrow> SocketOwner \<Rightarrow> instant \<Rightarrow> 'r Router \<Rightarrow> 'r Router option" where
  "complete pf os query owner now \<rho> =
     (if router_peek (oq_flow query) now \<rho> \<noteq> Some BPending then Some \<rho>
      else do {
        ((binding, process), \<rho>) \<leftarrow> router_decide pf os (oq_under_way query) owner \<rho>;
        case ro_flows \<rho> of
          None \<Rightarrow> Some \<rho>
        | Some flows \<Rightarrow>
            (case ft_get flows (oq_flow query) of
               None \<Rightarrow> Some \<rho>
             | Some tracked \<Rightarrow>
                 Some (\<rho>\<lparr>ro_flows := Some (ft_set (oq_flow query) (tracked\<lparr>tk_binding := binding, tk_process := process\<rparr>) flows)\<rparr>))
      })"

definition flow_binding ::
  "Platform \<Rightarrow> 'r OwnerResolver \<Rightarrow> instant \<Rightarrow> FlowKey \<Rightarrow> byte \<Rightarrow> Segment option \<Rightarrow> instant \<Rightarrow> 'r Router \<Rightarrow>
     (Binding \<times> 'r Router) option" where
  "flow_binding pf os started key tcp_flags seg arrived \<rho> =
     (let opening = is_opening key tcp_flags;
          (found, \<rho>) =
            (case ro_flows \<rho> of
               None \<Rightarrow> (None, \<rho>)
             | Some flows \<Rightarrow>
                 (case ft_lookup_mut key Uplink tcp_flags arrived flows of
                    (tracked, flows) \<Rightarrow> (tracked, \<rho>\<lparr>ro_flows := Some flows\<rparr>)));
          kept =
            (case found of
               None \<Rightarrow> None
             | Some tracked \<Rightarrow>
                 if \<not> opening \<or> tk_binding tracked \<noteq> BReset \<and>
                      (case seg of Some s \<Rightarrow> as_opened_by (tk_app_side tracked) s | None \<Rightarrow> False)
                 then Some tracked else None)
      in case kept of
           Some tracked \<Rightarrow>
             let side = (case seg of Some s \<Rightarrow> as_follow s (tk_app_side tracked) | None \<Rightarrow> tk_app_side tracked)
             in Some (tk_binding tracked,
                  \<rho>\<lparr>ro_flows := map_option (ft_set key (tracked\<lparr>tk_app_side := side\<rparr>)) (ro_flows \<rho>)\<rparr>)
         | None \<Rightarrow>
             if \<not> policy_is_active (ro_policy \<rho>) then
               Some (BMain, if opening then \<rho>\<lparr>ro_flows := map_option (ft_remove key) (ro_flows \<rho>)\<rparr> else \<rho>)
             else do {
               ((binding, process), \<rho>) \<leftarrow> attribute pf os started key opening arrived \<rho>;
               let side = (case seg of Some s \<Rightarrow> as_follow s app_side_default | None \<Rightarrow> app_side_default);
               let tracked = \<lparr>tk_binding = binding, tk_process = process, tk_app_side = side\<rparr>;
               Some (binding, \<rho>\<lparr>ro_flows := map_option (ft_insert key tracked Uplink tcp_flags arrived) (ro_flows \<rho>)\<rparr>)
             })"

section \<open>Packets\<close>

definition apply_uplink :: "Binding \<Rightarrow> bytes \<Rightarrow> 'r Router \<Rightarrow> (PacketVerdict \<times> bytes \<times> 'r Router) option" where
  "apply_uplink binding packet \<rho> =
     (let drop_it = (case dropped \<rho> of (v, \<rho>) \<Rightarrow> Some (v, packet, \<rho>)) in
      case binding of
        BMain \<Rightarrow> Some (VMain, packet, \<rho>)
      | BRoute route \<Rightarrow>
          (case vec_get (po_routes (ro_policy \<rho>)) (unat (route_num route)) of
             Some (RouteConnected addresses) \<Rightarrow>
               (case locate packet of
                  None \<Rightarrow> None
                | Some (Inl _) \<Rightarrow> drop_it
                | Some (Inr layout) \<Rightarrow> do {
                    src \<leftarrow> packet_src layout packet;
                    let from_main = (for_family_of (po_main (ro_policy \<rho>)) src = Some src);
                    if \<not> from_main then drop_it
                    else case for_family_of addresses src of
                      None \<Rightarrow> drop_it
                    | Some new \<Rightarrow>
                        (case rewrite_source packet new of
                           None \<Rightarrow> None
                         | Some (Inl _) \<Rightarrow> drop_it
                         | Some (Inr packet') \<Rightarrow>
                             Some (VRoute route, packet', count (ct_routed_packets_update (\<lambda>n. n + 1)) \<rho>)) })
           | _ \<Rightarrow> drop_it)
      | _ \<Rightarrow> drop_it)"

definition uplink ::
  "Platform \<Rightarrow> 'r OwnerResolver \<Rightarrow> instant \<Rightarrow> bytes \<Rightarrow> instant \<Rightarrow> 'r Router \<Rightarrow> (PacketVerdict \<times> bytes \<times> 'r Router) option" where
  "uplink pf os started packet arrived \<rho> =
     (if \<not> router_is_active \<rho> then Some (VMain, packet, \<rho>)
      else
        let \<rho> = sweep arrived \<rho>
        in case classify packet Uplink of
             None \<Rightarrow> None
           | Some (Inl _) \<Rightarrow> Some (VMain, packet, \<rho>)
           | Some (Inr (CFlow key tcp_flags fragment)) \<Rightarrow> do {
               seg \<leftarrow> (if fk_transport key = FlowTcp then segment packet else Some None);
               (binding, \<rho>) \<leftarrow> flow_binding pf os started key tcp_flags seg arrived \<rho>;
               let \<rho> = (case fragment of
                          Some fragment \<Rightarrow> \<rho>\<lparr>ro_uplink_fragments := fm_remember fragment binding arrived (ro_uplink_fragments \<rho>)\<rparr>
                        | None \<Rightarrow> \<rho>);
               if binding = BPending then Some (VHold key, packet, \<rho>)
               else
                 let \<rho> = (if binding = BReset \<and> length (ro_resets \<rho>) < MAX_QUEUED_RESETS
                          then case Option.bind seg (reset_answer key) of
                                 Some answer \<Rightarrow> \<rho>\<lparr>ro_resets := ro_resets \<rho> @ [answer]\<rparr>
                               | None \<Rightarrow> \<rho>
                          else \<rho>)
                 in apply_uplink binding packet \<rho> }
           | Some (Inr (CLaterFragment fragment)) \<Rightarrow>
               apply_uplink (unwrap_or (fm_get fragment arrived (ro_uplink_fragments \<rho>)) BBlocked) packet \<rho>
           | Some (Inr (CIcmpError key)) \<Rightarrow>
               if router_peek key arrived \<rho> \<in> {None, Some BMain} then Some (VMain, packet, \<rho>)
               else (case dropped \<rho> of (v, \<rho>) \<Rightarrow> Some (v, packet, \<rho>))
           | Some (Inr COther) \<Rightarrow> apply_uplink BMain packet \<rho>)"

definition original_flow :: "FlowKey \<Rightarrow> SessionAddresses \<Rightarrow> 'r Router \<Rightarrow> (FlowKey \<times> IpAddr) option" where
  "original_flow key route \<rho> =
     (let local = sock_ip (fk_local key)
      in if for_family_of route local \<noteq> Some local then None
         else do {
           main \<leftarrow> for_family_of (po_main (ro_policy \<rho>)) local;
           Some (key\<lparr>fk_local := socket_new main (sock_port (fk_local key))\<rparr>, main) })"

text \<open>The main address to restore, once a packet of a route is known to belong to it.\<close>

definition downlink_main ::
  "RouteId \<Rightarrow> SessionAddresses \<Rightarrow> Classified \<Rightarrow> instant \<Rightarrow> 'r Router \<Rightarrow> (IpAddr \<times> 'r Router) option" where
  "downlink_main route addresses classified now \<rho> =
     (case classified of
        CFlow key tcp_flags fragment \<Rightarrow> do {
          (original, main) \<leftarrow> original_flow key addresses \<rho>;
          if router_peek original now \<rho> \<noteq> Some (BRoute route) then None
          else
            let \<rho> = snd (router_lookup original Downlink tcp_flags now \<rho>)
            in Some (main,
                 case fragment of
                   Some fragment \<Rightarrow>
                     \<rho>\<lparr>ro_downlink_fragments := fm_remember fragment (BRoute route) now (ro_downlink_fragments \<rho>)\<rparr>
                 | None \<Rightarrow> \<rho>) }
      | CIcmpError key \<Rightarrow> do {
          (original, main) \<leftarrow> original_flow key addresses \<rho>;
          if router_peek original now \<rho> \<noteq> Some (BRoute route) then None else Some (main, \<rho>) }
      | CLaterFragment fragment \<Rightarrow> do {
          main \<leftarrow> for_family_of (po_main (ro_policy \<rho>)) (fg_dst fragment);
          if fm_get fragment now (ro_downlink_fragments \<rho>) \<noteq> Some (BRoute route) then None else Some (main, \<rho>) }
      | COther \<Rightarrow> None)"

definition downlink :: "RouteId \<Rightarrow> bytes \<Rightarrow> instant \<Rightarrow> 'r Router \<Rightarrow> (Delivery \<times> bytes \<times> 'r Router) option" where
  "downlink route packet now \<rho> =
     (let refuse = (\<lambda>\<rho>. case not_delivered \<rho> of (d, \<rho>) \<Rightarrow> Some (d, packet, \<rho>)) in
      if \<not> policy_is_active (ro_policy \<rho>) then Some (NoDelivery, packet, \<rho>)
      else case vec_get (po_routes (ro_policy \<rho>)) (unat (route_num route)) of
        Some (RouteConnected addresses) \<Rightarrow>
          (case classify packet Downlink of
             None \<Rightarrow> None
           | Some (Inl _) \<Rightarrow> refuse \<rho>
           | Some (Inr classified) \<Rightarrow>
               (case downlink_main route addresses classified now \<rho> of
                  None \<Rightarrow> refuse \<rho>
                | Some (main, \<rho>) \<Rightarrow>
                    (case rewrite_destination packet main of
                       None \<Rightarrow> None
                     | Some (Inl _) \<Rightarrow> refuse \<rho>
                     | Some (Inr packet') \<Rightarrow>
                         Some (Deliver, packet', count (ct_routed_packets_update (\<lambda>n. n + 1)) \<rho>))))
      | _ \<Rightarrow> refuse \<rho>)"

section \<open>Replacing the policy\<close>

text \<open>The closure of \<open>decide_again\<close>, over the processes in turn.\<close>

fun decide_processes ::
  "Platform \<Rightarrow> 'r OwnerResolver \<Rightarrow> Policy \<Rightarrow> ProcessKey list \<Rightarrow> 'r \<Rightarrow>
     ((ProcessKey, RouteId option) hash_map \<times> 'r) option" where
  "decide_processes pf os policy [] r = Some ([], r)"
| "decide_processes pf os policy (process # rest) r =
     (case os_process_key os (pk_pid process) r of
        (key, r) \<Rightarrow>
          if key \<noteq> Some process then decide_processes pf os policy rest r
          else case os_executable os (pk_pid process) r of
            (None, r) \<Rightarrow> decide_processes pf os policy rest r
          | (Some program, r) \<Rightarrow> do {
              route \<leftarrow> am_lookup pf (po_apps policy) program;
              (ds, r) \<leftarrow> decide_processes pf os policy rest r;
              Some ((process, route) # ds, r) })"

definition decide_again ::
  "Platform \<Rightarrow> 'r OwnerResolver \<Rightarrow> Policy \<Rightarrow> 'r Router \<Rightarrow> ((ProcessKey, RouteId option) hash_map \<times> 'r Router) option" where
  "decide_again pf os policy \<rho> =
     (case ro_flows \<rho> of
        None \<Rightarrow> Some ([], \<rho>)
      | Some flows \<Rightarrow>
          let processes = remdups (List.map_filter tk_process (ft_values flows))
          in if \<not> policy_is_active policy then Some (map (\<lambda>process. (process, None)) processes, \<rho>)
             else do {
               (ds, r) \<leftarrow> decide_processes pf os policy processes (ro_resolver \<rho>);
               Some (ds, \<rho>\<lparr>ro_resolver := r\<rparr>) })"

definition target_under :: "Policy \<Rightarrow> Binding \<Rightarrow> Target" where
  "target_under policy binding =
     (case binding of BRoute route \<Rightarrow> TSession (policy_session policy route) | _ \<Rightarrow> TMain)"

definition queue_reset :: "bytes option \<Rightarrow> bytes list \<Rightarrow> bytes list" where
  "queue_reset packet resets =
     (if length resets < MAX_QUEUED_RESETS then resets @ (case packet of Some p \<Rightarrow> [p] | None \<Rightarrow> []) else resets)"

text \<open>The last two branches: the session of the flow's app is another one now.\<close>

definition revise_moved ::
  "FlowKey \<Rightarrow> Tracked \<Rightarrow> bytes list \<times> Counters \<Rightarrow> Revision \<times> Tracked \<times> bytes list \<times> Counters" where
  "revise_moved key tracked s =
     (let (resets, counters) = s
      in if fk_transport key = FlowTcp then
           (Close, tracked\<lparr>tk_binding := BReset\<rparr>,
            queue_reset (toward_app key (tk_app_side tracked)) resets, ct_reset_flows_update (\<lambda>n. n + 1) counters)
         else
           (Forget, tracked, queue_reset (unreachable_toward_app key) resets, ct_refused_flows_update (\<lambda>n. n + 1) counters))"

text \<open>The closure of \<open>revise_flows\<close> for a flow on main or on a route: what becomes of it.\<close>

definition revise_bound ::
  "Policy \<Rightarrow> (ProcessKey, RouteId option) hash_map \<Rightarrow> Target \<Rightarrow> FlowKey \<Rightarrow> Tracked \<Rightarrow> bytes list \<times> Counters \<Rightarrow>
     Revision \<times> Tracked \<times> bytes list \<times> Counters" where
  "revise_bound policy decisions was key tracked s =
     (let asked = Option.bind (tk_process tracked) (hm_get decisions)
      in if asked = None \<and> was = TMain then (Forget, tracked, s)
         else
           let now_at =
             (case asked of
                Some None \<Rightarrow> Some BMain
              | Some (Some route) \<Rightarrow> Some (BRoute route)
              | None \<Rightarrow>
                  (case was of
                     TSession (Some session) \<Rightarrow> map_option BRoute (policy_route_of policy session)
                   | _ \<Rightarrow> None))
           in case now_at of
                Some binding \<Rightarrow>
                  if target_under policy binding = was then
                    (if policy_is_active policy then Keep else Forget, tracked\<lparr>tk_binding := binding\<rparr>, s)
                  else revise_moved key tracked s
              | None \<Rightarrow> revise_moved key tracked s)"

definition revise_flow ::
  "Policy \<Rightarrow> Policy \<Rightarrow> (ProcessKey, RouteId option) hash_map \<Rightarrow> FlowKey \<Rightarrow> Tracked \<Rightarrow> bytes list \<times> Counters \<Rightarrow>
     Revision \<times> Tracked \<times> bytes list \<times> Counters" where
  "revise_flow old policy decisions key tracked s =
     (case tk_binding tracked of
        BMain \<Rightarrow> revise_bound policy decisions TMain key tracked s
      | BRoute route \<Rightarrow> revise_bound policy decisions (TSession (policy_session old route)) key tracked s
      | BPending \<Rightarrow> (if policy_is_active policy then Keep else Forget, tracked, s)
      | _ \<Rightarrow> (if policy_is_active policy then Keep else Close, tracked, s))"

definition revise_flows ::
  "Policy \<Rightarrow> (ProcessKey, RouteId option) hash_map \<Rightarrow> instant \<Rightarrow> 'r Router \<Rightarrow> 'r Router" where
  "revise_flows policy decisions now \<rho> =
     (case ro_flows \<rho> of
        None \<Rightarrow> \<rho>
      | Some flows \<Rightarrow>
          (case ft_revise (revise_flow (ro_policy \<rho>) policy decisions) now flows (ro_resets \<rho>, ro_counters \<rho>) of
             (flows, resets, counters) \<Rightarrow> \<rho>\<lparr>ro_flows := Some flows, ro_resets := resets, ro_counters := counters\<rparr>))"

definition set_policy :: "Platform \<Rightarrow> 'r OwnerResolver \<Rightarrow> Policy \<Rightarrow> instant \<Rightarrow> 'r Router \<Rightarrow> 'r Router option" where
  "set_policy pf os policy now \<rho> =
     (let \<rho> = (if policy_is_active policy \<and> ro_flows \<rho> = None
               then \<rho>\<lparr>ro_flows := Some (ft_new (ro_flow_capacity \<rho>))\<rparr> else \<rho>);
          \<rho> = \<rho>\<lparr>ro_uplink_fragments := fm_clear (ro_uplink_fragments \<rho>),
                 ro_downlink_fragments := fm_clear (ro_downlink_fragments \<rho>),
                 ro_decisions := dc_clear (ro_decisions \<rho>),
                 ro_resolver := os_watch_programs os (po_apps policy) (ro_resolver \<rho>),
                 ro_snapshot_taken := None\<rparr>
      in do {
        (decisions, \<rho>) \<leftarrow> decide_again pf os policy \<rho>;
        let \<rho> = \<rho>\<lparr>ro_decisions := fold (\<lambda>(process, route). dc_insert process route) decisions (ro_decisions \<rho>)\<rparr>;
        Some ((revise_flows policy decisions now \<rho>)\<lparr>ro_policy := policy\<rparr>) })"

end
