(* ===== verification/Router_Properties.thy ===== *)
theory Router_Properties
  imports Router
begin

text \<open>
  Runs of the router and what holds over them: the caches stay within their capacities, a program that
  has a route is never bound to the main session, a route's packets reach only that route's own flows,
  and a new policy moves no connection to another session.
\<close>

section \<open>Fragments\<close>

definition fm_ok :: "FragmentMap \<Rightarrow> bool" where
  "fm_ok m \<longleftrightarrow> hm_ok (fm_entries m) \<and> length (fm_entries m) \<le> FRAGMENT_CAPACITY"

definition fm_binding :: "FragmentMap \<Rightarrow> FragmentKey \<Rightarrow> Binding option" where
  "fm_binding m k = map_option fst (hm_get (fm_entries m) k)"

lemma fm_oldest_in: "es \<noteq> [] \<Longrightarrow> \<exists>k seen. fm_oldest es = Some (k, seen) \<and> k \<in> fst ` set es"
proof (induction es rule: fm_oldest.induct)
  case (2 key b seen rest)
  then show ?case by (cases "rest = []") (force split: option.splits)+
qed simp

lemma length_hm_remove:
  assumes "hm_ok m" "k \<in> fst ` set m"
  shows "length (hm_remove k m) < length m"
proof -
  obtain e where "e \<in> set m" "fst e = k" using assms(2) by auto
  then show ?thesis unfolding hm_remove_def by (intro length_filter_less [of e]) auto
qed

lemma fm_ok_expire: "fm_ok m \<Longrightarrow> fm_ok (fm_expire now m)"
  by (auto simp: fm_ok_def fm_expire_def hm_ok_filter intro: le_trans [OF length_filter_le])

text \<open>The map with room for one more datagram.\<close>

definition fm_room :: "FragmentKey \<Rightarrow> instant \<Rightarrow> FragmentMap \<Rightarrow> FragmentMap" where
  "fm_room fragment now m =
     (if FRAGMENT_CAPACITY \<le> length (fm_entries m) \<and> hm_get (fm_entries m) fragment = None then
        let m = fm_expire now m
        in if FRAGMENT_CAPACITY \<le> length (fm_entries m) then
             (case fm_oldest (fm_entries m) of
                Some (oldest, _) \<Rightarrow> m\<lparr>fm_entries := hm_remove oldest (fm_entries m)\<rparr>
              | None \<Rightarrow> m)
           else m
      else m)"

lemma fm_remember_room:
  "fm_entries (fm_remember k b now m) = hm_insert k (b, now) (fm_entries (fm_room k now m))"
  by (simp add: fm_remember_def fm_room_def Let_def)

lemma fm_room_spec:
  assumes "fm_ok m"
  shows "hm_ok (fm_entries (fm_room k now m))" "set (fm_entries (fm_room k now m)) \<subseteq> set (fm_entries m)"
    "hm_get (fm_entries m) k = None \<Longrightarrow> length (fm_entries (fm_room k now m)) < FRAGMENT_CAPACITY"
    "hm_get (fm_entries m) k \<noteq> None \<Longrightarrow> fm_room k now m = m"
proof -
  let ?x = "fm_expire now m"
  have x: "hm_ok (fm_entries ?x)" "set (fm_entries ?x) \<subseteq> set (fm_entries m)"
      "length (fm_entries ?x) \<le> FRAGMENT_CAPACITY"
    using fm_ok_expire [OF assms, of now] by (auto simp: fm_ok_def fm_expire_def)
  obtain o' seen where o: "FRAGMENT_CAPACITY \<le> length (fm_entries ?x) \<Longrightarrow>
      fm_oldest (fm_entries ?x) = Some (o', seen) \<and> o' \<in> fst ` set (fm_entries ?x)"
    using fm_oldest_in [of "fm_entries ?x"] by (fastforce simp: FRAGMENT_CAPACITY_def)
  show "hm_ok (fm_entries (fm_room k now m))" "set (fm_entries (fm_room k now m)) \<subseteq> set (fm_entries m)"
    using assms x o by (auto simp: fm_room_def fm_ok_def Let_def hm_remove_def hm_ok_filter)
  show "length (fm_entries (fm_room k now m)) < FRAGMENT_CAPACITY" if "hm_get (fm_entries m) k = None"
    using that assms x o length_hm_remove [OF x(1), of o'] by (auto simp: fm_room_def Let_def)
  show "fm_room k now m = m" if "hm_get (fm_entries m) k \<noteq> None"
    using that by (auto simp: fm_room_def)
qed

lemma fm_ok_remember: "fm_ok m \<Longrightarrow> fm_ok (fm_remember k b now m)"
  using fm_room_spec [of m k now] length_hm_insert [of "fm_entries (fm_room k now m)" k "(b, now)"]
  by (cases "hm_get (fm_entries m) k = None") (auto simp: fm_ok_def fm_remember_room split: if_splits)

interpretation fragments: bounded_store fm_binding fm_remember "\<lambda>m. length (fm_entries m)" "\<lambda>_. FRAGMENT_CAPACITY" fm_ok
proof
  fix m k k' b w now
  assume ok: "fm_ok m"
  show "fm_binding (fm_remember k b now m) k = Some b" by (simp add: fm_binding_def fm_remember_room)
  show "fm_binding m k' = Some w" if "k' \<noteq> k" "fm_binding (fm_remember k b now m) k' = Some w"
    using that fm_room_spec(1,2) [OF ok, of k now] hm_get_sub [of "fm_entries m" "fm_entries (fm_room k now m)" k'] ok
    by (auto simp: fm_binding_def fm_remember_room fm_ok_def)
  show "fm_ok (fm_remember k b now m)" by (rule fm_ok_remember [OF ok])
  show "length (fm_entries m) \<le> FRAGMENT_CAPACITY" using ok by (simp add: fm_ok_def)
qed simp

lemma fm_ok_simps [simp]: "fm_ok fm_new" "fm_ok (fm_clear m)"
  by (simp_all add: fm_ok_def fm_new_def fm_clear_def)

section \<open>Runs\<close>

text \<open>
  The calls of the packet path's task, and the host changing under the resolver between two of them.
\<close>

datatype 'r RouterCall =
    CallUplink instant bytes instant
  | CallDownlink RouteId bytes instant
  | CallComplete OwnerQuery SocketOwner instant
  | CallSetPolicy Policy instant
  | CallSetRouteState RouteId RouteState
  | CallTakeOwnerQueries
  | CallTakeResets
  | CallDeferOwnerLookups
  | HostChanges 'r

fun router_call :: "Platform \<Rightarrow> 'r OwnerResolver \<Rightarrow> 'r RouterCall \<Rightarrow> 'r Router \<Rightarrow> 'r Router option" where
  "router_call pf os (CallUplink started packet arrived) \<rho> = map_option (\<lambda>(_, _, \<rho>). \<rho>) (uplink pf os started packet arrived \<rho>)"
| "router_call pf os (CallDownlink route packet now) \<rho> = map_option (\<lambda>(_, _, \<rho>). \<rho>) (downlink route packet now \<rho>)"
| "router_call pf os (CallComplete query owner now) \<rho> = complete pf os query owner now \<rho>"
| "router_call pf os (CallSetPolicy policy now) \<rho> = set_policy pf os policy now \<rho>"
| "router_call pf os (CallSetRouteState route state) \<rho> = Some (set_route_state route state \<rho>)"
| "router_call pf os CallTakeOwnerQueries \<rho> = Some (snd (take_owner_queries \<rho>))"
| "router_call pf os CallTakeResets \<rho> = Some (snd (take_resets \<rho>))"
| "router_call pf os CallDeferOwnerLookups \<rho> = Some (defer_owner_lookups \<rho>)"
| "router_call pf os (HostChanges r) \<rho> = Some (\<rho>\<lparr>ro_resolver := r\<rparr>)"

fun router_run :: "Platform \<Rightarrow> 'r OwnerResolver \<Rightarrow> 'r RouterCall list \<Rightarrow> 'r Router \<Rightarrow> 'r Router option" where
  "router_run pf os [] \<rho> = Some \<rho>"
| "router_run pf os (c # cs) \<rho> = do { \<rho> \<leftarrow> router_call pf os c \<rho>; router_run pf os cs \<rho> }"

lemma router_run_invariant:
  assumes "\<And>c \<rho> \<rho>'. I \<rho> \<Longrightarrow> router_call pf os c \<rho> = Some \<rho>' \<Longrightarrow> I \<rho>'"
    and "router_run pf os cs \<rho> = Some \<rho>'" "I \<rho>"
  shows "I \<rho>'"
  using assms(2,3) by (induction cs arbitrary: \<rho>) (auto split: bind_splits dest: assms(1))

section \<open>Attribution\<close>

text \<open>
  The documented behaviour of the resolver: the key of a process names the program it runs, and reading
  the executable of a process whose key was just read gives that program. \<open>prog\<close> says which program
  the holder of a key runs, for the keys of which it is known.
\<close>

definition faithful :: "'r OwnerResolver \<Rightarrow> (ProcessKey \<Rightarrow> bytes option) \<Rightarrow> bool" where
  "faithful os prog \<longleftrightarrow>
     (\<forall>pid r p r' e. os_process_key os pid r = (Some p, r') \<longrightarrow> prog p = Some e \<longrightarrow> fst (os_executable os pid r') = Some e)"

lemma faithful_unknown: "faithful os (\<lambda>_. None)"
  by (simp add: faithful_def)

lemma faithfulD:
  assumes "faithful os prog" "os_process_key os pid r = (Some p, r1)" "os_executable os pid r1 = (e, r2)"
  shows "prog p = None \<or> prog p = e"
  using assms unfolding faithful_def by (metis fst_conv not_None_eq)

text \<open>A decision agrees with what the policy says of the process's program.\<close>

definition agrees :: "Platform \<Rightarrow> (ProcessKey \<Rightarrow> bytes option) \<Rightarrow> Policy \<Rightarrow> ProcessKey \<Rightarrow> RouteId option \<Rightarrow> bool" where
  "agrees pf prog policy p route \<longleftrightarrow>
     (\<forall>e route'. prog p = Some e \<longrightarrow> am_lookup pf (po_apps policy) e = Some route' \<longrightarrow> route = route')"

definition decisions_ok :: "Platform \<Rightarrow> (ProcessKey \<Rightarrow> bytes option) \<Rightarrow> Policy \<Rightarrow> RouteId DecisionCache \<Rightarrow> bool" where
  "decisions_ok pf prog policy c \<longleftrightarrow>
     dc_ok c \<and> dc_capacity c = PROCESS_CAPACITY \<and> (\<forall>p route. dc_get c p = Some route \<longrightarrow> agrees pf prog policy p route)"

lemma decisions_ok_insert:
  assumes "decisions_ok pf prog policy c" "agrees pf prog policy p route"
  shows "decisions_ok pf prog policy (dc_insert p route c)"
proof -
  have ok: "dc_ok c" using assms(1) by (simp add: decisions_ok_def)
  have "agrees pf prog policy q r" if "dc_get (dc_insert p route c) q = Some r" for q r
    by (rule decisions.put_all [where P = "agrees pf prog policy", OF ok _ assms(2) that]) (use assms(1) in \<open>simp add: decisions_ok_def\<close>)
  then show ?thesis
    using assms(1) decisions.invar_put [OF ok] by (auto simp: decisions_ok_def decisions.capacity_put)
qed

text \<open>What attribution leaves alone.\<close>

definition attr_frame :: "'r Router \<Rightarrow> 'r Router \<Rightarrow> bool" where
  "attr_frame \<rho> \<rho>' \<longleftrightarrow>
     ro_policy \<rho>' = ro_policy \<rho> \<and> ro_flows \<rho>' = ro_flows \<rho> \<and> ro_flow_capacity \<rho>' = ro_flow_capacity \<rho> \<and>
     ro_uplink_fragments \<rho>' = ro_uplink_fragments \<rho> \<and> ro_downlink_fragments \<rho>' = ro_downlink_fragments \<rho> \<and>
     ro_resets \<rho>' = ro_resets \<rho>"

text \<open>A flow bound to main with a process found has a process of no routed program; likewise a route.\<close>

definition bound_ok :: "Platform \<Rightarrow> (ProcessKey \<Rightarrow> bytes option) \<Rightarrow> Policy \<Rightarrow> Binding \<Rightarrow> ProcessKey option \<Rightarrow> bool" where
  "bound_ok pf prog policy b process \<longleftrightarrow>
     (\<forall>p. process = Some p \<longrightarrow> (b = BMain \<longrightarrow> agrees pf prog policy p None) \<and>
        (\<forall>route. b = BRoute route \<longrightarrow> agrees pf prog policy p (Some route)))"

lemma bind_route_spec:
  assumes "bind_route under_way route p \<rho> = ((b, process), \<rho>')" "agrees pf prog policy p route"
  shows "attr_frame \<rho> \<rho>'" "ro_decisions \<rho>' = ro_decisions \<rho>" "bound_ok pf prog policy b process"
  using assms by (auto simp: bind_route_def attr_frame_def bound_ok_def split: option.splits if_splits)

lemma decide_spec:
  assumes f: "faithful os prog" and d: "decisions_ok pf prog (ro_policy \<rho>) (ro_decisions \<rho>)"
    and dec: "router_decide pf os under_way owner \<rho> = Some ((b, process), \<rho>')"
  shows "attr_frame \<rho> \<rho>' \<and> decisions_ok pf prog (ro_policy \<rho>) (ro_decisions \<rho>') \<and> bound_ok pf prog (ro_policy \<rho>) b process"
proof (cases owner)
  case (OwnerProcess pid)
  obtain k r where k: "os_process_key os pid (ro_resolver \<rho>) = (k, r)" by fastforce
  let ?\<rho> = "\<rho>\<lparr>ro_resolver := r\<rparr>"
  show ?thesis
  proof (cases k)
    case None
    then show ?thesis using dec d k OwnerProcess by (auto simp: router_decide_def attr_frame_def bound_ok_def)
  next
    case (Some p)
    show ?thesis
    proof (cases "dc_get (ro_decisions \<rho>) p")
      case (Some route)
      then have "agrees pf prog (ro_policy \<rho>) p route" using d by (simp add: decisions_ok_def)
      moreover have "bind_route under_way route p ?\<rho> = ((b, process), \<rho>')"
        using dec k OwnerProcess \<open>k = Some p\<close> Some by (simp add: router_decide_def)
      ultimately show ?thesis using bind_route_spec [of under_way route p ?\<rho> b process \<rho>'] d by (auto simp: attr_frame_def)
    next
      case None
      obtain e r' where e: "os_executable os pid r = (e, r')" by fastforce
      have prog: "prog p = None \<or> prog p = e" using faithfulD [OF f _ e] k \<open>k = Some p\<close> by simp
      show ?thesis
      proof (cases e)
        case None
        then have "agrees pf prog (ro_policy \<rho>) p None" using prog by (auto simp: agrees_def)
        moreover have "if under_way then ((b, process), \<rho>') = ((BBlocked, None), \<rho>\<lparr>ro_resolver := r'\<rparr>)
            else ((b, process), \<rho>') = ((BMain, Some p), \<rho>\<lparr>ro_resolver := r'\<rparr>)"
          using dec k e None OwnerProcess \<open>k = Some p\<close> \<open>dc_get _ _ = None\<close>
          by (simp add: router_decide_def bind_route_def split: if_splits)
        ultimately show ?thesis using d by (auto simp: attr_frame_def bound_ok_def split: if_splits)
      next
        case (Some path)
        obtain route where route: "am_lookup pf (po_apps (ro_policy \<rho>)) path = Some route"
          and bind: "bind_route under_way route p
            (?\<rho>\<lparr>ro_resolver := r', ro_decisions := dc_insert p route (ro_decisions \<rho>)\<rparr>) = ((b, process), \<rho>')"
          using dec k e Some OwnerProcess \<open>k = Some p\<close> \<open>dc_get _ _ = None\<close>
          by (auto simp: router_decide_def split: bind_splits)
        have "agrees pf prog (ro_policy \<rho>) p route" using prog route Some by (auto simp: agrees_def)
        then show ?thesis using bind_route_spec [OF bind, of pf prog "ro_policy \<rho>"] decisions_ok_insert [OF d]
          by (auto simp: attr_frame_def)
      qed
    qed
  qed
qed (use dec d in \<open>auto simp: router_decide_def attr_frame_def bound_ok_def\<close>)


section \<open>The invariant\<close>

definition flow_ok :: "Platform \<Rightarrow> (ProcessKey \<Rightarrow> bytes option) \<Rightarrow> Policy \<Rightarrow> Tracked \<Rightarrow> bool" where
  "flow_ok pf prog policy t \<longleftrightarrow>
     (\<forall>p. tk_binding t = BMain \<longrightarrow> tk_process t = Some p \<longrightarrow> agrees pf prog policy p None)"

definition flows_ok :: "Platform \<Rightarrow> (ProcessKey \<Rightarrow> bytes option) \<Rightarrow> Policy \<Rightarrow> nat \<Rightarrow> Tracked FlowTable \<Rightarrow> bool" where
  "flows_ok pf prog policy n flows \<longleftrightarrow>
     ft_ok flows \<and> ft_capacity flows = max n 1 \<and> (\<forall>k t. ft_get flows k = Some t \<longrightarrow> flow_ok pf prog policy t)"

definition router_inv :: "Platform \<Rightarrow> (ProcessKey \<Rightarrow> bytes option) \<Rightarrow> nat \<Rightarrow> 'r Router \<Rightarrow> bool" where
  "router_inv pf prog n \<rho> \<longleftrightarrow>
     decisions_ok pf prog (ro_policy \<rho>) (ro_decisions \<rho>) \<and> ro_flow_capacity \<rho> = n \<and>
     fm_ok (ro_uplink_fragments \<rho>) \<and> fm_ok (ro_downlink_fragments \<rho>) \<and> length (ro_resets \<rho>) \<le> MAX_QUEUED_RESETS \<and>
     (\<forall>flows. ro_flows \<rho> = Some flows \<longrightarrow> flows_ok pf prog (ro_policy \<rho>) n flows)"

lemma ft_capacity_ops [simp]:
  "ft_capacity (snd (ft_lookup_mut k d flags now t)) = ft_capacity t" "ft_capacity (ft_set k v t) = ft_capacity t"
  "ft_capacity (ft_expire now t) = ft_capacity t" "ft_capacity (ft_remove k t) = ft_capacity t"
  "ft_capacity (ft_new n) = max n 1" "ft_capacity (fst (ft_revise f now t s)) = ft_capacity t"
  by (auto simp: ft_lookup_mut_def ft_set_def ft_expire_def ft_remove_def ft_new_def ft_revise_def Let_def
      split: option.splits prod.splits)

lemma flows_ok_ops:
  assumes "flows_ok pf prog policy n flows"
  shows "flows_ok pf prog policy n (snd (ft_lookup_mut k d flags now flows))"
    "flow_ok pf prog policy t \<Longrightarrow> flows_ok pf prog policy n (ft_set k t flows)"
    "flow_ok pf prog policy t \<Longrightarrow> flows_ok pf prog policy n (ft_insert k t d flags now flows)"
    "flows_ok pf prog policy n (ft_expire now flows)" "flows_ok pf prog policy n (ft_remove k flows)"
proof -
  have ok: "ft_ok flows" and all: "\<And>k t. ft_get flows k = Some t \<Longrightarrow> flow_ok pf prog policy t"
    using assms by (auto simp: flows_ok_def)
  show "flows_ok pf prog policy n (snd (ft_lookup_mut k d flags now flows))"
    using assms ft_ok_lookup_mut [OF ok] by (auto simp: flows_ok_def)
  show "flows_ok pf prog policy n (ft_set k t flows)" if "flow_ok pf prog policy t"
    using assms ft_ok_set [OF ok] that by (auto simp: flows_ok_def ft_get_set split: if_splits)
  show "flows_ok pf prog policy n (ft_expire now flows)"
    using assms ft_ok_expire [OF ok] by (auto simp: flows_ok_def dest: ft_get_expire [OF ok])
  show "flows_ok pf prog policy n (ft_remove k flows)"
    using assms ft_ok_remove [OF ok] by (auto simp: flows_ok_def ft_get_remove split: if_splits)
  show "flows_ok pf prog policy n (ft_insert k t d flags now flows)" if t: "flow_ok pf prog policy t"
  proof -
    have "flow_ok pf prog policy t'" if "ft_get (ft_insert k t d flags now flows) k' = Some t'" for k' t'
      by (rule flows.put_all [where P = "\<lambda>_. flow_ok pf prog policy", OF ok _ t that]) (rule all)
    then show ?thesis using assms ft_ok_insert [OF ok] by (auto simp: flows_ok_def flows.capacity_put)
  qed
qed

lemma router_invD:
  assumes "router_inv pf prog n \<rho>"
  shows "decisions_ok pf prog (ro_policy \<rho>) (ro_decisions \<rho>)"
    "ro_flows \<rho> = Some flows \<Longrightarrow> flows_ok pf prog (ro_policy \<rho>) n flows"
  using assms by (auto simp: router_inv_def)

lemma router_inv_keeps:
  "router_inv pf prog n \<rho> \<Longrightarrow> attr_frame \<rho> \<rho>' \<Longrightarrow> decisions_ok pf prog (ro_policy \<rho>) (ro_decisions \<rho>') \<Longrightarrow> router_inv pf prog n \<rho>'"
  by (simp add: router_inv_def attr_frame_def)

lemma router_inv_flows:
  "router_inv pf prog n \<rho> \<Longrightarrow> (\<And>flows. ro_flows \<rho> = Some flows \<Longrightarrow> flows_ok pf prog (ro_policy \<rho>) n (f flows)) \<Longrightarrow>
    router_inv pf prog n (\<rho>\<lparr>ro_flows := map_option f (ro_flows \<rho>)\<rparr>)"
  by (auto simp: router_inv_def)

lemma router_inv_frame [simp]:
  "router_inv pf prog n (\<rho>\<lparr>ro_counters := c\<rparr>) = router_inv pf prog n \<rho>"
  "router_inv pf prog n (\<rho>\<lparr>ro_resolver := r\<rparr>) = router_inv pf prog n \<rho>"
  "router_inv pf prog n (\<rho>\<lparr>ro_snapshot_taken := i\<rparr>) = router_inv pf prog n \<rho>"
  "router_inv pf prog n (\<rho>\<lparr>ro_queries := qs\<rparr>) = router_inv pf prog n \<rho>"
  "router_inv pf prog n (\<rho>\<lparr>ro_deferred := d\<rparr>) = router_inv pf prog n \<rho>"
  by (simp_all add: router_inv_def)

lemma ensure_fresh_view_spec: "attr_frame \<rho> (ensure_fresh_view os started arrived \<rho>)"
  "ro_decisions (ensure_fresh_view os started arrived \<rho>) = ro_decisions \<rho>"
  by (auto simp: ensure_fresh_view_def attr_frame_def Let_def split: option.splits prod.splits if_splits)

lemma attribute_spec:
  assumes f: "faithful os prog" and d: "decisions_ok pf prog (ro_policy \<rho>) (ro_decisions \<rho>)"
    and at: "attribute pf os started key opening arrived \<rho> = Some ((b, process), \<rho>')"
  shows "attr_frame \<rho> \<rho>' \<and> decisions_ok pf prog (ro_policy \<rho>) (ro_decisions \<rho>') \<and> bound_ok pf prog (ro_policy \<rho>) b process"
proof (cases "fk_transport key = FlowIcmpEcho \<or> ro_deferred \<rho>")
  case True
  then show ?thesis using at d by (auto simp: attribute_def attr_frame_def bound_ok_def Let_def split: if_splits)
next
  case False
  let ?c = "count (ct_new_flows_update (\<lambda>n. n + 1)) \<rho>" and ?under = "fk_transport key = FlowTcp \<and> \<not> opening"
  let ?v = "ensure_fresh_view os started arrived ?c"
  obtain owner r where at': "router_decide pf os ?under owner (?v\<lparr>ro_resolver := r\<rparr>) = Some ((b, process), \<rho>')"
    using at False by (auto simp: attribute_def Let_def split: prod.splits)
  have v: "attr_frame \<rho> (?v\<lparr>ro_resolver := r\<rparr>)" "ro_decisions (?v\<lparr>ro_resolver := r\<rparr>) = ro_decisions \<rho>"
    using ensure_fresh_view_spec [where \<rho> = ?c and os = os and started = started and arrived = arrived] by (auto simp: attr_frame_def)
  then have "decisions_ok pf prog (ro_policy (?v\<lparr>ro_resolver := r\<rparr>)) (ro_decisions (?v\<lparr>ro_resolver := r\<rparr>))"
    using d by (simp add: attr_frame_def)
  from decide_spec [OF f this at'] v show ?thesis by (simp add: attr_frame_def)
qed


section \<open>Binding a flow\<close>

lemma ft_peek_lookup_mut: "ft_peek k now (snd (ft_lookup_mut k d flags now t)) = ft_peek k now t"
  by (auto simp: ft_lookup_mut_def ft_peek_def fresh_not_expired Let_def split: option.splits)

lemma ft_peek_set: "ft_peek k now t \<noteq> None \<Longrightarrow> ft_peek k now (ft_set k v t) = Some v"
  by (auto simp: ft_set_def ft_peek_def is_expired_def split: option.splits if_splits)

lemma ft_peek_insert: "ft_peek k now (ft_insert k v d flags now t) = Some v"
  by (simp add: ft_peek_def ft_insert_entries fresh_not_expired)

lemma ft_peek_remove: "ft_peek k now (ft_remove k t) = None"
  by (simp add: ft_peek_def ft_remove_def)

text \<open>The live entry of a flow.\<close>

definition live_flow :: "'r Router \<Rightarrow> FlowKey \<Rightarrow> instant \<Rightarrow> Tracked option" where
  "live_flow \<rho> key now = Option.bind (ro_flows \<rho>) (ft_peek key now)"

text \<open>
  The two ways a flow gets its binding: it keeps that of its live entry, or it is new and attributed.
\<close>

lemma flow_binding_cases:
  assumes "flow_binding pf os started key flags seg arrived \<rho> = Some (b, \<rho>')"
  obtains (kept) flows t side where "ro_flows \<rho> = Some flows" "ft_peek key arrived flows = Some t" "b = tk_binding t"
      "is_opening key flags \<longrightarrow> b \<noteq> BReset"
      "\<rho>' = \<rho>\<lparr>ro_flows := Some (ft_set key (t\<lparr>tk_app_side := side\<rparr>) (snd (ft_lookup_mut key Uplink flags arrived flows)))\<rparr>"
  | (inactive) "\<not> policy_is_active (ro_policy \<rho>)" "b = BMain" "live_flow \<rho> key arrived \<noteq> None \<longrightarrow> is_opening key flags"
      "\<rho>' = \<rho>\<lparr>ro_flows := map_option (\<lambda>flows.
         (if is_opening key flags then ft_remove key else (\<lambda>t. t)) (snd (ft_lookup_mut key Uplink flags arrived flows))) (ro_flows \<rho>)\<rparr>"
  | (fresh) process \<rho>1 side where "policy_is_active (ro_policy \<rho>)"
      "attribute pf os started key (is_opening key flags) arrived
         (\<rho>\<lparr>ro_flows := map_option (\<lambda>flows. snd (ft_lookup_mut key Uplink flags arrived flows)) (ro_flows \<rho>)\<rparr>) =
         Some ((b, process), \<rho>1)"
      "\<rho>' = \<rho>1\<lparr>ro_flows := map_option
         (ft_insert key \<lparr>tk_binding = b, tk_process = process, tk_app_side = side\<rparr> Uplink flags arrived) (ro_flows \<rho>1)\<rparr>"
proof -
  define \<rho>0 where "\<rho>0 = \<rho>\<lparr>ro_flows := map_option (\<lambda>flows. snd (ft_lookup_mut key Uplink flags arrived flows)) (ro_flows \<rho>)\<rparr>"
  define kept where "kept = (case live_flow \<rho> key arrived of None \<Rightarrow> None | Some t \<Rightarrow>
    if \<not> is_opening key flags \<or> tk_binding t \<noteq> BReset \<and>
         (case seg of Some s \<Rightarrow> as_opened_by (tk_app_side t) s | None \<Rightarrow> False) then Some t else None)"
  have found: "(case ro_flows \<rho> of None \<Rightarrow> (None, \<rho>) | Some flows \<Rightarrow>
      (case ft_lookup_mut key Uplink flags arrived flows of (t, flows) \<Rightarrow> (t, \<rho>\<lparr>ro_flows := Some flows\<rparr>))) =
      (live_flow \<rho> key arrived, \<rho>0)"
    by (cases "ro_flows \<rho>") (simp_all add: live_flow_def \<rho>0_def split_beta fst_ft_lookup_mut)
  note b = assms [unfolded flow_binding_def Let_def found prod.case, folded kept_def]
  show ?thesis
  proof (cases kept)
    case (Some t)
    then obtain flows where fl: "ro_flows \<rho> = Some flows" "ft_peek key arrived flows = Some t"
      and "is_opening key flags \<longrightarrow> tk_binding t \<noteq> BReset"
      by (auto simp: kept_def live_flow_def split: option.splits if_splits bind_splits)
    with that(1) [OF fl, of "case seg of Some s \<Rightarrow> as_follow s (tk_app_side t) | None \<Rightarrow> tk_app_side t"] b Some
    show ?thesis by (simp add: \<rho>0_def)
  next
    case None
    then have new: "live_flow \<rho> key arrived \<noteq> None \<longrightarrow> is_opening key flags"
      by (auto simp: kept_def split: if_splits)
    show ?thesis
    proof (cases "policy_is_active (ro_policy \<rho>)")
      case False
      with that(2) [OF False _ new] b None show ?thesis
        by (simp add: \<rho>0_def option.map_comp o_def split: if_splits)
    next
      case True
      with b None obtain process \<rho>1 where "attribute pf os started key (is_opening key flags) arrived \<rho>0 = Some ((b, process), \<rho>1)"
        and "\<rho>' = \<rho>1\<lparr>ro_flows := map_option (ft_insert key \<lparr>tk_binding = b, tk_process = process, tk_app_side =
          (case seg of Some s \<Rightarrow> as_follow s app_side_default | None \<Rightarrow> app_side_default)\<rparr> Uplink flags arrived) (ro_flows \<rho>1)\<rparr>"
        by (auto simp: \<rho>0_def split: bind_splits)
      with that(3) True show ?thesis by (simp add: \<rho>0_def)
    qed
  qed
qed


text \<open>What binding a flow guarantees, by case.\<close>

lemma flow_binding_spec:
  assumes f: "faithful os prog" and inv: "router_inv pf prog n \<rho>"
    and fb: "flow_binding pf os started key flags seg arrived \<rho> = Some (b, \<rho>')"
  shows "router_inv pf prog n \<rho>'" "ro_policy \<rho>' = ro_policy \<rho>"
    "live_flow \<rho>' key arrived = Some t \<Longrightarrow> tk_binding t = b"
proof -
  have fl: "flows_ok pf prog (ro_policy \<rho>) n flows" if "ro_flows \<rho> = Some flows" for flows
    using router_invD(2) [OF inv that] .
  have "router_inv pf prog n \<rho>' \<and> ro_policy \<rho>' = ro_policy \<rho> \<and> (\<forall>t. live_flow \<rho>' key arrived = Some t \<longrightarrow> tk_binding t = b)"
    using fb
  proof (cases rule: flow_binding_cases)
    case (kept flows t side)
    note ok = fl [OF kept(1)]
    let ?t = "t\<lparr>tk_app_side := side\<rparr>"
    have "flow_ok pf prog (ro_policy \<rho>) ?t"
      using ok ft_peek_get [OF kept(2)] by (auto simp: flows_ok_def flow_ok_def)
    from flows_ok_ops(2) [OF flows_ok_ops(1) [OF ok] this]
    have "router_inv pf prog n \<rho>'" using inv by (auto simp: router_inv_def kept(5))
    moreover have "live_flow \<rho>' key arrived = Some ?t"
      using kept(2) by (simp add: live_flow_def kept(5) ft_peek_set ft_peek_lookup_mut)
    ultimately show ?thesis by (simp add: kept(3,5))
  next
    case inactive
    have "router_inv pf prog n \<rho>'"
      unfolding inactive(4) using fl by (intro router_inv_flows [OF inv]) (auto intro: flows_ok_ops)
    moreover have "live_flow \<rho>' key arrived = None"
    proof (cases "ro_flows \<rho>")
      case (Some flows)
      then show ?thesis using inactive(3)
        by (cases "is_opening key flags") (simp_all add: live_flow_def inactive(4) ft_peek_remove ft_peek_lookup_mut)
    qed (simp add: live_flow_def inactive(4))
    ultimately show ?thesis by (simp add: inactive(4))
  next
    case (fresh process \<rho>1 side)
    let ?\<rho> = "\<rho>\<lparr>ro_flows := map_option (\<lambda>flows. snd (ft_lookup_mut key Uplink flags arrived flows)) (ro_flows \<rho>)\<rparr>"
    have inv0: "router_inv pf prog n ?\<rho>" using fl by (intro router_inv_flows [OF inv]) (auto intro: flows_ok_ops)
    have at: "attr_frame ?\<rho> \<rho>1" "decisions_ok pf prog (ro_policy ?\<rho>) (ro_decisions \<rho>1)" "bound_ok pf prog (ro_policy ?\<rho>) b process"
      using attribute_spec [OF f router_invD(1) [OF inv0] fresh(2)] by simp_all
    have inv1: "router_inv pf prog n \<rho>1" by (rule router_inv_keeps [OF inv0 at(1,2)])
    have pol: "ro_policy \<rho>1 = ro_policy \<rho>" using at(1) by (simp add: attr_frame_def)
    have "flow_ok pf prog (ro_policy \<rho>1) \<lparr>tk_binding = b, tk_process = process, tk_app_side = side\<rparr>"
      using at(3) pol by (auto simp: bound_ok_def flow_ok_def)
    then have "router_inv pf prog n \<rho>'"
      unfolding fresh(3) using router_invD(2) [OF inv1] by (intro router_inv_flows [OF inv1]) (auto intro: flows_ok_ops)
    moreover have "live_flow \<rho>' key arrived = Some t \<Longrightarrow> tk_binding t = b" for t
      by (auto simp: live_flow_def fresh(3) ft_peek_insert split: bind_splits)
    ultimately show ?thesis using pol by (simp add: fresh(3))
  qed
  then show "router_inv pf prog n \<rho>'" "ro_policy \<rho>' = ro_policy \<rho>"
    "live_flow \<rho>' key arrived = Some t \<Longrightarrow> tk_binding t = b" by auto
qed

section \<open>Packets\<close>

lemma counters_self [simp]: "\<exists>c. \<rho> = \<rho>\<lparr>ro_counters := c\<rparr>"
  by (rule exI [of _ "ro_counters \<rho>"]) simp

lemma apply_uplink_frame:
  assumes "apply_uplink b packet \<rho> = Some (v, packet', \<rho>')"
  shows "\<exists>c. \<rho>' = \<rho>\<lparr>ro_counters := c\<rparr>"
    "v = VMain \<Longrightarrow> b = BMain \<and> packet' = packet"
    "v = VDrop \<Longrightarrow> packet' = packet" "v \<noteq> VHold key"
    "v = VRoute route \<Longrightarrow> b = BRoute route \<and> (\<exists>addresses layout src new.
       vec_get (po_routes (ro_policy \<rho>)) (unat (route_num route)) = Some (RouteConnected addresses) \<and>
       locate packet = Some (Inr layout) \<and> packet_src layout packet = Some src \<and>
       for_family_of (po_main (ro_policy \<rho>)) src = Some src \<and> for_family_of addresses src = Some new \<and>
       rewrite_source packet new = Some (Inr packet'))"
  using assms
  by (auto simp: apply_uplink_def dropped_def Let_def
      split: Binding.splits option.splits RouteState.splits sum.splits if_splits bind_splits)

lemma sweep_inv: "router_inv pf prog n \<rho> \<Longrightarrow> router_inv pf prog n (sweep now \<rho>)"
  "ro_policy (sweep now \<rho>) = ro_policy \<rho>"
  by (auto simp: sweep_def router_inv_def fm_ok_expire intro: flows_ok_ops)


lemma router_inv_remember:
  "router_inv pf prog n \<rho> \<Longrightarrow> router_inv pf prog n (\<rho>\<lparr>ro_uplink_fragments := fm_remember f b now (ro_uplink_fragments \<rho>)\<rparr>)"
  "router_inv pf prog n \<rho> \<Longrightarrow> router_inv pf prog n (\<rho>\<lparr>ro_downlink_fragments := fm_remember f b now (ro_downlink_fragments \<rho>)\<rparr>)"
  by (simp_all add: router_inv_def fm_ok_remember)

text \<open>The packet of a flow: the binding it gets, and what is done under it.\<close>

lemma uplink_flow:
  assumes "uplink pf os started packet arrived \<rho> = Some (v, packet', \<rho>')" "router_is_active \<rho>"
    and "classify packet Uplink = Some (Inr (CFlow key flags fragment))"
  obtains seg b \<rho>1 \<rho>2 where
    "flow_binding pf os started key flags seg arrived (sweep arrived \<rho>) = Some (b, \<rho>1)"
    "\<And>pf prog n. router_inv pf prog n \<rho>1 \<Longrightarrow> router_inv pf prog n \<rho>2"
    "ro_flows \<rho>2 = ro_flows \<rho>1" "ro_policy \<rho>2 = ro_policy \<rho>1"
    "if b = BPending then (v, packet', \<rho>') = (VHold key, packet, \<rho>2)
     else apply_uplink b packet \<rho>2 = Some (v, packet', \<rho>')"
proof -
  from assms obtain seg b \<rho>1 where fb: "flow_binding pf os started key flags seg arrived (sweep arrived \<rho>) = Some (b, \<rho>1)"
    and rest: "(let \<rho> = (case fragment of Some fragment \<Rightarrow>
          \<rho>1\<lparr>ro_uplink_fragments := fm_remember fragment b arrived (ro_uplink_fragments \<rho>1)\<rparr> | None \<Rightarrow> \<rho>1)
        in if b = BPending then Some (VHold key, packet, \<rho>)
           else let \<rho> = (if b = BReset \<and> length (ro_resets \<rho>) < MAX_QUEUED_RESETS
                         then case Option.bind seg (reset_answer key) of
                                Some answer \<Rightarrow> \<rho>\<lparr>ro_resets := ro_resets \<rho> @ [answer]\<rparr> | None \<Rightarrow> \<rho>
                         else \<rho>) in apply_uplink b packet \<rho>) = Some (v, packet', \<rho>')"
    by (auto simp: uplink_def Let_def split: bind_splits if_splits)
  define \<rho>f where "\<rho>f = (case fragment of Some fragment \<Rightarrow>
          \<rho>1\<lparr>ro_uplink_fragments := fm_remember fragment b arrived (ro_uplink_fragments \<rho>1)\<rparr> | None \<Rightarrow> \<rho>1)"
  define \<rho>2 where "\<rho>2 = (if b = BReset \<and> length (ro_resets \<rho>f) < MAX_QUEUED_RESETS
                         then case Option.bind seg (reset_answer key) of
                                Some answer \<Rightarrow> \<rho>f\<lparr>ro_resets := ro_resets \<rho>f @ [answer]\<rparr> | None \<Rightarrow> \<rho>f
                         else \<rho>f)"
  have f: "ro_flows \<rho>f = ro_flows \<rho>1" "ro_policy \<rho>f = ro_policy \<rho>1" "\<And>pf prog n. router_inv pf prog n \<rho>1 \<Longrightarrow> router_inv pf prog n \<rho>f"
    by (auto simp: \<rho>f_def router_inv_remember split: option.splits)
  have "router_inv pf prog n (\<rho>f\<lparr>ro_resets := ro_resets \<rho>f @ [answer]\<rparr>)"
    if "router_inv pf prog n \<rho>f" "length (ro_resets \<rho>f) < MAX_QUEUED_RESETS" for pf prog n answer
    using that by (simp add: router_inv_def)
  then have two: "ro_flows \<rho>2 = ro_flows \<rho>1" "ro_policy \<rho>2 = ro_policy \<rho>1"
      "\<And>pf prog n. router_inv pf prog n \<rho>1 \<Longrightarrow> router_inv pf prog n \<rho>2"
    using f by (auto simp: \<rho>2_def split: option.splits)
  have "if b = BPending then (v, packet', \<rho>') = (VHold key, packet, \<rho>2)
     else apply_uplink b packet \<rho>2 = Some (v, packet', \<rho>')"
    using rest unfolding Let_def \<rho>f_def [symmetric] \<rho>2_def [symmetric] by (auto simp: \<rho>2_def split: if_splits)
  with fb two show ?thesis by (intro that [of seg b \<rho>1 \<rho>2]) assumption+
qed

lemma uplink_inv:
  assumes f: "faithful os prog" and inv: "router_inv pf prog n \<rho>"
    and up: "uplink pf os started packet arrived \<rho> = Some (v, packet', \<rho>')"
  shows "router_inv pf prog n \<rho>'" "ro_policy \<rho>' = ro_policy \<rho>"
proof -
  have "router_inv pf prog n \<rho>' \<and> ro_policy \<rho>' = ro_policy \<rho>"
  proof (cases "router_is_active \<rho>")
    case True
    note sw = sweep_inv(1) [OF inv, of arrived] sweep_inv(2) [of arrived \<rho>]
    have app: "router_inv pf prog n \<rho>' \<and> ro_policy \<rho>' = ro_policy \<rho>"
      if "apply_uplink b packet \<rho>2 = Some (v, packet', \<rho>')" "router_inv pf prog n \<rho>2" "ro_policy \<rho>2 = ro_policy \<rho>" for b \<rho>2
      using apply_uplink_frame(1) [OF that(1)] that(2,3) by auto
    obtain c where c: "classify packet Uplink = Some c" using classify_total [of packet Uplink] by blast
    show ?thesis
    proof (cases "\<exists>key flags fragment. c = Inr (CFlow key flags fragment)")
      case flow: True
      then obtain key flags fragment where "classify packet Uplink = Some (Inr (CFlow key flags fragment))" using c by auto
      from up True this show ?thesis
      proof (cases rule: uplink_flow)
        case (1 seg b \<rho>1 \<rho>2)
        note fb = flow_binding_spec [OF f sw(1) 1(1)]
        show ?thesis
        proof (cases "b = BPending")
          case True
          then show ?thesis using 1(2,4,5) fb(1,2) sw(2) by auto
        next
          case False
          then show ?thesis using app [of b \<rho>2] 1(2,4,5) fb(1,2) sw(2) by auto
        qed
      qed
    next
      case False
      have "(\<exists>b. apply_uplink b packet (sweep arrived \<rho>) = Some (v, packet', \<rho>')) \<or>
          (\<exists>c. \<rho>' = (sweep arrived \<rho>)\<lparr>ro_counters := c\<rparr>)"
        using up True False c
        by (auto simp: uplink_def Let_def dropped_def split: sum.splits Classified.splits if_splits)
      then show ?thesis using app [of _ "sweep arrived \<rho>"] sw by auto
    qed
  qed (use up inv in \<open>auto simp: uplink_def\<close>)
  then show "router_inv pf prog n \<rho>'" "ro_policy \<rho>' = ro_policy \<rho>" by auto
qed


lemma router_lookup_inv:
  assumes "router_inv pf prog n \<rho>"
  shows "router_inv pf prog n (snd (router_lookup key d flags now \<rho>))" "ro_policy (snd (router_lookup key d flags now \<rho>)) = ro_policy \<rho>"
proof -
  have "router_inv pf prog n (\<rho>\<lparr>ro_flows := map_option (\<lambda>flows. snd (ft_lookup_mut key d flags now flows)) (ro_flows \<rho>)\<rparr>)"
    using router_invD(2) [OF assms] by (intro router_inv_flows [OF assms]) (auto intro: flows_ok_ops)
  moreover have "snd (router_lookup key d flags now \<rho>) =
      \<rho>\<lparr>ro_flows := map_option (\<lambda>flows. snd (ft_lookup_mut key d flags now flows)) (ro_flows \<rho>)\<rparr>"
    by (auto simp: router_lookup_def ft_lookup_def split: option.splits prod.splits)
  ultimately show "router_inv pf prog n (snd (router_lookup key d flags now \<rho>))"
    "ro_policy (snd (router_lookup key d flags now \<rho>)) = ro_policy \<rho>" by simp_all
qed

lemma downlink_main_inv:
  assumes "router_inv pf prog n \<rho>" "downlink_main route addresses c now \<rho> = Some (main, \<rho>')"
  shows "router_inv pf prog n \<rho>' \<and> ro_policy \<rho>' = ro_policy \<rho>"
  using assms router_lookup_inv [OF assms(1)]
  by (cases c) (auto simp: downlink_main_def Let_def router_inv_remember split: bind_splits if_splits option.splits)

lemma downlink_inv:
  assumes inv: "router_inv pf prog n \<rho>" and down: "downlink route packet now \<rho> = Some (d, packet', \<rho>')"
  shows "router_inv pf prog n \<rho>' \<and> ro_policy \<rho>' = ro_policy \<rho>"
proof -
  note main = downlink_main_inv [OF inv]
  show ?thesis using down inv
    by (auto simp: downlink_def not_delivered_def Let_def dest!: main split: if_splits option.splits RouteState.splits sum.splits)
qed

lemma complete_inv:
  assumes f: "faithful os prog" and inv: "router_inv pf prog n \<rho>" and c: "complete pf os query owner now \<rho> = Some \<rho>'"
  shows "router_inv pf prog n \<rho>'"
proof (cases "router_peek (oq_flow query) now \<rho> = Some BPending")
  case True
  then obtain b process \<rho>1 where d: "router_decide pf os (oq_under_way query) owner \<rho> = Some ((b, process), \<rho>1)"
    using c by (auto simp: complete_def split: bind_splits)
  note spec = decide_spec [OF f router_invD(1) [OF inv] d]
  then have inv1: "router_inv pf prog n \<rho>1" and pol: "ro_policy \<rho>1 = ro_policy \<rho>"
    using router_inv_keeps [OF inv] by (auto simp: attr_frame_def)
  show ?thesis
  proof (cases "Option.bind (ro_flows \<rho>1) (\<lambda>flows. ft_get flows (oq_flow query))")
    case None
    then show ?thesis using c True d inv1 by (auto simp: complete_def split: option.splits bind_splits)
  next
    case (Some t)
    then obtain flows where fl: "ro_flows \<rho>1 = Some flows" "ft_get flows (oq_flow query) = Some t" by (auto split: bind_splits)
    let ?t = "t\<lparr>tk_binding := b, tk_process := process\<rparr>"
    have "flow_ok pf prog (ro_policy \<rho>1) ?t" using spec pol by (auto simp: bound_ok_def flow_ok_def)
    then have "flows_ok pf prog (ro_policy \<rho>1) n (ft_set (oq_flow query) ?t flows)"
      using router_invD(2) [OF inv1 fl(1)] by (intro flows_ok_ops)
    moreover have "\<rho>' = \<rho>1\<lparr>ro_flows := Some (ft_set (oq_flow query) ?t flows)\<rparr>"
      using c True d fl by (simp add: complete_def)
    ultimately show ?thesis using inv1 by (simp add: router_inv_def)
  qed
qed (use c inv in \<open>simp add: complete_def\<close>)

section \<open>A new policy\<close>

lemma decide_processes_agrees:
  assumes "faithful os prog" "decide_processes pf os policy ps r = Some (ds, r')" "(p, route) \<in> set ds"
  shows "agrees pf prog policy p route"
  using assms(2,3)
proof (induction ps arbitrary: r ds r')
  case (Cons q rest)
  obtain k r1 where k: "os_process_key os (pk_pid q) r = (k, r1)" by fastforce
  obtain e r2 where e: "os_executable os (pk_pid q) r1 = (e, r2)" by fastforce
  show ?case
  proof (cases "k = Some q \<and> e \<noteq> None")
    case False
    then show ?thesis using Cons k e by (auto split: if_splits option.splits)
  next
    case True
    then obtain program where program: "e = Some program" by blast
    have "prog q = None \<or> prog q = Some program" using faithfulD [OF assms(1) _ e] k True program by simp
    then show ?thesis using Cons k e True program by (auto simp: agrees_def split: bind_splits)
  qed
qed simp


lemma agrees_inactive: "\<not> policy_is_active policy \<Longrightarrow> agrees pf prog policy p None"
  by (auto simp: agrees_def policy_is_active_def am_is_empty_def am_lookup_def split: bind_splits)

lemma decide_again_frame:
  assumes "decide_again pf os policy \<rho> = Some (ds, \<rho>')"
  shows "\<exists>r. \<rho>' = \<rho>\<lparr>ro_resolver := r\<rparr>"
proof -
  have self: "\<exists>r. \<rho> = \<rho>\<lparr>ro_resolver := r\<rparr>" by (rule exI [of _ "ro_resolver \<rho>"]) simp
  then show ?thesis
    using assms by (auto simp: decide_again_def Let_def split: option.splits if_splits bind_splits)
qed

lemma decide_again_spec:
  assumes "faithful os prog" "decide_again pf os policy \<rho> = Some (ds, \<rho>')"
  shows "(p, route) \<in> set ds \<Longrightarrow> agrees pf prog policy p route"
  using assms(2) decide_processes_agrees [OF assms(1)]
  by (auto simp: decide_again_def Let_def agrees_inactive split: option.splits if_splits bind_splits)

lemma decisions_ok_fold:
  assumes "\<And>p route. (p, route) \<in> set ds \<Longrightarrow> agrees pf prog policy p route" "decisions_ok pf prog policy c"
  shows "decisions_ok pf prog policy (fold (\<lambda>(p, route). dc_insert p route) ds c)"
  using assms by (induction ds arbitrary: c) (auto intro: decisions_ok_insert)

text \<open>What becomes of one flow: unless forgotten it keeps its session, or it is closing or waiting.\<close>

lemma revise_moved_spec:
  assumes "revise_moved key t s = (r, t', s')"
  shows "r = (if fk_transport key = FlowTcp then Close else Forget)"
    "t' = (if fk_transport key = FlowTcp then t\<lparr>tk_binding := BReset\<rparr> else t)"
    "length (fst s) \<le> MAX_QUEUED_RESETS \<Longrightarrow> length (fst s') \<le> MAX_QUEUED_RESETS"
  using assms
  by (auto simp: revise_moved_def queue_reset_def Let_def split: if_splits option.splits prod.splits)

lemma revise_bound_cases:
  assumes "revise_bound policy ds was key t s = (r, t', s')"
  obtains (forgotten) "was = TMain" "r = Forget" "t' = t" "s' = s"
  | (stays) b where "target_under policy b = was" "r = (if policy_is_active policy then Keep else Forget)"
      "t' = t\<lparr>tk_binding := b\<rparr>" "s' = s" "b = BMain \<or> (\<exists>route. b = BRoute route)"
      "b = BMain \<longrightarrow> (\<exists>p. tk_process t = Some p \<and> (p, None) \<in> set ds)"
  | (moved) "revise_moved key t s = (r, t', s')"
proof -
  let ?asked = "Option.bind (tk_process t) (hm_get ds)"
  let ?at = "\<lambda>b. if target_under policy b = was
    then (if policy_is_active policy then Keep else Forget, t\<lparr>tk_binding := b\<rparr>, s) else revise_moved key t s"
  have at: thesis if b: "?at b = (r, t', s')" "b = BMain \<or> (\<exists>route. b = BRoute route)"
    "b = BMain \<longrightarrow> (\<exists>p. tk_process t = Some p \<and> (p, None) \<in> set ds)" for b
  proof (cases "target_under policy b = was")
    case True
    show ?thesis by (rule stays [OF True _ _ _ b(2,3)]) (use b(1) True in auto)
  next
    case False
    show ?thesis by (rule moved) (use b(1) False in simp)
  qed
  consider "?asked = None" | "?asked = Some None" | route where "?asked = Some (Some route)" by (metis option.exhaust)
  then show ?thesis
  proof cases
    case 1
    show ?thesis
    proof (cases was)
      case TMain
      then show ?thesis using assms 1 by (intro forgotten) (simp_all add: revise_bound_def Let_def)
    next
      case (TSession session)
      show ?thesis
      proof (cases "Option.bind session (policy_route_of policy)")
        case None
        then have "revise_moved key t s = (r, t', s')" using assms 1 TSession
          by (cases session) (simp_all add: revise_bound_def Let_def)
        then show ?thesis by (rule moved)
      next
        case (Some route)
        then obtain s0 where "session = Some s0" "policy_route_of policy s0 = Some route" by (cases session) auto
        then have "?at (BRoute route) = (r, t', s')" using assms 1 TSession by (simp add: revise_bound_def Let_def)
        then show ?thesis by (rule at) auto
      qed
    qed
  next
    case 2
    then obtain p where "tk_process t = Some p" "(p, None) \<in> set ds" by (auto dest: map_of_SomeD split: bind_splits)
    moreover have "?at BMain = (r, t', s')" using assms 2 by (simp add: revise_bound_def Let_def)
    ultimately show ?thesis by (intro at [of BMain]) auto
  next
    case (3 route)
    then have "?at (BRoute route) = (r, t', s')" using assms by (simp add: revise_bound_def Let_def)
    then show ?thesis by (rule at) auto
  qed
qed

text \<open>
  A flow that is not forgotten keeps its process and its session, or it is closing, blocked or waiting;
  on main it only stays when its process was asked and has no route; a connection on a route is never
  forgotten while routing goes on.
\<close>

definition revision_ok ::
  "Policy \<Rightarrow> Policy \<Rightarrow> (ProcessKey, RouteId option) hash_map \<Rightarrow> FlowKey \<Rightarrow> Tracked \<Rightarrow> Revision \<Rightarrow> Tracked \<Rightarrow> bool" where
  "revision_ok old policy ds key t r t' \<longleftrightarrow>
     tk_process t' = tk_process t \<and> tk_app_side t' = tk_app_side t \<and>
     (r \<noteq> Forget \<longrightarrow>
        tk_binding t' = BReset \<and> (tk_binding t = BReset \<or> fk_transport key = FlowTcp \<and> r = Close) \<or>
        tk_binding t' = tk_binding t \<and> tk_binding t \<in> {BBlocked, BPending} \<or>
        tk_binding t = BMain \<and> tk_binding t' = BMain \<or>
        (\<exists>route route'. tk_binding t = BRoute route \<and> tk_binding t' = BRoute route' \<and>
           policy_session policy route' = policy_session old route)) \<and>
     (r \<noteq> Forget \<longrightarrow> tk_binding t' = BMain \<longrightarrow> (\<exists>p. tk_process t = Some p \<and> (p, None) \<in> set ds)) \<and>
     (fk_transport key = FlowTcp \<longrightarrow> policy_is_active policy \<longrightarrow> tk_binding t \<noteq> BMain \<longrightarrow> r \<noteq> Forget)"

lemma revise_bound_spec:
  assumes "revise_bound policy ds was key t s = (r, t', s')"
    and "tk_binding t = BMain \<and> was = TMain \<or>
      (\<exists>route. tk_binding t = BRoute route \<and> was = TSession (policy_session old route))"
  shows "revision_ok old policy ds key t r t' \<and>
    (length (fst s) \<le> MAX_QUEUED_RESETS \<longrightarrow> length (fst s') \<le> MAX_QUEUED_RESETS)"
  using assms(1)
proof (cases rule: revise_bound_cases)
  case forgotten
  then show ?thesis using assms(2) by (auto simp: revision_ok_def)
next
  case (stays b)
  then show ?thesis using assms(2) by (auto simp: revision_ok_def target_under_def)
next
  case moved
  note m = revise_moved_spec [OF moved]
  show ?thesis using m assms(2) by (auto simp: revision_ok_def)
qed

lemma revise_flow_spec:
  assumes "revise_flow old policy ds key t s = (r, t', s')"
  shows "revision_ok old policy ds key t r t'"
    "length (fst s) \<le> MAX_QUEUED_RESETS \<Longrightarrow> length (fst s') \<le> MAX_QUEUED_RESETS"
proof -
  have "revision_ok old policy ds key t r t' \<and>
    (length (fst s) \<le> MAX_QUEUED_RESETS \<longrightarrow> length (fst s') \<le> MAX_QUEUED_RESETS)"
  proof (cases "tk_binding t")
    case BMain
    then show ?thesis using assms revise_bound_spec [of policy ds TMain] by (auto simp: revise_flow_def)
  next
    case (BRoute route)
    then show ?thesis using assms revise_bound_spec [of policy ds "TSession (policy_session old route)"]
      by (auto simp: revise_flow_def)
  qed (use assms in \<open>auto simp: revise_flow_def revision_ok_def\<close>)
  then show "revision_ok old policy ds key t r t'"
    "length (fst s) \<le> MAX_QUEUED_RESETS \<Longrightarrow> length (fst s') \<le> MAX_QUEUED_RESETS" by auto
qed

text \<open>Every entry is asked about, and one that is not forgotten is in the revised table.\<close>

lemma revise_entries_forward:
  "revise_entries f now es s = (es', s') \<Longrightarrow> (k, e) \<in> set es \<Longrightarrow>
     \<exists>s1 r v s2. f k (en_value e) s1 = (r, v, s2) \<and>
       (r \<noteq> Forget \<longrightarrow> (\<exists>e'. (k, e') \<in> set es' \<and> en_value e' = v \<and> (r = Close \<longrightarrow> en_lifecycle e' = Closing)))"
proof (induction es arbitrary: s es' s')
  case (Cons x es)
  obtain key entry where x: "x = (key, entry)" by fastforce
  obtain r v s1 where r: "f key (en_value entry) s = (r, v, s1)" by (metis prod_cases3)
  obtain es1 s2 where rest: "revise_entries f now es s1 = (es1, s2)" by fastforce
  have sub: "set es1 \<subseteq> set es'" using Cons.prems(1) x r rest by (auto split: Revision.splits)
  show ?case
  proof (cases "(k, e) = x")
    case True
    have "r \<noteq> Forget \<longrightarrow> (\<exists>e'. (key, e') \<in> set es' \<and> en_value e' = v \<and> (r = Close \<longrightarrow> en_lifecycle e' = Closing))"
      using Cons.prems(1) x r rest by (cases r) auto
    then show ?thesis using r True x by blast
  next
    case False
    then show ?thesis using Cons.IH [OF rest] Cons.prems(2) sub by fastforce
  qed
qed simp

text \<open>An invariant of what the closure of a revision threads through.\<close>

lemma revise_entries_state:
  assumes "\<And>k v s r v' s'. f k v s = (r, v', s') \<Longrightarrow> Q s \<Longrightarrow> Q s'"
  shows "revise_entries f now es s = (es', s') \<Longrightarrow> Q s \<Longrightarrow> Q s'"
proof (induction es arbitrary: s es' s')
  case (Cons e es)
  obtain key entry where e: "e = (key, entry)" by fastforce
  obtain r v s1 where r: "f key (en_value entry) s = (r, v, s1)" by (metis prod_cases3)
  obtain es1 s2 where rest: "revise_entries f now es s1 = (es1, s2)" by fastforce
  have "s' = s2" using Cons.prems(1) e r rest by (auto split: Revision.splits)
  then show ?case using Cons.IH [OF rest] assms [OF r] Cons.prems(2) by blast
qed simp


lemma revise_flows_inv:
  assumes ds: "\<And>p route. (p, route) \<in> set ds \<Longrightarrow> agrees pf prog policy p route"
    and fl: "\<And>flows. ro_flows \<rho> = Some flows \<Longrightarrow> ft_ok flows \<and> ft_capacity flows = max n 1"
    and len: "length (ro_resets \<rho>) \<le> MAX_QUEUED_RESETS"
  shows "length (ro_resets (revise_flows policy ds now \<rho>)) \<le> MAX_QUEUED_RESETS"
    "ro_flows (revise_flows policy ds now \<rho>) = Some flows' \<Longrightarrow> flows_ok pf prog policy n flows'"
proof -
  let ?f = "revise_flow (ro_policy \<rho>) policy ds"
  have "length (ro_resets (revise_flows policy ds now \<rho>)) \<le> MAX_QUEUED_RESETS \<and>
    (\<forall>flows'. ro_flows (revise_flows policy ds now \<rho>) = Some flows' \<longrightarrow> flows_ok pf prog policy n flows')"
  proof (cases "ro_flows \<rho>")
    case (Some flows)
    obtain flows' resets counters where rev: "ft_revise ?f now flows (ro_resets \<rho>, ro_counters \<rho>) = (flows', resets, counters)"
      by (metis prod_cases3)
    have "length (fst (resets, counters)) \<le> MAX_QUEUED_RESETS"
    proof (rule revise_entries_state [where f = ?f and Q = "\<lambda>s. length (fst s) \<le> MAX_QUEUED_RESETS"])
      show "revise_entries ?f now (ft_entries flows) (ro_resets \<rho>, ro_counters \<rho>) = (ft_entries flows', resets, counters)"
        using rev by (auto simp: ft_revise_def split: prod.splits)
    qed (use len revise_flow_spec(2) in auto)
    moreover have "flow_ok pf prog policy t'" if "ft_get flows' k = Some t'" for k t'
    proof -
      have "ft_get (fst (ft_revise ?f now flows (ro_resets \<rho>, ro_counters \<rho>))) k = Some t'" using that rev by simp
      from ft_get_revise [OF _ this] fl [OF Some] obtain t s1 r s2 where "?f k t s1 = (r, t', s2)" "r \<noteq> Forget" by blast
      then have "revision_ok (ro_policy \<rho>) policy ds k t r t'" "r \<noteq> Forget" using revise_flow_spec(1) by auto
      then show ?thesis using ds by (auto simp: revision_ok_def flow_ok_def)
    qed
    moreover have "ft_ok flows' \<and> ft_capacity flows' = max n 1"
      using ft_ok_revise [of flows ?f now "(ro_resets \<rho>, ro_counters \<rho>)"]
        ft_capacity_ops(6) [of ?f now flows "(ro_resets \<rho>, ro_counters \<rho>)"] fl [OF Some] rev by simp
    ultimately show ?thesis using Some rev by (simp add: revise_flows_def flows_ok_def)
  qed (use len in \<open>simp add: revise_flows_def\<close>)
  then show "length (ro_resets (revise_flows policy ds now \<rho>)) \<le> MAX_QUEUED_RESETS"
    "ro_flows (revise_flows policy ds now \<rho>) = Some flows' \<Longrightarrow> flows_ok pf prog policy n flows'" by auto
qed

lemma revise_flows_frame:
  "ro_decisions (revise_flows policy ds now \<rho>) = ro_decisions \<rho>"
  "ro_flow_capacity (revise_flows policy ds now \<rho>) = ro_flow_capacity \<rho>"
  "ro_uplink_fragments (revise_flows policy ds now \<rho>) = ro_uplink_fragments \<rho>"
  "ro_downlink_fragments (revise_flows policy ds now \<rho>) = ro_downlink_fragments \<rho>"
  by (auto simp: revise_flows_def split: option.splits prod.splits)

text \<open>The flows a new policy revises: those tracked, in a table made for it when there was none.\<close>

definition flows_for :: "Policy \<Rightarrow> 'r Router \<Rightarrow> Tracked FlowTable option" where
  "flows_for policy \<rho> =
     (if policy_is_active policy \<and> ro_flows \<rho> = None then Some (ft_new (ro_flow_capacity \<rho>)) else ro_flows \<rho>)"

lemma set_policy_cases:
  assumes "set_policy pf os policy now \<rho> = Some \<rho>'"
  obtains ds \<rho>1 r where "decide_again pf os policy \<rho>1 = Some (ds, \<rho>1\<lparr>ro_resolver := r\<rparr>)"
    "ro_flows \<rho>1 = flows_for policy \<rho>" "ro_policy \<rho>1 = ro_policy \<rho>" "ro_resets \<rho>1 = ro_resets \<rho>"
    "ro_flow_capacity \<rho>1 = ro_flow_capacity \<rho>" "ro_decisions \<rho>1 = dc_clear (ro_decisions \<rho>)"
    "ro_uplink_fragments \<rho>1 = fm_clear (ro_uplink_fragments \<rho>)"
    "ro_downlink_fragments \<rho>1 = fm_clear (ro_downlink_fragments \<rho>)" "ro_counters \<rho>1 = ro_counters \<rho>"
    "\<rho>' = (revise_flows policy ds now (\<rho>1\<lparr>ro_resolver := r, ro_decisions :=
       fold (\<lambda>(process, route). dc_insert process route) ds (ro_decisions \<rho>1)\<rparr>))\<lparr>ro_policy := policy\<rparr>"
proof -
  define \<rho>0 where "\<rho>0 = (if policy_is_active policy \<and> ro_flows \<rho> = None
               then \<rho>\<lparr>ro_flows := Some (ft_new (ro_flow_capacity \<rho>))\<rparr> else \<rho>)"
  let ?\<rho> = "\<rho>0\<lparr>ro_uplink_fragments := fm_clear (ro_uplink_fragments \<rho>0),
                 ro_downlink_fragments := fm_clear (ro_downlink_fragments \<rho>0),
                 ro_decisions := dc_clear (ro_decisions \<rho>0),
                 ro_resolver := os_watch_programs os (po_apps policy) (ro_resolver \<rho>0),
                 ro_snapshot_taken := None\<rparr>"
  from assms obtain ds \<rho>1 where d: "decide_again pf os policy ?\<rho> = Some (ds, \<rho>1)"
    and \<rho>': "\<rho>' = (revise_flows policy ds now (\<rho>1\<lparr>ro_decisions :=
       fold (\<lambda>(process, route). dc_insert process route) ds (ro_decisions \<rho>1)\<rparr>))\<lparr>ro_policy := policy\<rparr>"
    unfolding set_policy_def Let_def \<rho>0_def [symmetric] by (auto split: bind_splits)
  obtain r where r: "\<rho>1 = ?\<rho>\<lparr>ro_resolver := r\<rparr>" using decide_again_frame [OF d] by blast
  show ?thesis by (rule that [of ?\<rho> ds r]) (use d r \<rho>' in \<open>auto simp: \<rho>0_def flows_for_def\<close>)
qed

lemma set_policy_inv:
  assumes f: "faithful os prog" and inv: "router_inv pf prog n \<rho>" and sp: "set_policy pf os policy now \<rho> = Some \<rho>'"
  shows "router_inv pf prog n \<rho>'"
  using sp
proof (cases rule: set_policy_cases)
  case (1 ds \<rho>1 r)
  let ?\<rho> = "\<rho>1\<lparr>ro_resolver := r, ro_decisions := fold (\<lambda>(process, route). dc_insert process route) ds (ro_decisions \<rho>1)\<rparr>"
  note ag = decide_again_spec [OF f 1(1)]
  have i: "ro_flow_capacity \<rho> = n" "length (ro_resets \<rho>) \<le> MAX_QUEUED_RESETS" "dc_ok (ro_decisions \<rho>)"
    "dc_capacity (ro_decisions \<rho>) = PROCESS_CAPACITY"
    using inv by (auto simp: router_inv_def decisions_ok_def)
  have "decisions_ok pf prog policy (ro_decisions \<rho>1)"
    using i by (simp add: decisions_ok_def 1(6)) (simp add: dc_clear_def)
  then have d: "decisions_ok pf prog policy (ro_decisions ?\<rho>)" using ag by (simp add: decisions_ok_fold)
  have "ft_ok flows \<and> ft_capacity flows = max n 1" if "flows_for policy \<rho> = Some flows" for flows
    using that inv ft_ok_new(1) [of n] i(1) by (auto simp: flows_for_def router_inv_def flows_ok_def split: if_splits)
  then have fl: "ft_ok flows \<and> ft_capacity flows = max n 1" if "ro_flows ?\<rho> = Some flows" for flows using that 1(2) by simp
  have len: "length (ro_resets ?\<rho>) \<le> MAX_QUEUED_RESETS" using i(2) 1(4) by simp
  show ?thesis using revise_flows_inv [of ds pf prog policy ?\<rho> n now, OF ag fl len] d i(1)
    by (simp add: router_inv_def 1(5,7,8,10) revise_flows_frame)
qed

lemma router_call_inv:
  assumes f: "faithful os prog" and inv: "router_inv pf prog n \<rho>" and c: "router_call pf os c \<rho> = Some \<rho>'"
  shows "router_inv pf prog n \<rho>'"
proof (cases c)
  case (CallUplink started packet arrived)
  then obtain v packet' where "uplink pf os started packet arrived \<rho> = Some (v, packet', \<rho>')" using c by auto
  then show ?thesis by (rule uplink_inv(1) [OF f inv])
next
  case (CallDownlink route packet now)
  then obtain d packet' where "downlink route packet now \<rho> = Some (d, packet', \<rho>')" using c by auto
  then show ?thesis using downlink_inv [OF inv] by blast
next
  case (CallSetRouteState route state)
  have "agrees pf prog (p\<lparr>po_routes := rs\<rparr>) q = agrees pf prog p q" for p rs q
    by (simp add: agrees_def fun_eq_iff)
  then show ?thesis using inv c CallSetRouteState
    by (auto simp: set_route_state_def Let_def router_inv_def decisions_ok_def flows_ok_def flow_ok_def split: if_splits)
next
  case CallTakeResets
  then show ?thesis using inv c by (auto simp: take_resets_def router_inv_def)
qed (use inv c complete_inv [OF f inv] set_policy_inv [OF f inv] in
      \<open>auto simp: take_owner_queries_def defer_owner_lookups_def\<close>)

lemma router_inv_start: "router_inv pf prog n (with_capacity pf r n)"
  by (simp add: router_inv_def with_capacity_def decisions_ok_def) (simp add: dc_new_def PROCESS_CAPACITY_def)

lemma router_run_inv:
  assumes "faithful os prog" "router_run pf os cs (with_capacity pf r n) = Some \<rho>"
  shows "router_inv pf prog n \<rho>"
  by (rule router_run_invariant [where I = "router_inv pf prog n", OF router_call_inv [OF assms(1)] assms(2) router_inv_start])

end
