(* ===== verification/Router_Safety.thy ===== *)
theory Router_Safety
  imports Router_Properties
begin

text \<open>
  What the router guarantees over its runs: a program with a route never reaches the main session, a
  route delivers only to its own flows, a new policy moves no connection to another session, and every
  cache stays within its bound.
\<close>

section \<open>A sample run\<close>

text \<open>
  A host with one process running \<open>/b\<close> that holds every socket, and a policy that routes \<open>/a\<close>, or
  \<open>/b\<close>, over a connected route.
\<close>

definition sample_platform :: Platform where
  "sample_platform = \<lparr>pf_host = LinuxOs, pf_canonicalize = (\<lambda>_. None), pf_to_lowercase = (\<lambda>s. s)\<rparr>"

definition sample_process :: ProcessKey where
  "sample_process = \<lparr>pk_pid = 7, pk_start_time = 1, pk_image = 1\<rparr>"

definition sample_os :: "unit OwnerResolver" where
  "sample_os =
     \<lparr>os_socket_owner = (\<lambda>_ r. (Some 7, r)), os_owner = (\<lambda>_ r. (OwnerProcess 7, r)), os_watch_programs = (\<lambda>_ r. r),
      os_refresh = (\<lambda>r. (Inr (), r)), os_process_key = (\<lambda>_ r. (Some sample_process, r)),
      os_executable = (\<lambda>_ r. (Some [0x2F, 0x62], r))\<rparr>"

definition sample_policy :: "byte \<Rightarrow> Policy" where
  "sample_policy c =
     \<lparr>po_main = \<lparr>ad_v4 = Some 0x0a400002, ad_v6 = None\<rparr>,
      po_apps = \<lparr>am_flavor = LinuxOs, am_apps = [([0x2F, c], RouteId 0)]\<rparr>,
      po_routes = [RouteConnected \<lparr>ad_v4 = Some 0x0a6311c9, ad_v6 = None\<rparr>], po_sessions = [SessionId 5]\<rparr>"

abbreviation sample_programs :: "ProcessKey \<Rightarrow> bytes option" where
  "sample_programs \<equiv> \<lambda>_. Some [0x2F, 0x62]"

lemma sample_faithful: "faithful sample_os sample_programs"
  by (simp add: faithful_def sample_os_def)

lemma sample_lossy: "to_string_lossy [0x2F, 0x62] = [0x2F, 0x62]"
  by (simp add: to_string_lossy.simps utf8_head.simps)

lemma sample_lookup:
  "am_lookup sample_platform (po_apps (sample_policy c)) [0x2F, 0x62] = Some (if c = 0x62 then Some (RouteId 0) else None)"
  by (simp add: am_lookup_def sample_policy_def app_key_def sample_lossy linux_key_def strip_suffix_def deleted_def unwrap_or_def)

lemma sample_policy_new:
  "policy_new sample_platform \<lparr>ad_v4 = Some 0x0a400002, ad_v6 = None\<rparr> [([0x2F, 0x62], RouteId 0)]
     [RouteConnected \<lparr>ad_v4 = Some 0x0a6311c9, ad_v6 = None\<rparr>] = Some (Inr ((sample_policy 0x62)\<lparr>po_sessions := [SessionId 0]\<rparr>))"
  by (simp add: policy_new_def am_new_def sample_platform_def app_key_def sample_lossy linux_key_def strip_suffix_def
      deleted_def unwrap_or_def sample_policy_def hm_insert_def)

definition sample_udp_key :: FlowKey where
  "sample_udp_key = \<lparr>fk_transport = FlowUdp, fk_local = SocketV4 0x0a400002 50000, fk_remote = SocketV4 0xc6336409 53\<rparr>"

lemma sample_classify: "classify sample_packet Uplink = Some (Inr (CFlow sample_udp_key 0 None))"
  using sample_locate
  by (simp add: classify_def packet_src_def packet_dst_def src_range_def dst_range_def read_addr_def slice_def sample_packet_def
      classify_transport_def proto_defs ports_def u16_at_def index_def u16_from_be_def from_be_def transport_flow_def
      oriented_def socket_new_def sample_udp_key_def Let_def)


definition sample_router :: "byte \<Rightarrow> unit Router" where
  "sample_router c =
     (with_capacity sample_platform () 16)\<lparr>ro_policy := sample_policy c, ro_flows := Some (ft_new 16)\<rparr>"

lemma sample_run:
  "router_run sample_platform sample_os [CallSetPolicy (sample_policy c) 0] (with_capacity sample_platform () 16) =
     Some (sample_router c)"
  by (simp add: set_policy_def decide_again_def revise_flows_def ft_revise_def ft_values_def ft_new_def with_capacity_def
      policy_is_active_def am_is_empty_def sample_policy_def fm_clear_def fm_new_def dc_clear_def dc_new_def
      sample_router_def sample_os_def map_filter_simps Let_def)

definition sample_tracked :: Tracked where
  "sample_tracked = \<lparr>tk_binding = BRoute (RouteId 0), tk_process = Some sample_process, tk_app_side = app_side_default\<rparr>"

definition sample_flows :: "Tracked FlowTable" where
  "sample_flows = ft_insert sample_udp_key sample_tracked Uplink 0 0 (ft_new 16)"

lemma sample_flow_binding:
  "\<exists>\<rho>'. flow_binding sample_platform sample_os 0 sample_udp_key 0 None 0 (sweep 0 (sample_router 0x62)) =
      Some (BRoute (RouteId 0), \<rho>') \<and> ro_flows \<rho>' = Some sample_flows \<and> ro_policy \<rho>' = sample_policy 0x62"
proof -
  have a: "policy_is_active (sample_policy 0x62)" by (simp add: policy_is_active_def am_is_empty_def sample_policy_def)
  have e: "ft_lookup_mut sample_udp_key Uplink 0 0 (ft_expire 0 (ft_new 16)) = (None, ft_new 16 :: Tracked FlowTable)"
    by (simp add: ft_lookup_mut_def ft_expire_def ft_new_def)
  have u: "fk_transport sample_udp_key = FlowUdp" "\<not> is_opening sample_udp_key 0"
    by (simp_all add: sample_udp_key_def is_opening_def)
  show ?thesis
    by (simp add: flow_binding_def sweep_def sample_router_def with_capacity_def e a u attribute_def ensure_fresh_view_def
        sample_os_def is_ok_def router_decide_def sample_lookup bind_route_def sample_flows_def sample_tracked_def Let_def)
qed

lemma sample_uplink:
  "\<exists>q \<rho>'. uplink sample_platform sample_os 0 sample_packet 0 (sample_router 0x62) = Some (VRoute (RouteId 0), q, \<rho>') \<and>
     ro_flows \<rho>' = Some sample_flows"
proof -
  obtain \<rho>1 where fb: "flow_binding sample_platform sample_os 0 sample_udp_key 0 None 0 (sweep 0 (sample_router 0x62)) =
      Some (BRoute (RouteId 0), \<rho>1)" "ro_flows \<rho>1 = Some sample_flows" "ro_policy \<rho>1 = sample_policy 0x62"
    using sample_flow_binding by blast
  obtain q where q: "rewrite_source sample_packet sample_route = Some (Inr q)"
    using sample_rewrite by (auto simp: rewrite_source_def)
  have src: "packet_src sample_layout sample_packet = Some (V4 0x0a400002)"
    by (simp add: packet_src_def src_range_def read_addr_def slice_def sample_packet_def from_be_def)
  have u: "fk_transport sample_udp_key = FlowUdp" by (simp add: sample_udp_key_def)
  have "router_is_active (sample_router 0x62)"
    by (simp add: router_is_active_def policy_is_active_def am_is_empty_def sample_router_def sample_policy_def)
  then show ?thesis using fb q src
    by (simp add: uplink_def sample_classify apply_uplink_def vec_get_def sample_policy_def for_family_of_def
        sample_locate sample_route_def u Let_def)
qed

section \<open>Uplink\<close>

lemma rewrite_source_addresses:
  assumes "rewrite_source packet new = Some (Inr packet')"
  shows "\<exists>l. locate packet' = Some (Inr l) \<and> packet_src l packet' = Some new \<and> packet_dst l packet' = packet_dst l packet"
proof -
  obtain l b where t: "translates SideSource new l b packet packet'"
    using rewrite_translates [of packet new SideSource packet'] assms by (auto simp: rewrite_source_def)
  show ?thesis using translates_addresses [OF t] t by (intro exI [of _ l]) (simp add: packet_address_def translates_def)
qed

lemma rewrite_destination_addresses:
  assumes "rewrite_destination packet new = Some (Inr packet')"
  shows "\<exists>l. locate packet' = Some (Inr l) \<and> packet_dst l packet' = Some new \<and> packet_src l packet' = packet_src l packet"
proof -
  obtain l b where t: "translates SideDestination new l b packet packet'"
    using rewrite_translates [of packet new SideDestination packet'] assms by (auto simp: rewrite_destination_def)
  show ?thesis using translates_addresses [OF t] t by (intro exI [of _ l]) (simp add: packet_address_def translates_def)
qed

text \<open>
  C32. An app with a route never reaches the main session: in every run of the router over a resolver
  that reads programs faithfully, a packet of a flow whose process runs a program the policy routes is
  held, dropped or sent through a connected route, whatever policies came before and however the host
  changed. Sent through a route, its source was the main address and is that route's own address now,
  its destination is what it was; held or dropped, it is not touched.
\<close>

theorem routed_apps_stay_off_main:
  assumes "faithful os prog"
    and "router_run pf os cs (with_capacity pf r n) = Some \<rho>"
    and "uplink pf os started packet arrived \<rho> = Some (v, packet', \<rho>')"
    and "classify packet Uplink = Some (Inr (CFlow key flags fragment))"
    and "live_flow \<rho>' key arrived = Some t" "tk_process t = Some p" "prog p = Some e"
    and "am_lookup pf (po_apps (ro_policy \<rho>)) e = Some (Some route)"
  shows "case v of
      VMain \<Rightarrow> False
    | VRoute route' \<Rightarrow> \<exists>addresses l l' src new.
        vec_get (po_routes (ro_policy \<rho>)) (unat (route_num route')) = Some (RouteConnected addresses) \<and>
        locate packet = Some (Inr l) \<and> packet_src l packet = Some src \<and>
        for_family_of (po_main (ro_policy \<rho>)) src = Some src \<and> for_family_of addresses src = Some new \<and>
        locate packet' = Some (Inr l') \<and> packet_src l' packet' = Some new \<and> packet_dst l' packet' = packet_dst l' packet
    | _ \<Rightarrow> packet' = packet"
proof -
  note inv = router_run_inv [OF assms(1,2)]
  have "router_is_active \<rho>"
  proof (rule ccontr)
    assume "\<not> router_is_active \<rho>"
    then have "live_flow \<rho>' key arrived = None"
      using assms(3) by (auto simp: uplink_def router_is_active_def live_flow_def ft_is_empty_def ft_peek_def split: option.splits)
    then show False using assms(5) by simp
  qed
  from assms(3) this assms(4) show ?thesis
  proof (cases rule: uplink_flow)
    case (1 seg b \<rho>1 \<rho>2)
    note fb = flow_binding_spec [OF assms(1) sweep_inv(1) [OF inv] 1(1)]
    have pol: "ro_policy \<rho>2 = ro_policy \<rho>" using fb(2) 1(4) sweep_inv(2) by metis
    have "ro_flows \<rho>' = ro_flows \<rho>1"
    proof (cases "b = BPending")
      case False
      then show ?thesis using 1(3,5) apply_uplink_frame(1) [of b packet \<rho>2 v packet' \<rho>'] by auto
    qed (use 1(3,5) in auto)
    then have "live_flow \<rho>1 key arrived = Some t" using assms(5) by (simp add: live_flow_def)
    then have tb: "tk_binding t = b" by (rule fb(3))
    obtain flows where fl: "ro_flows \<rho>1 = Some flows" "ft_peek key arrived flows = Some t"
      using \<open>live_flow \<rho>1 key arrived = Some t\<close> by (auto simp: live_flow_def split: bind_splits)
    have "flow_ok pf prog (ro_policy \<rho>1) t"
      using router_invD(2) [OF fb(1) fl(1)] ft_peek_get [OF fl(2)] by (auto simp: flows_ok_def)
    then have "b \<noteq> BMain" using assms(6-8) tb pol 1(4) by (auto simp: flow_ok_def agrees_def)
    show ?thesis
    proof (cases "b = BPending")
      case False
      then have up: "apply_uplink b packet \<rho>2 = Some (v, packet', \<rho>')" using 1(5) by simp
      note frame = apply_uplink_frame(2-5) [OF up]
      show ?thesis
      proof (cases v)
        case (VRoute route')
        then obtain addresses l src new where
          "vec_get (po_routes (ro_policy \<rho>)) (unat (route_num route')) = Some (RouteConnected addresses)"
          "locate packet = Some (Inr l)" "packet_src l packet = Some src"
          "for_family_of (po_main (ro_policy \<rho>)) src = Some src" "for_family_of addresses src = Some new"
          "rewrite_source packet new = Some (Inr packet')"
          using frame(4) pol by auto
        with rewrite_source_addresses [of packet new packet'] VRoute show ?thesis by fastforce
      qed (use frame(1-3) \<open>b \<noteq> BMain\<close> in auto)
    qed (use 1(5) in simp)
  qed
qed

theorem routed_apps_stay_off_main_witness:
  "\<exists>packet' \<rho>'. uplink sample_platform sample_os 0 sample_packet 0 (sample_router 0x62) =
       Some (VRoute (RouteId 0), packet', \<rho>') \<and>
     (\<exists>l new. locate packet' = Some (Inr l) \<and> packet_src l packet' = Some new)"
proof -
  obtain q \<rho>' where up: "uplink sample_platform sample_os 0 sample_packet 0 (sample_router 0x62) = Some (VRoute (RouteId 0), q, \<rho>')"
    "ro_flows \<rho>' = Some sample_flows"
    using sample_uplink by blast
  have lk: "am_lookup sample_platform (po_apps (ro_policy (sample_router 0x62))) [0x2F, 0x62] = Some (Some (RouteId 0))"
    using sample_lookup [of "0x62"] by (simp add: sample_router_def)
  have "live_flow \<rho>' sample_udp_key 0 = Some sample_tracked"
    using up(2) by (simp add: live_flow_def sample_flows_def ft_peek_insert)
  from routed_apps_stay_off_main [OF sample_faithful sample_run up(1) sample_classify this _ _ lk, of sample_process] up(1)
  show ?thesis by (auto simp: sample_tracked_def)
qed

section \<open>Downlink\<close>

text \<open>A flow of the route: a live entry of the table bound to it.\<close>

definition of_route :: "'r Router \<Rightarrow> RouteId \<Rightarrow> instant \<Rightarrow> FlowKey \<Rightarrow> bool" where
  "of_route \<rho> route now key \<longleftrightarrow> (\<exists>t. live_flow \<rho> key now = Some t \<and> tk_binding t = BRoute route)"

lemma router_peek_route: "router_peek key now \<rho> = Some (BRoute route) \<longleftrightarrow> of_route \<rho> route now key"
  by (auto simp: router_peek_def of_route_def live_flow_def split: bind_splits)

text \<open>Entries a table keeps through a lookup of another flow.\<close>

definition entry_of :: "'r Router \<Rightarrow> FlowKey \<Rightarrow> Tracked Entry option" where
  "entry_of \<rho> key = Option.bind (ro_flows \<rho>) (\<lambda>flows. hm_get (ft_entries flows) key)"

lemma router_lookup_other:
  "k \<noteq> key \<Longrightarrow> entry_of (snd (router_lookup key d flags now \<rho>)) k = entry_of \<rho> k"
  by (auto simp: entry_of_def router_lookup_def ft_lookup_def ft_lookup_mut_def Let_def split: option.splits prod.splits if_splits)

lemma downlink_main_spec:
  assumes "downlink_main route addresses c now \<rho> = Some (main, \<rho>')"
  shows "(\<exists>ip. for_family_of (po_main (ro_policy \<rho>)) ip = Some main) \<and>
    (case c of
       CFlow key _ _ \<Rightarrow> for_family_of addresses (sock_ip (fk_local key)) = Some (sock_ip (fk_local key)) \<and>
         of_route \<rho> route now (key\<lparr>fk_local := socket_new main (sock_port (fk_local key))\<rparr>)
     | CIcmpError key \<Rightarrow> for_family_of addresses (sock_ip (fk_local key)) = Some (sock_ip (fk_local key)) \<and>
         of_route \<rho> route now (key\<lparr>fk_local := socket_new main (sock_port (fk_local key))\<rparr>)
     | CLaterFragment f \<Rightarrow> fm_get f now (ro_downlink_fragments \<rho>) = Some (BRoute route)
     | COther \<Rightarrow> False) \<and>
    (\<forall>k. \<not> of_route \<rho> route now k \<longrightarrow> entry_of \<rho>' k = entry_of \<rho> k)"
proof (cases c)
  case (CFlow key flags fragment)
  then obtain original where o: "original_flow key addresses \<rho> = Some (original, main)" "of_route \<rho> route now original"
    and \<rho>': "ro_flows \<rho>' = ro_flows (snd (router_lookup original Downlink flags now \<rho>))"
    using assms by (auto simp: downlink_main_def router_peek_route Let_def split: bind_splits if_splits option.splits)
  have "entry_of \<rho>' k = entry_of \<rho> k" if "\<not> of_route \<rho> route now k" for k
    using router_lookup_other [of k original Downlink flags now \<rho>] \<rho>' that o(2) by (auto simp: entry_of_def)
  with o CFlow show ?thesis
    by (auto simp: original_flow_def Let_def split: if_splits bind_splits)
next
  case (CIcmpError key)
  then show ?thesis using assms
    by (auto simp: downlink_main_def router_peek_route original_flow_def Let_def split: bind_splits if_splits)
qed (use assms in \<open>auto simp: downlink_main_def split: bind_splits if_splits\<close>)

text \<open>
  C33. Route isolation: a packet a route session delivers reaches the host only while that route is
  connected and only as a packet of a live flow bound to that very route, or a later fragment of one:
  it was sent to the route's own address, and its destination is the main address now. Whatever a
  route delivers, no entry of a flow that the route does not carry changes, and a packet that is not
  delivered is not touched.
\<close>

theorem route_deliveries:
  assumes "downlink route packet now \<rho> = Some (d, packet', \<rho>')"
  shows "(d = Deliver \<longrightarrow> (\<exists>addresses c main l.
      vec_get (po_routes (ro_policy \<rho>)) (unat (route_num route)) = Some (RouteConnected addresses) \<and>
      classify packet Downlink = Some (Inr c) \<and>
      (case c of
         CFlow key _ _ \<Rightarrow> for_family_of addresses (sock_ip (fk_local key)) = Some (sock_ip (fk_local key)) \<and>
           of_route \<rho> route now (key\<lparr>fk_local := socket_new main (sock_port (fk_local key))\<rparr>)
       | CIcmpError key \<Rightarrow> for_family_of addresses (sock_ip (fk_local key)) = Some (sock_ip (fk_local key)) \<and>
           of_route \<rho> route now (key\<lparr>fk_local := socket_new main (sock_port (fk_local key))\<rparr>)
       | CLaterFragment f \<Rightarrow> fm_get f now (ro_downlink_fragments \<rho>) = Some (BRoute route)
       | COther \<Rightarrow> False) \<and>
      (\<exists>ip. for_family_of (po_main (ro_policy \<rho>)) ip = Some main) \<and>
      locate packet' = Some (Inr l) \<and> packet_dst l packet' = Some main \<and> packet_src l packet' = packet_src l packet)) \<and>
    (d = NoDelivery \<longrightarrow> packet' = packet) \<and>
    (\<forall>k. \<not> of_route \<rho> route now k \<longrightarrow> entry_of \<rho>' k = entry_of \<rho> k)"
proof -
  have frame: "entry_of (count f \<rho>) k = entry_of \<rho> k" for f k and \<rho> :: "'a Router" by (simp add: entry_of_def)
  consider (nothing) "d = NoDelivery" "packet' = packet" "\<And>k. entry_of \<rho>' k = entry_of \<rho> k"
    | (main) addresses c main \<rho>1 where
      "vec_get (po_routes (ro_policy \<rho>)) (unat (route_num route)) = Some (RouteConnected addresses)"
      "classify packet Downlink = Some (Inr c)" "downlink_main route addresses c now \<rho> = Some (main, \<rho>1)"
      "d = NoDelivery \<and> packet' = packet \<or> d = Deliver \<and> rewrite_destination packet main = Some (Inr packet')"
      "\<And>k. entry_of \<rho>' k = entry_of \<rho>1 k"
    using assms
    by (auto simp: downlink_def not_delivered_def frame Let_def
        split: if_splits option.splits RouteState.splits sum.splits prod.splits)
  then show ?thesis
  proof cases
    case main
    note m = downlink_main_spec [OF main(3)]
    show ?thesis
    proof (cases d)
      case Deliver
      obtain l where "locate packet' = Some (Inr l)" "packet_dst l packet' = Some main" "packet_src l packet' = packet_src l packet"
        using rewrite_destination_addresses main(4) Deliver by blast
      then show ?thesis using m main(1,2,5) Deliver by (simp add: main(5))
    qed (use m main in auto)
  qed simp
qed


text \<open>The answer of the remote end of the sample flow, delivered by the route.\<close>

definition sample_reply :: bytes where
  "sample_reply =
     [69, 0, 0, 30, 0, 0, 64, 0, 64, 17, 6, 81, 198, 51, 100, 9, 10, 99, 17, 201, 0, 53, 195, 80, 0, 10, 159, 108, 104, 105]"

definition sample_carrying :: "unit Router" where
  "sample_carrying = (sample_router 0x62)\<lparr>ro_flows := Some sample_flows\<rparr>"

lemma sample_reply_located: "locate sample_reply = Some (Inr sample_layout)"
  by (simp add: locate_def locate_with_def index_def locate_v4_eq Let_def u16_from_be_def from_be_def sample_reply_def)

lemma sample_reply_classify:
  "classify sample_reply Downlink = Some (Inr (CFlow (sample_udp_key\<lparr>fk_local := SocketV4 0x0a6311c9 50000\<rparr>) 0 None))"
  using sample_reply_located
  by (simp add: classify_def packet_src_def packet_dst_def src_range_def dst_range_def read_addr_def slice_def sample_reply_def
      classify_transport_def proto_defs ports_def u16_at_def index_def u16_from_be_def from_be_def transport_flow_def
      oriented_def socket_new_def sample_udp_key_def Let_def)

theorem route_deliveries_witness:
  "\<exists>packet' \<rho>' l main. downlink (RouteId 0) sample_reply 0 sample_carrying = Some (Deliver, packet', \<rho>') \<and>
     locate packet' = Some (Inr l) \<and> packet_dst l packet' = Some main"
proof -
  have "\<exists>q. rewrite sample_reply (V4 0x0a400002) SideDestination = Some (Inr q)"
    using sample_reply_located by (auto simp: rewrite_Ok_iff family_len_def addr_of_def)
  then obtain q where q: "rewrite_destination sample_reply (V4 0x0a400002) = Some (Inr q)"
    by (auto simp: rewrite_destination_def)
  have own: "original_flow (sample_udp_key\<lparr>fk_local := SocketV4 0x0a6311c9 50000\<rparr>)
      \<lparr>ad_v4 = Some 0x0a6311c9, ad_v6 = None\<rparr> sample_carrying = Some (sample_udp_key, V4 0x0a400002)"
    by (simp add: original_flow_def for_family_of_def sample_carrying_def sample_router_def sample_policy_def
        sample_udp_key_def socket_new_def Let_def)
  have peek: "router_peek sample_udp_key 0 sample_carrying = Some (BRoute (RouteId 0))"
    by (simp add: router_peek_def sample_carrying_def sample_flows_def sample_tracked_def ft_peek_insert)
  have pol: "ro_policy sample_carrying = sample_policy 0x62" "policy_is_active (sample_policy 0x62)"
    by (simp_all add: sample_carrying_def sample_router_def policy_is_active_def am_is_empty_def sample_policy_def)
  have "\<exists>\<rho>'. downlink (RouteId 0) sample_reply 0 sample_carrying = Some (Deliver, q, \<rho>')"
    using q own peek pol sample_reply_classify
    by (simp add: downlink_def downlink_main_def vec_get_def sample_policy_def Let_def)
  then obtain \<rho>' where d: "downlink (RouteId 0) sample_reply 0 sample_carrying = Some (Deliver, q, \<rho>')" by blast
  from route_deliveries [OF d] d show ?thesis by blast
qed

section \<open>A new policy\<close>

lemma set_policy_entries:
  assumes run: "router_run pf os cs (with_capacity pf r n) = Some \<rho>" and sp: "set_policy pf os policy now \<rho> = Some \<rho>'"
  obtains ds where
    "\<And>k e'. entry_of \<rho>' k = Some e' \<Longrightarrow> \<exists>e s1 rev s2. entry_of \<rho> k = Some e \<and>
       revise_flow (ro_policy \<rho>) policy ds k (en_value e) s1 = (rev, en_value e', s2) \<and> rev \<noteq> Forget"
    "\<And>k e. entry_of \<rho> k = Some e \<Longrightarrow> \<exists>s1 rev v s2.
       revise_flow (ro_policy \<rho>) policy ds k (en_value e) s1 = (rev, v, s2) \<and>
       (rev \<noteq> Forget \<longrightarrow> (\<exists>e'. entry_of \<rho>' k = Some e' \<and> en_value e' = v \<and> (rev = Close \<longrightarrow> en_lifecycle e' = Closing)))"
  using sp
proof (cases rule: set_policy_cases)
  case (1 ds \<rho>1 r')
  let ?f = "revise_flow (ro_policy \<rho>) policy ds" and ?s = "(ro_resets \<rho>, ro_counters \<rho>)"
  show ?thesis
  proof (cases "flows_for policy \<rho>")
    case None
    then have "ro_flows \<rho>' = None" "ro_flows \<rho> = None"
      using 1(2,10) by (auto simp: revise_flows_def flows_for_def split: if_splits)
    then show ?thesis by (intro that [of ds]) (simp_all add: entry_of_def)
  next
    case (Some flows)
    obtain es s' where es: "revise_entries ?f now (ft_entries flows) ?s = (es, s')"
      by (cases "revise_entries ?f now (ft_entries flows) ?s") auto
    have inv: "router_inv pf (\<lambda>_. None) n \<rho>" by (rule router_run_inv [OF faithful_unknown run])
    have ok: "hm_ok (ft_entries flows)"
      using Some inv ft_ok_new(1) [of n] by (auto simp: flows_for_def router_inv_def flows_ok_def ft_ok_def split: if_splits)
    then have ok': "hm_ok es" using revise_entries_keys [OF es] by simp
    have old: "entry_of \<rho> k = hm_get (ft_entries flows) k" for k
      using Some by (auto simp: entry_of_def flows_for_def ft_new_def split: if_splits)
    have new: "entry_of \<rho>' k = hm_get es k" for k
      using Some 1(2-4,9,10) es by (auto simp: entry_of_def revise_flows_def ft_revise_def split: prod.splits)
    show ?thesis
    proof (rule that [of ds])
      fix k e'
      assume "entry_of \<rho>' k = Some e'"
      then have "(k, e') \<in> set es" by (simp add: new map_of_SomeD)
      from revise_entries_source [OF es this] show "\<exists>e s1 rev s2. entry_of \<rho> k = Some e \<and>
          ?f k (en_value e) s1 = (rev, en_value e', s2) \<and> rev \<noteq> Forget"
        using ok by (auto simp: old)
    next
      fix k e
      assume "entry_of \<rho> k = Some e"
      then have "(k, e) \<in> set (ft_entries flows)" by (simp add: old map_of_SomeD)
      from revise_entries_forward [OF es this] show "\<exists>s1 rev v s2. ?f k (en_value e) s1 = (rev, v, s2) \<and>
          (rev \<noteq> Forget \<longrightarrow> (\<exists>e'. entry_of \<rho>' k = Some e' \<and> en_value e' = v \<and> (rev = Close \<longrightarrow> en_lifecycle e' = Closing)))"
        using ok' by (auto simp: new)
    qed
  qed
qed


text \<open>
  C34. A new policy moves no connection: in every run, a flow tracked after the policy changed was tracked
  before, for the same process, and it stays on main, or on a route that holds the session it was
  opened through, or is closing, blocked or waiting for its owner. A TCP connection on a route is never
  silently forgotten while routing goes on: it keeps its session or is reset toward its app and closes.
\<close>

theorem policy_change_moves_nothing:
  assumes "router_run pf os cs (with_capacity pf r n) = Some \<rho>" "set_policy pf os policy now \<rho> = Some \<rho>'"
  shows "(\<forall>k e'. entry_of \<rho>' k = Some e' \<longrightarrow> (\<exists>e. entry_of \<rho> k = Some e \<and>
       tk_process (en_value e') = tk_process (en_value e) \<and>
       (case tk_binding (en_value e') of
          BMain \<Rightarrow> tk_binding (en_value e) = BMain
        | BRoute route' \<Rightarrow> \<exists>route. tk_binding (en_value e) = BRoute route \<and>
            policy_session policy route' = policy_session (ro_policy \<rho>) route
        | BReset \<Rightarrow> tk_binding (en_value e) = BReset \<or> fk_transport k = FlowTcp
        | b \<Rightarrow> tk_binding (en_value e) = b))) \<and>
    (\<forall>k e route. entry_of \<rho> k = Some e \<longrightarrow> tk_binding (en_value e) = BRoute route \<longrightarrow> fk_transport k = FlowTcp \<longrightarrow>
       policy_is_active policy \<longrightarrow> (\<exists>e'. entry_of \<rho>' k = Some e' \<and>
         (tk_binding (en_value e') = BReset \<and> en_lifecycle e' = Closing \<or>
          (\<exists>route'. tk_binding (en_value e') = BRoute route' \<and>
             policy_session policy route' = policy_session (ro_policy \<rho>) route))))"
  using assms
proof (rule set_policy_entries)
  fix ds
  assume before': "\<And>k e'. entry_of \<rho>' k = Some e' \<Longrightarrow> \<exists>e s1 rev s2. entry_of \<rho> k = Some e \<and>
       revise_flow (ro_policy \<rho>) policy ds k (en_value e) s1 = (rev, en_value e', s2) \<and> rev \<noteq> Forget"
    and fwd: "\<And>k e. entry_of \<rho> k = Some e \<Longrightarrow> \<exists>s1 rev v s2.
       revise_flow (ro_policy \<rho>) policy ds k (en_value e) s1 = (rev, v, s2) \<and>
       (rev \<noteq> Forget \<longrightarrow> (\<exists>e'. entry_of \<rho>' k = Some e' \<and> en_value e' = v \<and> (rev = Close \<longrightarrow> en_lifecycle e' = Closing)))"
  have "\<exists>e. entry_of \<rho> k = Some e \<and> tk_process (en_value e') = tk_process (en_value e) \<and>
       (case tk_binding (en_value e') of
          BMain \<Rightarrow> tk_binding (en_value e) = BMain
        | BRoute route' \<Rightarrow> \<exists>route. tk_binding (en_value e) = BRoute route \<and>
            policy_session policy route' = policy_session (ro_policy \<rho>) route
        | BReset \<Rightarrow> tk_binding (en_value e) = BReset \<or> fk_transport k = FlowTcp
        | b \<Rightarrow> tk_binding (en_value e) = b)" if new: "entry_of \<rho>' k = Some e'" for k e'
  proof -
    obtain e s1 rev s2 where e: "entry_of \<rho> k = Some e" and r: "revise_flow (ro_policy \<rho>) policy ds k (en_value e) s1 = (rev, en_value e', s2)"
      "rev \<noteq> Forget" using before' [OF new] by blast
    show ?thesis using revise_flow_spec(1) [OF r(1)] r(2) e
      by (intro exI [of _ e]) (auto simp: revision_ok_def)
  qed
  moreover have "\<exists>e'. entry_of \<rho>' k = Some e' \<and>
         (tk_binding (en_value e') = BReset \<and> en_lifecycle e' = Closing \<or>
          (\<exists>route'. tk_binding (en_value e') = BRoute route' \<and>
             policy_session policy route' = policy_session (ro_policy \<rho>) route))"
    if old: "entry_of \<rho> k = Some e" "tk_binding (en_value e) = BRoute route" "fk_transport k = FlowTcp" "policy_is_active policy"
    for k e route
  proof -
    obtain s1 rev v s2 where r: "revise_flow (ro_policy \<rho>) policy ds k (en_value e) s1 = (rev, v, s2)"
      and new: "rev \<noteq> Forget \<longrightarrow> (\<exists>e'. entry_of \<rho>' k = Some e' \<and> en_value e' = v \<and> (rev = Close \<longrightarrow> en_lifecycle e' = Closing))"
      using fwd [OF old(1)] by blast
    show ?thesis using revise_flow_spec(1) [OF r] new old(2-4) by (auto simp: revision_ok_def)
  qed
  ultimately show ?thesis by blast
qed

theorem policy_change_moves_nothing_witness:
  "\<exists>\<rho> \<rho>'. router_run sample_platform sample_os [CallSetPolicy (sample_policy 0x62) 0, CallUplink 0 sample_packet 0]
       (with_capacity sample_platform () 16) = Some \<rho> \<and> entry_of \<rho> sample_udp_key \<noteq> None \<and>
     set_policy sample_platform sample_os (sample_policy 0x62) 3 \<rho> = Some \<rho>' \<and>
     (case entry_of \<rho>' sample_udp_key of None \<Rightarrow> True | Some e \<Rightarrow> tk_process (en_value e) = Some sample_process)"
proof -
  obtain q \<rho> where up: "uplink sample_platform sample_os 0 sample_packet 0 (sample_router 0x62) = Some (VRoute (RouteId 0), q, \<rho>)"
    "ro_flows \<rho> = Some sample_flows"
    using sample_uplink by blast
  have run: "router_run sample_platform sample_os [CallSetPolicy (sample_policy 0x62) 0, CallUplink 0 sample_packet 0]
       (with_capacity sample_platform () 16) = Some \<rho>"
    using sample_run [of "0x62"] up(1) by (auto split: bind_splits)
  have vals: "ft_values sample_flows = [sample_tracked]"
    by (simp add: ft_values_def sample_flows_def ft_insert_entries make_room_def ft_new_def hm_insert_def Let_def)
  have active: "policy_is_active (sample_policy 0x62)" by (simp add: policy_is_active_def am_is_empty_def sample_policy_def)
  have ask: "decide_processes sample_platform sample_os (sample_policy 0x62) [sample_process] r =
      Some ([(sample_process, Some (RouteId 0))], ())" for r
    by (simp add: sample_os_def sample_lookup)
  have "\<exists>\<rho>'. set_policy sample_platform sample_os (sample_policy 0x62) 3 \<rho> = Some \<rho>'"
    by (simp add: set_policy_def decide_again_def up(2) vals active sample_tracked_def map_filter_simps ask Let_def del: decide_processes.simps)
  then obtain \<rho>' where sp: "set_policy sample_platform sample_os (sample_policy 0x62) 3 \<rho> = Some \<rho>'" by blast
  have old: "entry_of \<rho> sample_udp_key = Some e \<Longrightarrow> tk_process (en_value e) = Some sample_process" for e
    by (auto simp: entry_of_def up(2) sample_flows_def ft_insert_entries sample_tracked_def)
  have "entry_of \<rho> sample_udp_key \<noteq> None" by (simp add: entry_of_def up(2) sample_flows_def ft_insert_entries)
  moreover have "case entry_of \<rho>' sample_udp_key of None \<Rightarrow> True | Some e \<Rightarrow> tk_process (en_value e) = Some sample_process"
    using policy_change_moves_nothing [OF run sp] old by (cases "entry_of \<rho>' sample_udp_key") fastforce+
  ultimately show ?thesis using run sp by blast
qed

section \<open>Bounds\<close>

text \<open>
  C35. The router's memory is bounded: whatever packets arrive and however often the policy changes, it
  tracks at most the flows it was made for, 256 datagrams in each direction, 4096 processes and 4096
  waiting resets.
\<close>

theorem router_bounded:
  assumes "router_run pf os cs (with_capacity pf r n) = Some \<rho>"
  shows "(case ro_flows \<rho> of Some flows \<Rightarrow> length (ft_entries flows) \<le> max n 1 | None \<Rightarrow> True) \<and>
    length (fm_entries (ro_uplink_fragments \<rho>)) \<le> 256 \<and> length (fm_entries (ro_downlink_fragments \<rho>)) \<le> 256 \<and>
    dc_len (ro_decisions \<rho>) \<le> 4096 \<and> length (ro_resets \<rho>) \<le> 4096"
proof -
  have inv: "router_inv pf (\<lambda>_. None) n \<rho>" by (rule router_run_inv [OF faithful_unknown assms])
  then have "length (ft_entries flows) \<le> max n 1" if "ro_flows \<rho> = Some flows" for flows
    using that by (auto simp: router_inv_def flows_ok_def ft_ok_def)
  moreover have "dc_len (ro_decisions \<rho>) \<le> 4096"
    using decisions.bounded [of "ro_decisions \<rho>"] inv by (simp add: router_inv_def decisions_ok_def PROCESS_CAPACITY_def)
  ultimately show ?thesis using inv fragments.bounded
    by (auto simp: router_inv_def MAX_QUEUED_RESETS_def FRAGMENT_CAPACITY_def split: option.splits)
qed

theorem router_bounded_witness: "dc_len (ro_decisions (sample_router 0x62)) \<le> 4096"
  using router_bounded [OF sample_run] by blast

end
