(* ===== verification/Netlink_Messages.thy ===== *)
theory Netlink_Messages
  imports Socket_Table Packet_Reset
begin

text \<open>
  The messages the Linux resolver exchanges with the kernel
  (\<open>talpid-app-routing/src/owner/conntrack.rs\<close> and \<open>proc_events.rs\<close>): conntrack requests and answers as
  nested netlink attributes, and the numbered events of the proc connector. Integers in native order are
  little-endian, and a slice out of range is a panic.
\<close>

section \<open>Conntrack\<close>

definition NLMSG_HDR_LEN :: nat where "NLMSG_HDR_LEN = 16"
definition NFGENMSG_LEN :: nat where "NFGENMSG_LEN = 4"
definition NLMSG_ERROR :: "16 word" where "NLMSG_ERROR = 2"
definition NLM_F_REQUEST :: "16 word" where "NLM_F_REQUEST = 1"
definition NFNL_SUBSYS_CTNETLINK :: "16 word" where "NFNL_SUBSYS_CTNETLINK = 1"
definition IPCTNL_MSG_CT_NEW :: "16 word" where "IPCTNL_MSG_CT_NEW = 0"
definition IPCTNL_MSG_CT_GET :: "16 word" where "IPCTNL_MSG_CT_GET = 1"
definition NLA_F_NESTED :: "16 word" where "NLA_F_NESTED = 0x8000"
definition NLA_TYPE_MASK :: "16 word" where "NLA_TYPE_MASK = 0x3fff"
definition CTA_TUPLE_ORIG :: "16 word" where "CTA_TUPLE_ORIG = 1"
definition CTA_TUPLE_REPLY :: "16 word" where "CTA_TUPLE_REPLY = 2"
definition CTA_TUPLE_IP :: "16 word" where "CTA_TUPLE_IP = 1"
definition CTA_TUPLE_PROTO :: "16 word" where "CTA_TUPLE_PROTO = 2"
definition CTA_IP_V4_SRC :: "16 word" where "CTA_IP_V4_SRC = 1"
definition CTA_IP_V4_DST :: "16 word" where "CTA_IP_V4_DST = 2"
definition CTA_IP_V6_SRC :: "16 word" where "CTA_IP_V6_SRC = 3"
definition CTA_IP_V6_DST :: "16 word" where "CTA_IP_V6_DST = 4"
definition CTA_PROTO_NUM :: "16 word" where "CTA_PROTO_NUM = 1"
definition CTA_PROTO_SRC_PORT :: "16 word" where "CTA_PROTO_SRC_PORT = 2"
definition CTA_PROTO_DST_PORT :: "16 word" where "CTA_PROTO_DST_PORT = 3"
definition AF_INET :: byte where "AF_INET = 2"
definition AF_INET6 :: byte where "AF_INET6 = 10"
definition EPERM :: "32 word" where "EPERM = 1"
definition EINVAL :: "32 word" where "EINVAL = 22"
definition EOPNOTSUPP :: "32 word" where "EOPNOTSUPP = 95"

lemmas nl_defs = NLMSG_HDR_LEN_def NFGENMSG_LEN_def NLMSG_ERROR_def NLM_F_REQUEST_def NFNL_SUBSYS_CTNETLINK_def
  IPCTNL_MSG_CT_NEW_def IPCTNL_MSG_CT_GET_def NLA_F_NESTED_def NLA_TYPE_MASK_def AF_INET_def AF_INET6_def
lemmas cta_defs = CTA_TUPLE_ORIG_def CTA_TUPLE_REPLY_def CTA_TUPLE_IP_def CTA_TUPLE_PROTO_def CTA_IP_V4_SRC_def
  CTA_IP_V4_DST_def CTA_IP_V6_SRC_def CTA_IP_V6_DST_def CTA_PROTO_NUM_def CTA_PROTO_SRC_PORT_def CTA_PROTO_DST_PORT_def

definition u16_to_ne :: "16 word \<Rightarrow> bytes" where
  "u16_to_ne w = rev (u16_to_be w)"

definition u32_to_ne :: "32 word \<Rightarrow> bytes" where
  "u32_to_ne w = rev (u32_to_be w)"

definition half :: "bytes \<Rightarrow> nat \<Rightarrow> 16 word option" where
  "half bs at = do {
     s \<leftarrow> slice bs at (at + 2);
     case s of [a, b] \<Rightarrow> Some (u16_from_be b a) | _ \<Rightarrow> None }"

definition ct_word :: "bytes \<Rightarrow> nat \<Rightarrow> 32 word option" where
  "ct_word bs at = read_u32 bs at"

definition aligned :: "nat \<Rightarrow> nat" where
  "aligned n = (n + 3) div 4 * 4"

definition nl_attribute :: "16 word \<Rightarrow> bytes \<Rightarrow> bytes" where
  "nl_attribute kind payload =
     (let len = 4 + length payload
      in u16_to_ne (word_of_nat len) @ u16_to_ne kind @ payload @ replicate (aligned len - len) 0)"

lemma aligned_ge: "n \<le> aligned n"
  by (simp add: aligned_def)

lemma next_attribute:
  "slice bs (at + 4) (at + max n 4) = Some s \<Longrightarrow> \<not> n < 4 \<Longrightarrow> length bs - (at + aligned n) < length bs - at"
  using aligned_ge [of n] slice_ge [of bs "at + 4" "at + max n 4" s] by linarith

function nl_find_from :: "bytes \<Rightarrow> 16 word \<Rightarrow> nat \<Rightarrow> bytes option" where
  "nl_find_from attributes kind at =
     (case (half attributes at, half attributes (at + 2)) of
        (Some len, Some found) \<Rightarrow>
          (case slice attributes (at + 4) (at + max (unat len) 4) of
             None \<Rightarrow> None
           | Some payload \<Rightarrow>
               if found AND NLA_TYPE_MASK = kind then Some payload
               else if unat len < 4 then None
               else nl_find_from attributes kind (at + aligned (unat len)))
      | _ \<Rightarrow> None)"
  by pat_completeness auto

termination
  by (relation "measure (\<lambda>(bs, _, at). length bs - at)") (auto simp: next_attribute dest: next_attribute)

declare nl_find_from.simps [simp del]

definition nl_find :: "bytes \<Rightarrow> 16 word \<Rightarrow> bytes option" where
  "nl_find attributes kind = nl_find_from attributes kind 0"

definition v4_of :: "bytes \<Rightarrow> IpAddr option" where
  "v4_of bs = (if length bs = 4 then Some (V4 (word_of_nat (from_be bs))) else None)"

definition v6_of :: "bytes \<Rightarrow> IpAddr option" where
  "v6_of bs = (if length bs = 16 then Some (V6 (word_of_nat (from_be bs))) else None)"

definition port_of :: "bytes \<Rightarrow> 16 word \<Rightarrow> 16 word option" where
  "port_of proto kind = do {
     bs \<leftarrow> nl_find proto kind;
     case bs of [a, b] \<Rightarrow> Some (u16_from_be a b) | _ \<Rightarrow> None }"

definition ct_ends :: "bytes \<Rightarrow> (SocketAddr \<times> SocketAddr) option" where
  "ct_ends tuple = do {
     ip \<leftarrow> nl_find tuple CTA_TUPLE_IP;
     proto \<leftarrow> nl_find tuple CTA_TUPLE_PROTO;
     (src, dst) \<leftarrow>
       (case (nl_find ip CTA_IP_V4_SRC, nl_find ip CTA_IP_V4_DST) of
          (Some src, Some dst) \<Rightarrow> do { src \<leftarrow> v4_of src; dst \<leftarrow> v4_of dst; Some (src, dst) }
        | _ \<Rightarrow> do { src \<leftarrow> nl_find ip CTA_IP_V6_SRC; src \<leftarrow> v6_of src;
                   dst \<leftarrow> nl_find ip CTA_IP_V6_DST; dst \<leftarrow> v6_of dst; Some (src, dst) });
     sport \<leftarrow> port_of proto CTA_PROTO_SRC_PORT;
     dport \<leftarrow> port_of proto CTA_PROTO_DST_PORT;
     Some (socket_new src sport, socket_new dst dport) }"

text \<open>The family and the two addresses of a tuple, and the whole tuple of a protocol number.\<close>

definition ct_addresses :: "IpAddr \<Rightarrow> IpAddr \<Rightarrow> (byte \<times> bytes) option" where
  "ct_addresses src dst =
     (case (src, dst) of
        (V4 s, V4 d) \<Rightarrow> Some (AF_INET, nl_attribute CTA_IP_V4_SRC (to_be 4 (unat s)) @ nl_attribute CTA_IP_V4_DST (to_be 4 (unat d)))
      | (V6 s, V6 d) \<Rightarrow> Some (AF_INET6, nl_attribute CTA_IP_V6_SRC (to_be 16 (unat s)) @ nl_attribute CTA_IP_V6_DST (to_be 16 (unat d)))
      | _ \<Rightarrow> None)"

definition ct_tuple :: "16 word \<Rightarrow> bytes \<Rightarrow> byte \<Rightarrow> 16 word \<Rightarrow> 16 word \<Rightarrow> bytes" where
  "ct_tuple kind addresses protocol sport dport =
     nl_attribute (kind OR NLA_F_NESTED)
       (nl_attribute (CTA_TUPLE_IP OR NLA_F_NESTED) addresses @
        nl_attribute (CTA_TUPLE_PROTO OR NLA_F_NESTED)
          (nl_attribute CTA_PROTO_NUM [protocol] @ nl_attribute CTA_PROTO_SRC_PORT (u16_to_be sport) @
           nl_attribute CTA_PROTO_DST_PORT (u16_to_be dport)))"

text \<open>A netlink message of the conntrack subsystem.\<close>

definition ct_message :: "16 word \<Rightarrow> 16 word \<Rightarrow> 32 word \<Rightarrow> byte \<Rightarrow> bytes \<Rightarrow> bytes" where
  "ct_message kind flags sequence family body =
     u32_to_ne (word_of_nat (NLMSG_HDR_LEN + NFGENMSG_LEN + length body)) @
     u16_to_ne (push_bit 8 NFNL_SUBSYS_CTNETLINK OR kind) @ u16_to_ne flags @ u32_to_ne sequence @ u32_to_ne 0 @
     [family, 0, 0, 0] @ body"

definition ct_request :: "32 word \<Rightarrow> FlowKey \<Rightarrow> bytes option" where
  "ct_request sequence flow = do {
     protocol \<leftarrow> (case fk_transport flow of FlowTcp \<Rightarrow> Some PROTO_TCP | FlowUdp \<Rightarrow> Some PROTO_UDP | FlowIcmpEcho \<Rightarrow> None);
     (family, addresses) \<leftarrow> ct_addresses (sock_ip (fk_remote flow)) (sock_ip (fk_local flow));
     Some (ct_message IPCTNL_MSG_CT_GET NLM_F_REQUEST sequence family
       (ct_tuple CTA_TUPLE_REPLY addresses protocol (sock_port (fk_remote flow)) (sock_port (fk_local flow)))) }"

datatype CtReply = CtOriginal FlowKey | CtAsSeen | CtRefused | CtOther

definition ct_error :: "32 word option \<Rightarrow> CtReply" where
  "ct_error code =
     (case map_option uminus code of
        None \<Rightarrow> CtOther
      | Some errno \<Rightarrow> if errno = 0 then CtOther else if errno \<in> {EPERM, EINVAL, EOPNOTSUPP} then CtRefused else CtAsSeen)"

definition ct_parse_reply :: "bytes \<Rightarrow> 32 word \<Rightarrow> FlowKey \<Rightarrow> CtReply" where
  "ct_parse_reply reply sequence flow =
     (case (ct_word reply 0, half reply 4, ct_word reply 8) of
        (Some len, Some kind, Some seq) \<Rightarrow>
          if seq \<noteq> sequence then CtOther
          else
            (case slice reply 0 (unat len) of
               None \<Rightarrow> CtOther
             | Some message \<Rightarrow>
                 if kind = NLMSG_ERROR then ct_error (ct_word message NLMSG_HDR_LEN)
                 else if kind \<noteq> (push_bit 8 NFNL_SUBSYS_CTNETLINK OR IPCTNL_MSG_CT_NEW) then CtOther
                 else
                   (case slice message (NLMSG_HDR_LEN + NFGENMSG_LEN) (length message) of
                      None \<Rightarrow> CtOther
                    | Some attributes \<Rightarrow>
                        (case (Option.bind (nl_find attributes CTA_TUPLE_ORIG) ct_ends,
                               Option.bind (nl_find attributes CTA_TUPLE_REPLY) ct_ends) of
                           (Some original, Some back_way) \<Rightarrow>
                             if back_way \<noteq> (fk_remote flow, fk_local flow) then CtAsSeen
                             else CtOriginal \<lparr>fk_transport = fk_transport flow, fk_local = fst original, fk_remote = snd original\<rparr>
                         | _ \<Rightarrow> CtOther)))
      | _ \<Rightarrow> CtOther)"

section \<open>Process events\<close>

definition NLMSG_DONE :: "16 word" where "NLMSG_DONE = 3"
definition CN_MSG_LEN :: nat where "CN_MSG_LEN = 20"
definition CN_IDX_PROC :: "32 word" where "CN_IDX_PROC = 1"
definition CN_VAL_PROC :: "32 word" where "CN_VAL_PROC = 1"
definition PROC_CN_MCAST_LISTEN :: "32 word" where "PROC_CN_MCAST_LISTEN = 1"
definition PROC_CN_MCAST_IGNORE :: "32 word" where "PROC_CN_MCAST_IGNORE = 2"
definition PROC_EVENT_NONE :: "32 word" where "PROC_EVENT_NONE = 0"
definition PROC_EVENT_FORK :: "32 word" where "PROC_EVENT_FORK = 1"
definition PROC_EVENT_EXEC :: "32 word" where "PROC_EVENT_EXEC = 2"
definition PROC_EVENT_EXIT :: "32 word" where "PROC_EVENT_EXIT = 0x80000000"
definition EVENT_DATA_AT :: nat where "EVENT_DATA_AT = 16"

datatype ProcEvent = PeChanged "32 word" | PeOther | PeAcknowledged "32 word" "32 word"

record ProcMessage =
  pm_cpu :: "32 word"
  pm_sequence :: "32 word"
  pm_event :: ProcEvent

definition proc_request :: "32 word \<Rightarrow> 32 word \<Rightarrow> 32 word \<Rightarrow> bytes" where
  "proc_request sequence ack operation =
     u32_to_ne (word_of_nat (NLMSG_HDR_LEN + CN_MSG_LEN + 4)) @ u16_to_ne NLMSG_DONE @ u16_to_ne 0 @
     u32_to_ne sequence @ u32_to_ne 0 @ u32_to_ne CN_IDX_PROC @ u32_to_ne CN_VAL_PROC @ u32_to_ne sequence @
     u32_to_ne ack @ u16_to_ne 4 @ u16_to_ne 0 @ u32_to_ne operation"

definition listen_request :: "32 word \<Rightarrow> 32 word \<Rightarrow> bytes" where
  "listen_request sequence ack = proc_request sequence ack PROC_CN_MCAST_LISTEN"

definition ignore_request :: "32 word \<Rightarrow> bytes" where
  "ignore_request sequence = proc_request sequence 0 PROC_CN_MCAST_IGNORE"

definition proc_word :: "bytes \<Rightarrow> nat \<Rightarrow> 32 word option" where
  "proc_word bs at = read_u32 bs at"

definition proc_message :: "bytes \<Rightarrow> ProcMessage option" where
  "proc_message message = do {
     idx \<leftarrow> proc_word message 0;
     if idx \<noteq> CN_IDX_PROC then None
     else do {
       val \<leftarrow> proc_word message 4;
       if val \<noteq> CN_VAL_PROC then None
       else do {
         sequence \<leftarrow> proc_word message 8;
         ack \<leftarrow> proc_word message 12;
         proc_event \<leftarrow> slice message CN_MSG_LEN (length message);
         cpu \<leftarrow> proc_word proc_event 4;
         let data = (\<lambda>at. proc_word proc_event (EVENT_DATA_AT + at));
         what \<leftarrow> proc_word proc_event 0;
         event \<leftarrow>
           (if what = PROC_EVENT_NONE then do { e \<leftarrow> data 0; Some (PeAcknowledged ack e) }
            else if what = PROC_EVENT_FORK then do {
              child_pid \<leftarrow> data 8; child_tgid \<leftarrow> data 12;
              Some (if child_pid = child_tgid then PeChanged child_tgid else PeOther) }
            else if what = PROC_EVENT_EXEC then do { tgid \<leftarrow> data 4; Some (PeChanged tgid) }
            else if what = PROC_EVENT_EXIT then do {
              pid \<leftarrow> data 0; tgid \<leftarrow> data 4;
              Some (if pid = tgid then PeChanged tgid else PeOther) }
            else Some PeOther);
         Some \<lparr>pm_cpu = cpu, pm_sequence = sequence, pm_event = event\<rparr> } } }"

lemma rest_shrinks:
  assumes "slice rest (min (next_multiple_of len 4) (length rest)) (length rest) = Some rest'" "\<not> len < NLMSG_HDR_LEN"
    "\<not> length rest < NLMSG_HDR_LEN"
  shows "length rest' < length rest"
  using slice_SomeD [OF assms(1)] next_multiple_of_ge [of 4 len] assms(2,3) by (auto simp: NLMSG_HDR_LEN_def)

text \<open>\<open>parse\<close>: the outer option is a panic.\<close>

function proc_parse :: "bytes \<Rightarrow> ProcMessage list \<Rightarrow> ProcMessage list option" where
  "proc_parse rest messages =
     (if length rest < NLMSG_HDR_LEN then Some messages
      else
        let len = unat (unwrap_or (proc_word rest 0) 0) in
        if len < NLMSG_HDR_LEN \<or> length rest < len then Some messages
        else
          (case slice rest NLMSG_HDR_LEN len of
             None \<Rightarrow> None
           | Some body \<Rightarrow>
               let messages = (case proc_message body of Some m \<Rightarrow> messages @ [m] | None \<Rightarrow> messages)
               in case slice rest (min (next_multiple_of len 4) (length rest)) (length rest) of
                    None \<Rightarrow> None
                  | Some rest \<Rightarrow> proc_parse rest messages))"
  by pat_completeness auto

termination
  by (relation "measure (\<lambda>(rest, _). length rest)") (auto dest: rest_shrinks)

declare proc_parse.simps [simp del]

record Sequences =
  sq_next :: "(32 word, 32 word) hash_map"

definition sq_continues :: "ProcMessage \<Rightarrow> Sequences \<Rightarrow> bool \<times> Sequences" where
  "sq_continues message s =
     (case pm_event message of
        PeAcknowledged _ _ \<Rightarrow> (True, s)
      | _ \<Rightarrow>
          (case hm_get (sq_next s) (pm_cpu message) of
             None \<Rightarrow> True
           | Some expected \<Rightarrow> expected = pm_sequence message,
           s\<lparr>sq_next := hm_insert (pm_cpu message) (pm_sequence message + 1) (sq_next s)\<rparr>))"

definition sq_clear :: "Sequences \<Rightarrow> Sequences" where
  "sq_clear s = s\<lparr>sq_next := []\<rparr>"


section \<open>Attributes read back\<close>

lemma length_ne [simp]: "length (u16_to_ne w) = 2" "length (u32_to_ne d) = 4"
  by (simp_all add: u16_to_ne_def u32_to_ne_def)

lemma slice_shift: "slice (pre @ bs) (length pre + a) (length pre + b) = slice bs a b"
  by (auto simp: slice_def)

lemma half_shift: "half (pre @ bs) (length pre + a) = half bs a"
  using slice_shift [of pre bs a "a + 2"] by (simp add: half_def add.assoc)

lemma half_ne: "half (u16_to_ne w @ post) 0 = Some w"
proof -
  obtain x y where xy: "u16_to_be w = [x, y]" by (rule u16_to_be_cases)
  then show ?thesis using u16_from_to_be [OF xy] by (simp add: half_def u16_to_ne_def slice_def)
qed

lemma read_u32_ne: "read_u32 (u32_to_ne w @ post) 0 = Some w"
proof -
  obtain p q r t where w: "u32_to_be w = [p, q, r, t]" using length_4 [OF length_uN_to_be(2)] by blast
  then show ?thesis using u32_from_to_be [OF w] by (simp add: read_u32_def u32_to_ne_def slice_def)
qed

lemma read_u32_shift: "read_u32 (pre @ bs) (length pre + a) = read_u32 bs a"
  using slice_shift [of pre bs a "a + 4"] by (simp add: read_u32_def add.assoc)

lemma nl_find_shift: "nl_find_from (pre @ bs) kind (length pre + at) = nl_find_from bs kind at"
proof (induction bs kind at rule: nl_find_from.induct)
  case (1 bs kind at)
  have h: "half (pre @ bs) (length pre + at) = half bs at" "half (pre @ bs) (length pre + at + 2) = half bs (at + 2)"
    using half_shift [of pre bs at] half_shift [of pre bs "at + 2"] by (simp_all add: add.assoc)
  have s: "slice (pre @ bs) (length pre + at + 4) (length pre + at + n) = slice bs (at + 4) (at + n)" for n
    using slice_shift [of pre bs "at + 4" "at + n"] by (simp add: add.assoc)
  note eqs = nl_find_from.simps [of "pre @ bs" kind "length pre + at"] nl_find_from.simps [of bs kind at]
  show ?case
  proof (cases "half bs at = None \<or> half bs (at + 2) = None")
    case True
    then show ?thesis by (subst eqs(1), subst eqs(2), simp only: h) (auto split: option.splits)
  next
    case False
    then obtain len found where lf: "half bs at = Some len" "half bs (at + 2) = Some found" by auto
    show ?thesis
    proof (cases "slice bs (at + 4) (at + max (unat len) 4)")
      case None
      then show ?thesis by (subst eqs(1), subst eqs(2), simp only: h s lf prod.case option.case)
    next
      case (Some payload)
      have IH: "\<not> unat len < 4 \<Longrightarrow> found AND NLA_TYPE_MASK \<noteq> kind \<Longrightarrow>
          nl_find_from (pre @ bs) kind (length pre + at + aligned (unat len)) = nl_find_from bs kind (at + aligned (unat len))"
        using 1 [OF refl lf Some] by (simp add: add.assoc)
      show ?thesis
        by (subst eqs(1), subst eqs(2), simp only: h s lf Some prod.case option.case) (use IH in auto)
    qed
  qed
qed

lemma length_nl_attribute [simp]: "length (nl_attribute kind payload) = aligned (4 + length payload)"
  using aligned_ge [of "4 + length payload"] by (simp add: nl_attribute_def Let_def)

lemma nl_find_attribute [simp]:
  assumes "length payload < 65532"
  shows "nl_find (nl_attribute k payload @ post) kind = (if k AND NLA_TYPE_MASK = kind then Some payload else nl_find post kind)"
proof -
  let ?n = "4 + length payload"
  let ?body = "payload @ replicate (aligned ?n - ?n) 0 @ post"
  have bs: "nl_attribute k payload @ post = u16_to_ne (word_of_nat ?n) @ u16_to_ne k @ ?body"
    by (simp add: nl_attribute_def Let_def)
  have n: "unat (word_of_nat ?n :: 16 word) = ?n" unfolding unat_of_nat using assms by simp
  have h: "half (nl_attribute k payload @ post) 0 = Some (word_of_nat ?n)" unfolding bs by (rule half_ne)
  have k: "half (nl_attribute k payload @ post) 2 = Some k"
    unfolding bs using half_ne [of k ?body] half_shift [of "u16_to_ne (word_of_nat ?n)" "u16_to_ne k @ ?body" 0] by simp
  have s: "slice (nl_attribute k payload @ post) 4 (max ?n 4) = Some payload"
    unfolding bs using slice_mid [of "u16_to_ne (word_of_nat ?n) @ u16_to_ne k" payload "replicate (aligned ?n - ?n) 0 @ post"] by simp
  have r: "nl_find_from (nl_attribute k payload @ post) kind (aligned ?n) = nl_find post kind"
    using nl_find_shift [of "nl_attribute k payload" post kind 0] by (simp add: nl_find_def)
  show ?thesis
    by (subst nl_find_def, subst nl_find_from.simps) (simp only: add_0 h k n s r option.case prod.case, simp)
qed

lemma nl_find_Nil [simp]: "nl_find [] kind = None"
  by (simp add: nl_find_def nl_find_from.simps half_def slice_def)

lemma nl_find_last [simp]:
  "length payload < 65532 \<Longrightarrow> nl_find (nl_attribute k payload) kind = (if k AND NLA_TYPE_MASK = kind then Some payload else None)"
  using nl_find_attribute [of payload k "[]" kind] by simp


text \<open>The tuple of a pair of ends of one family, read back.\<close>

lemma mask_kinds [simp]:
  "(CTA_TUPLE_IP OR NLA_F_NESTED) AND NLA_TYPE_MASK = CTA_TUPLE_IP"
  "(CTA_TUPLE_PROTO OR NLA_F_NESTED) AND NLA_TYPE_MASK = CTA_TUPLE_PROTO"
  "(CTA_TUPLE_ORIG OR NLA_F_NESTED) AND NLA_TYPE_MASK = CTA_TUPLE_ORIG"
  "(CTA_TUPLE_REPLY OR NLA_F_NESTED) AND NLA_TYPE_MASK = CTA_TUPLE_REPLY"
  by (simp_all add: cta_defs nl_defs)

definition ct_payload :: "bytes \<Rightarrow> byte \<Rightarrow> 16 word \<Rightarrow> 16 word \<Rightarrow> bytes" where
  "ct_payload addresses protocol sport dport =
     nl_attribute (CTA_TUPLE_IP OR NLA_F_NESTED) addresses @
     nl_attribute (CTA_TUPLE_PROTO OR NLA_F_NESTED)
       (nl_attribute CTA_PROTO_NUM [protocol] @ nl_attribute CTA_PROTO_SRC_PORT (u16_to_be sport) @
        nl_attribute CTA_PROTO_DST_PORT (u16_to_be dport))"

lemma ct_tuple_payload: "ct_tuple kind addresses protocol sport dport = nl_attribute (kind OR NLA_F_NESTED) (ct_payload addresses protocol sport dport)"
  by (simp add: ct_tuple_def ct_payload_def)

lemma port_of_ports:
  "port_of (nl_attribute CTA_PROTO_NUM [protocol] @ nl_attribute CTA_PROTO_SRC_PORT (u16_to_be sport) @
     nl_attribute CTA_PROTO_DST_PORT (u16_to_be dport)) CTA_PROTO_SRC_PORT = Some sport"
  "port_of (nl_attribute CTA_PROTO_NUM [protocol] @ nl_attribute CTA_PROTO_SRC_PORT (u16_to_be sport) @
     nl_attribute CTA_PROTO_DST_PORT (u16_to_be dport)) CTA_PROTO_DST_PORT = Some dport"
proof -
  obtain a b where ab: "u16_to_be sport = [a, b]" by (rule u16_to_be_cases)
  obtain c d where cd: "u16_to_be dport = [c, d]" by (rule u16_to_be_cases)
  show "port_of (nl_attribute CTA_PROTO_NUM [protocol] @ nl_attribute CTA_PROTO_SRC_PORT (u16_to_be sport) @
     nl_attribute CTA_PROTO_DST_PORT (u16_to_be dport)) CTA_PROTO_SRC_PORT = Some sport"
    using u16_from_to_be [OF ab] by (simp add: port_of_def ab cta_defs NLA_TYPE_MASK_def)
  show "port_of (nl_attribute CTA_PROTO_NUM [protocol] @ nl_attribute CTA_PROTO_SRC_PORT (u16_to_be sport) @
     nl_attribute CTA_PROTO_DST_PORT (u16_to_be dport)) CTA_PROTO_DST_PORT = Some dport"
    using u16_from_to_be [OF cd] by (simp add: port_of_def ab cd cta_defs NLA_TYPE_MASK_def)
qed

lemma length_ct_addresses: "ct_addresses src dst = Some (family, addresses) \<Longrightarrow> length addresses \<le> 40"
  by (auto simp: ct_addresses_def aligned_def split: IpAddr.splits)

lemma length_ct_payload: "length addresses \<le> 40 \<Longrightarrow> length (ct_payload addresses protocol sport dport) \<le> 72"
  by (simp add: ct_payload_def aligned_def)

lemma from_be_word: "(word_of_nat (from_be (to_be 4 (unat a))) :: 32 word) = a" "(word_of_nat (from_be (to_be 16 (unat b))) :: 128 word) = b"
  using from_octets4 [of a] from_octets16 [of b] by (simp_all add: v4_octets_def)

lemma ct_ends_payload:
  assumes "ct_addresses src dst = Some (family, addresses)"
  shows "ct_ends (ct_payload addresses protocol sport dport) = Some (socket_new src sport, socket_new dst dport)"
proof -
  have len: "length addresses < 65532" using length_ct_addresses [OF assms] by simp
  let ?proto = "nl_attribute CTA_PROTO_NUM [protocol] @ nl_attribute CTA_PROTO_SRC_PORT (u16_to_be sport) @
     nl_attribute CTA_PROTO_DST_PORT (u16_to_be dport)"
  have ip: "nl_find (ct_payload addresses protocol sport dport) CTA_TUPLE_IP = Some addresses"
    using len by (simp add: ct_payload_def)
  have proto: "nl_find (ct_payload addresses protocol sport dport) CTA_TUPLE_PROTO = Some ?proto"
    using len by (simp add: ct_payload_def aligned_def) (simp add: cta_defs)
  show ?thesis
  proof (cases src)
    case (V4 s)
    then obtain d where d: "dst = V4 d"
        "addresses = nl_attribute CTA_IP_V4_SRC (to_be 4 (unat s)) @ nl_attribute CTA_IP_V4_DST (to_be 4 (unat d))"
      using assms by (auto simp: ct_addresses_def split: IpAddr.splits)
    have "nl_find addresses CTA_IP_V4_SRC = Some (to_be 4 (unat s))" "nl_find addresses CTA_IP_V4_DST = Some (to_be 4 (unat d))"
      by (simp_all add: d(2) cta_defs NLA_TYPE_MASK_def)
    then show ?thesis using V4 d(1) by (simp add: ct_ends_def ip proto port_of_ports v4_of_def from_be_word)
  next
    case (V6 s)
    then obtain d where d: "dst = V6 d"
        "addresses = nl_attribute CTA_IP_V6_SRC (to_be 16 (unat s)) @ nl_attribute CTA_IP_V6_DST (to_be 16 (unat d))"
      using assms by (auto simp: ct_addresses_def split: IpAddr.splits)
    have "nl_find addresses CTA_IP_V6_SRC = Some (to_be 16 (unat s))" "nl_find addresses CTA_IP_V6_DST = Some (to_be 16 (unat d))"
      "nl_find addresses CTA_IP_V4_SRC = None"
      by (simp_all add: d(2) cta_defs NLA_TYPE_MASK_def)
    then show ?thesis using V6 d(1) by (simp add: ct_ends_def ip proto port_of_ports v6_of_def from_be_word)
  qed
qed


section \<open>Conntrack messages read back\<close>

lemma ct_addresses_same_family:
  "is_ipv4 a = is_ipv4 b \<Longrightarrow> \<exists>family addresses. ct_addresses a b = Some (family, addresses)"
  by (cases a; cases b) (auto simp: ct_addresses_def is_ipv4_def)

lemma nl_find_tuple:
  assumes "length addresses \<le> 40"
  shows "nl_find (ct_tuple CTA_TUPLE_ORIG addresses protocol sport dport @ post) kind =
      (if kind = CTA_TUPLE_ORIG then Some (ct_payload addresses protocol sport dport) else nl_find post kind)"
    "nl_find (ct_tuple CTA_TUPLE_REPLY addresses protocol sport dport @ post) kind =
      (if kind = CTA_TUPLE_REPLY then Some (ct_payload addresses protocol sport dport) else nl_find post kind)"
  using length_ct_payload [OF assms, of protocol sport dport] by (auto simp: ct_tuple_payload)

lemma length_ct_tuple: "length addresses \<le> 40 \<Longrightarrow> length (ct_tuple kind addresses protocol sport dport) \<le> 76"
  using length_ct_payload [of addresses protocol sport dport] by (simp add: ct_tuple_payload aligned_def)

lemma ct_message_reads:
  assumes "length body < 1000000"
  shows "ct_word (ct_message kind flags sequence family body) 0 = Some (word_of_nat (20 + length body))"
    "half (ct_message kind flags sequence family body) 4 = Some (push_bit 8 NFNL_SUBSYS_CTNETLINK OR kind)"
    "ct_word (ct_message kind flags sequence family body) 8 = Some sequence"
    "slice (ct_message kind flags sequence family body) 0 (unat (word_of_nat (20 + length body) :: 32 word)) =
       Some (ct_message kind flags sequence family body)"
    "slice (ct_message kind flags sequence family body) 20 (length (ct_message kind flags sequence family body)) = Some body"
proof -
  let ?k = "push_bit 8 NFNL_SUBSYS_CTNETLINK OR kind" and ?len = "word_of_nat (20 + length body) :: 32 word"
  let ?m = "ct_message kind flags sequence family body"
  let ?rest = "u32_to_ne 0 @ [family, 0, 0, 0] @ body"
  have m: "?m = u32_to_ne ?len @ u16_to_ne ?k @ u16_to_ne flags @ u32_to_ne sequence @ ?rest"
    by (simp add: ct_message_def NLMSG_HDR_LEN_def NFGENMSG_LEN_def)
  show "ct_word ?m 0 = Some ?len" unfolding ct_word_def m by (rule read_u32_ne)
  show "half ?m 4 = Some ?k"
    unfolding m using half_ne [of ?k] half_shift [of "u32_to_ne ?len" "u16_to_ne ?k @ u16_to_ne flags @ u32_to_ne sequence @ ?rest" 0] by simp
  show "ct_word ?m 8 = Some sequence"
    unfolding ct_word_def m
    using read_u32_ne [of sequence ?rest] read_u32_shift [of "u32_to_ne ?len @ u16_to_ne ?k @ u16_to_ne flags" "u32_to_ne sequence @ ?rest" 0] by simp
  have "unat ?len = 20 + length body" unfolding unat_of_nat using assms by simp
  then show "slice ?m 0 (unat ?len) = Some ?m" by (simp add: m slice_def)
  show "slice ?m 20 (length ?m) = Some body"
    unfolding m using slice_shift [of "u32_to_ne ?len @ u16_to_ne ?k @ u16_to_ne flags @ u32_to_ne sequence @ u32_to_ne 0 @ [family, 0, 0, 0]" body 0 "length body"]
    by (simp add: slice_def)
qed

text \<open>
  C39. Seeing through a translation: the request about a flow names, as the reply direction, the flow seen
  from the far end, and reads back as exactly that. An answer of the kernel that carries the original
  pair of the connection and this reply direction, whatever attributes follow, is read as the flow of
  the socket that opened it; an answer about another reply direction leaves the flow as it is seen, and
  one with another sequence number is not taken.
\<close>

theorem conntrack_reads_back:
  assumes "plain_flow flow" "plain_flow original" "fk_transport flow \<noteq> FlowIcmpEcho" "length rest < 65536"
    and "ct_addresses (sock_ip (fk_local original)) (sock_ip (fk_remote original)) = Some (family, orig)"
    and "ct_addresses (sock_ip (fk_remote flow)) (sock_ip (fk_local flow)) = Some (family, backward)"
  shows "(\<exists>message attributes. ct_request sequence flow = Some message \<and>
      slice message 20 (length message) = Some attributes \<and>
      Option.bind (nl_find attributes CTA_TUPLE_REPLY) ct_ends = Some (fk_remote flow, fk_local flow)) \<and>
    (\<forall>seen. let answer = ct_message IPCTNL_MSG_CT_NEW 0 sequence family
        (ct_tuple CTA_TUPLE_ORIG orig protocol (sock_port (fk_local original)) (sock_port (fk_remote original)) @
         ct_tuple CTA_TUPLE_REPLY backward protocol (sock_port (fk_remote flow)) (sock_port (fk_local flow)) @ rest)
      in ct_parse_reply answer sequence flow =
           CtOriginal \<lparr>fk_transport = fk_transport flow, fk_local = fk_local original, fk_remote = fk_remote original\<rparr> \<and>
         ct_parse_reply answer sequence (flow\<lparr>fk_local := seen\<rparr>) =
           (if seen = fk_local flow
            then CtOriginal \<lparr>fk_transport = fk_transport flow, fk_local = fk_local original, fk_remote = fk_remote original\<rparr>
            else CtAsSeen) \<and>
         (\<forall>other. other \<noteq> sequence \<longrightarrow> ct_parse_reply answer other flow = CtOther))"
proof -
  let ?o = "ct_tuple CTA_TUPLE_ORIG orig protocol (sock_port (fk_local original)) (sock_port (fk_remote original))"
    and ?r = "\<lambda>protocol. ct_tuple CTA_TUPLE_REPLY backward protocol (sock_port (fk_remote flow)) (sock_port (fk_local flow))"
  have len: "length orig \<le> 40" "length backward \<le> 40" using assms(5,6) length_ct_addresses by blast+
  have plain: "socket_new (sock_ip (fk_local flow)) (sock_port (fk_local flow)) = fk_local flow"
    "socket_new (sock_ip (fk_remote flow)) (sock_port (fk_remote flow)) = fk_remote flow"
    "socket_new (sock_ip (fk_local original)) (sock_port (fk_local original)) = fk_local original"
    "socket_new (sock_ip (fk_remote original)) (sock_port (fk_remote original)) = fk_remote original"
    using assms(1,2) by (simp_all add: plain_flow_def)
  obtain proto where req: "ct_request sequence flow = Some (ct_message IPCTNL_MSG_CT_GET NLM_F_REQUEST sequence family (?r proto))"
    using assms(3,6) by (cases "fk_transport flow") (auto simp: ct_request_def)
  have reply: "Option.bind (nl_find (?r q @ post) CTA_TUPLE_REPLY) ct_ends = Some (fk_remote flow, fk_local flow)" for q post
    using nl_find_tuple(2) [OF len(2)] ct_ends_payload [OF assms(6)] plain by simp
  have rl: "length (?r q) \<le> 76" for q by (rule length_ct_tuple [OF len(2)])
  have ol: "length ?o \<le> 76" by (rule length_ct_tuple [OF len(1)])
  have "length (?r proto) < 1000000" using rl [of proto] by simp
  then have first: "slice (ct_message IPCTNL_MSG_CT_GET NLM_F_REQUEST sequence family (?r proto)) 20
      (length (ct_message IPCTNL_MSG_CT_GET NLM_F_REQUEST sequence family (?r proto))) = Some (?r proto)"
    by (rule ct_message_reads(5))
  let ?body = "?o @ ?r protocol @ rest"
  have bl: "length ?body < 1000000"
    unfolding length_append using assms(4) rl [of protocol] ol by linarith
  note reads = ct_message_reads [OF bl, of IPCTNL_MSG_CT_NEW 0 sequence family]
  have "Option.bind (nl_find ?body CTA_TUPLE_ORIG) ct_ends = Some (fk_local original, fk_remote original)"
    using nl_find_tuple(1) [OF len(1)] ct_ends_payload [OF assms(5)] plain by simp
  moreover have "Option.bind (nl_find ?body CTA_TUPLE_REPLY) ct_ends = Some (fk_remote flow, fk_local flow)"
    using nl_find_tuple(1) [OF len(1), of protocol _ _ "?r protocol @ rest" CTA_TUPLE_REPLY] reply [of protocol rest] by (simp add: cta_defs)
  moreover have "push_bit 8 NFNL_SUBSYS_CTNETLINK OR IPCTNL_MSG_CT_NEW \<noteq> NLMSG_ERROR" by (simp add: nl_defs)
  ultimately have parse: "ct_parse_reply (ct_message IPCTNL_MSG_CT_NEW 0 sequence family ?body) s f =
      (if s \<noteq> sequence then CtOther
       else if (fk_remote flow, fk_local flow) \<noteq> (fk_remote f, fk_local f) then CtAsSeen
       else CtOriginal \<lparr>fk_transport = fk_transport f, fk_local = fk_local original, fk_remote = fk_remote original\<rparr>)" for s f
    using reads unfolding ct_parse_reply_def by (simp add: NLMSG_HDR_LEN_def NFGENMSG_LEN_def)
  show ?thesis using req first reply [of proto "[]"] by (auto simp: parse Let_def)
qed


definition sample_translated :: FlowKey where
  "sample_translated =
     \<lparr>fk_transport = FlowTcp, fk_local = SocketV4 0x0a400002 40001, fk_remote = SocketV4 0xc6336409 443\<rparr>"

theorem conntrack_reads_back_witness:
  "\<exists>answer. ct_parse_reply answer 9 sample_translated =
     CtOriginal \<lparr>fk_transport = FlowTcp, fk_local = SocketV4 0xc0a80105 50000, fk_remote = SocketV4 0xc6336409 443\<rparr>"
proof -
  let ?orig = "sample_translated\<lparr>fk_local := SocketV4 0xc0a80105 50000\<rparr>"
  have plain: "plain_flow sample_translated" "plain_flow ?orig" "fk_transport sample_translated \<noteq> FlowIcmpEcho"
    by (simp_all add: plain_flow_def sample_translated_def socket_new_def is_ipv4_def)
  have "length ([] :: bytes) < 65536" by simp
  from conntrack_reads_back [OF plain this, of AF_INET _ _ 9 PROTO_TCP] show ?thesis
    by (auto simp: ct_addresses_def sample_translated_def Let_def)
qed

section \<open>Events\<close>

lemma proc_parse_total: "proc_parse rest messages \<noteq> None"
proof (induction rest messages rule: proc_parse.induct)
  case (1 rest messages)
  let ?len = "unat (unwrap_or (proc_word rest 0) 0)"
  show ?case
  proof (cases "length rest < NLMSG_HDR_LEN \<or> ?len < NLMSG_HDR_LEN \<or> length rest < ?len")
    case True
    then show ?thesis by (subst proc_parse.simps) (auto simp: Let_def)
  next
    case False
    then obtain body where body: "slice rest NLMSG_HDR_LEN ?len = Some body" by (auto simp: slice_def)
    obtain rest' where rest': "slice rest (min (next_multiple_of ?len 4) (length rest)) (length rest) = Some rest'"
      by (auto simp: slice_def)
    from 1 False body rest' show ?thesis by (subst proc_parse.simps) (simp add: Let_def)
  qed
qed

text \<open>The answers of \<open>continues\<close> over a sequence of messages.\<close>

fun hear :: "Sequences \<Rightarrow> ProcMessage list \<Rightarrow> bool list" where
  "hear s [] = []"
| "hear s (m # ms) = fst (sq_continues m s) # hear (snd (sq_continues m s)) ms"

definition is_numbered :: "ProcMessage \<Rightarrow> bool" where
  "is_numbered m \<longleftrightarrow> (case pm_event m of PeAcknowledged _ _ \<Rightarrow> False | _ \<Rightarrow> True)"

definition numbers_of :: "32 word \<Rightarrow> ProcMessage list \<Rightarrow> 32 word list" where
  "numbers_of cpu ms = map pm_sequence (filter (\<lambda>m. is_numbered m \<and> pm_cpu m = cpu) ms)"

text \<open>Numbers that follow on from what is expected, and from each other.\<close>

fun follow_on :: "32 word option \<Rightarrow> 32 word list \<Rightarrow> bool" where
  "follow_on expected [] = True"
| "follow_on expected (n # ns) = ((case expected of None \<Rightarrow> True | Some e \<Rightarrow> n = e) \<and> follow_on (Some (n + 1)) ns)"

lemma follow_on_successively:
  "follow_on None ns \<longleftrightarrow> successively (\<lambda>a b. b = a + 1) ns"
  "follow_on (Some e) ns \<longleftrightarrow> successively (\<lambda>a b. b = a + 1) ns \<and> (ns = [] \<or> hd ns = e)"
proof -
  have "follow_on (Some e) ns \<longleftrightarrow> successively (\<lambda>a b. b = a + 1) ns \<and> (ns = [] \<or> hd ns = e)" for e
    by (induction ns arbitrary: e) (auto simp: successively_Cons)
  then show "follow_on (Some e) ns \<longleftrightarrow> successively (\<lambda>a b. b = a + 1) ns \<and> (ns = [] \<or> hd ns = e)"
    and "follow_on None ns \<longleftrightarrow> successively (\<lambda>a b. b = a + 1) ns"
    by (cases ns; auto simp: successively_Cons)+
qed

lemma hear_follows: "list_all id (hear s ms) \<longleftrightarrow> (\<forall>cpu. follow_on (hm_get (sq_next s) cpu) (numbers_of cpu ms))"
proof (induction ms arbitrary: s)
  case (Cons m ms)
  show ?case
  proof (cases "is_numbered m")
    case True
    then have c: "sq_continues m s = ((case hm_get (sq_next s) (pm_cpu m) of None \<Rightarrow> True | Some e \<Rightarrow> e = pm_sequence m),
        s\<lparr>sq_next := hm_insert (pm_cpu m) (pm_sequence m + 1) (sq_next s)\<rparr>)"
      by (auto simp: sq_continues_def is_numbered_def split: ProcEvent.splits)
    have n: "numbers_of cpu (m # ms) = (if cpu = pm_cpu m then pm_sequence m # numbers_of cpu ms else numbers_of cpu ms)" for cpu
      using True by (simp add: numbers_of_def)
    show ?thesis using Cons [of "snd (sq_continues m s)"] by (auto simp: c n split: option.splits if_splits)
  next
    case False
    then have c: "sq_continues m s = (True, s)"
      by (auto simp: sq_continues_def is_numbered_def split: ProcEvent.splits)
    have "numbers_of cpu (m # ms) = numbers_of cpu ms" for cpu using False by (simp add: numbers_of_def)
    then show ?thesis using Cons [of s] by (simp add: c)
  qed
qed (simp add: numbers_of_def)

text \<open>
  C40. A lost process event is noticed: over any sequence of messages, heard from a fresh start, every
  message continues its CPU's count exactly when the numbers of each CPU's events follow one another,
  wrapping at 32 bits, with the acknowledgements left out. Reading the messages of a datagram ends
  without a panic whatever its bytes are.
\<close>

theorem lost_events_noticed:
  "(list_all id (hear (sq_clear s) ms) \<longleftrightarrow> (\<forall>cpu. successively (\<lambda>a b. b = a + 1) (numbers_of cpu ms))) \<and>
   (\<exists>messages'. proc_parse datagram messages = Some messages')"
  using proc_parse_total [of datagram messages] by (simp add: hear_follows sq_clear_def follow_on_successively)

end
