(* ===== verification/Spec2Isabelle.thy ===== *)
theory Spec2Isabelle
  imports Tunnel_Properties Include_Hold Watchers Router_Safety Netlink_Messages
begin

text \<open>
  Warren VPN client: the parts of the program that decide what leaves the host, and a verification of
  them. The sources are Rust, under \<open>src/\<close>.

  \<^bold>\<open>The program.\<close> A daemon owns a tunnel state machine (\<open>talpid-core/src/tunnel_state_machine\<close>): five
  states, commands from the daemon, events from the tunnel and a connectivity watch. Every state applies
  a firewall policy (\<open>talpid-core/src/firewall\<close>), which on Linux becomes an nftables batch. The tunnel
  runs on a thread of its own (\<open>connecting_state.rs\<close>, \<open>exit_refusal.rs\<close>) that paces its retries. Packets
  of apps that are routed through another exit pass a per-packet router (\<open>talpid-app-routing\<close>), which
  classifies them, attributes them to a program and translates their addresses.

  \<^bold>\<open>The theories.\<close>
  \<^item> Prelude, Net_Types: results, time and integers at their width; the types of \<open>talpid-types\<close> and
    \<open>talpid-tunnel\<close>.
  \<^item> Dns_Config, Firewall_Policy, Tailnet: the resolver settings (\<open>talpid-dns\<close>), the policies of
    \<open>firewall/mod.rs\<close> and the tailnet interfaces of \<open>firewall/tailnet.rs\<close>.
  \<^item> Nft_Semantics, Nft_Rules, Nft_Filter, Nft_Out, Nft_Verdict, Nft_Include: nftables expressions and
    how the kernel evaluates them; the rules that \<open>firewall/linux.rs\<close> adds, in its order; what each
    chain accepts, characterised for every policy and both split modes.
  \<^item> Firewall_Ops, Firewall_Laws, Firewall_Properties: the operations of the firewall on a kernel with
    tables, the interface the state machine relies on (a locale, interpreted on the Linux operations),
    and the theorems: what each policy lets out and in, atomic application, app lock, recovery.
  \<^item> Exit_Refusal, Reconnect, Backend_Params, Tunnel_Thread: refusals of an exit, retry pacing and the
    flap detector, the peers of a circuit, and the laps of the tunnel thread.
  \<^item> Tunnel_Shared, Tunnel_States, Tunnel_Handlers, Tunnel_Machine: the shared values and one function per
    handler of \<open>disconnected_state.rs\<close>, \<open>connecting_state.rs\<close>, \<open>connected_state.rs\<close>,
    \<open>disconnecting_state.rs\<close> and \<open>error_state.rs\<close>, and the machine as a step relation.
  \<^item> Tunnel_Safety, Tunnel_Life, Tunnel_Settings, Tunnel_Properties: the invariants by rule induction over
    runs (which policy is in force in which state, one tunnel at a time, agreement with the settings),
    and the theorems over runs; this theory adds what leaves the host in each state.
  \<^item> Include_Hold, Watchers: the hold of the include-only driver, the debounce of the connectivity
    monitor and the tailnet watch.
  \<^item> Bytes, Packet_Ip, Checksum, Packet_Nat, Nat_Properties, Packet_Flow, Packet_Reset: packets as
    bytes (\<open>ip.rs\<close>, \<open>nat.rs\<close>, the first part of \<open>flow.rs\<close>, \<open>reset.rs\<close>): no input makes the parsers
    panic, rewriting keeps every checksum valid and can be undone, and the resets that are built parse
    back as packets of their flow.
  \<^item> Bounded_Store, Flow_Table, App_Matcher: the caches of the router against one interface (a locale,
    interpreted on the flow table, the fragment maps and the decision cache), and the keys of apps.
  \<^item> Router, Router_Properties, Router_Safety: every operation of \<open>router.rs\<close> and the theorems over its
    runs: a routed app never reaches the main session, routes are isolated from each other, a new policy
    moves no connection, memory is bounded.
  \<^item> Socket_Table, Netlink_Messages: who owns a flow: the socket tables of macOS and Windows
    (\<open>owner/mod.rs\<close>, \<open>pcblist.rs\<close>, \<open>win_tables.rs\<close>), and the conntrack and process-event messages of
    Linux (\<open>conntrack.rs\<close>, \<open>proc_events.rs\<close>): the search names the right owner, reading ends without a
    panic on any bytes, answers are read as the flow that was asked for, lost events are noticed.

  \<^bold>\<open>How the code is rendered.\<close> A struct is a record, an enum a datatype, an integer a word of its width
  where its width matters; \<open>Instant\<close> and \<open>Duration\<close> are nanoseconds. A handler takes and returns the
  state it borrows. What the code asks of the outside (system calls, the kernel, the tunnel, the clock)
  is an argument: the state machine reads the answers of a world indexed by the number of calls made and
  appends its effects to a log; the router is parameterised by the operations of its resolver. An error
  is a value of \<open>result\<close>, a panic the value \<^const>\<open>None\<close> of an outer option, and a theorem says where
  none happens. A \<open>HashMap\<close> is an association list with distinct keys in the order it iterates.

  \<^bold>\<open>Bounds and fuel.\<close> All functions are total. The only counter is the one the code has: the walk over
  IPv6 extension headers stops after nine headers, as \<open>MAX_V6_EXTENSIONS\<close> demands.

  \<^bold>\<open>Not modelled.\<close> The daemon, the management interface, the command line and the mobile front ends, which
  are glue around gRPC, settings files and platform services; the cryptography and the transports of the
  tunnel engine, which rest on crates that are not in the repository; the firewalls, routing and split
  tunnelling of macOS, Windows and Android, which are calls into system libraries; logging, installers and
  tests. Within the modelled parts, log messages and the Debug renderings are left out.
\<close>

section \<open>Traffic over runs of the machine\<close>




text \<open>A machine that boots into the error state.\<close>

definition sample_block_settings :: InitialTunnelState where
  "sample_block_settings = sample_settings\<lparr>in_initial_block := Some IsOffline\<rparr>"

lemma sample_error_boot:
  "\<exists>s. boot sample_world ''warren'' sample_kernel sample_ids sample_block_settings PresumeOnline =
     MRunning (StError IsOffline) s [TrError \<lparr>es_cause = IsOffline, es_block_failure = None\<rparr>]"
proof -
  let ?init = "initial_shared ''warren'' sample_kernel sample_ids sample_block_settings PresumeOnline"
  let ?s = "disable_connectivity_check sample_world ?init"
  have "sv_table ?s = ''warren''"
    using same_settings_table [OF calls_same_settings(3) [of ?init sample_world]] by simp
  moreover have "err_of (finalize sample_host (sv_blocked_policy ?init) (sv_firewall ?s)) = None"
    by (simp add: sv_blocked_policy_def blocked_policy_def sample_finalize_blocked)
  ultimately obtain k where "fw_apply sample_world (sv_blocked_policy ?init) ?s =
      (emit (FwApply (sv_blocked_policy ?init) True) (tick ?s\<lparr>sv_kernel := k\<rparr>), Ok ())"
    using sample_fw_apply by blast
  then have "error_enter sample_world IsOffline ?init =
      (emit (FwApply (sv_blocked_policy ?init) True) (tick ?s\<lparr>sv_kernel := k\<rparr>), StError IsOffline,
       TrError \<lparr>es_cause = IsOffline, es_block_failure = None\<rparr>)"
    by (simp add: error_enter_def error_set_firewall_policy_def Let_def)
  moreover have "in_initial_block sample_block_settings = Some IsOffline"
    by (simp add: sample_block_settings_def)
  ultimately show ?thesis by (simp add: machine_new_def)
qed



lemma sample_include_step:
  assumes "sv_table s = ''warren''" "\<not> sv_include_only s" "can_include (sv_firewall s)"
  shows "\<exists>s' ts'. step sample_world (MRunning StDisconnected s ts)
      (LHandle (RCommand (Some (CmdSetSplitApps \<lparr>sa_mode = IncludeOnly, sa_apps = []\<rparr>))))
      (MRunning StDisconnected s' ts') \<and>
     sv_table s' = ''warren'' \<and> sv_split_mode s' = IncludeOnly \<and> sv_connectivity s' = sv_connectivity s"
proof -
  let ?apps = "\<lparr>sa_mode = IncludeOnly, sa_apps = []\<rparr>"
  obtain s1 where x: "set_split_apps s ?apps = (s1, True)" "sv_table s1 = ''warren''" "sv_split_mode s1 = IncludeOnly"
    "sv_connectivity s1 = sv_connectivity s"
    using assms by (simp add: set_split_apps_def enforceable_mode_def sv_include_only_def Let_def)
  let ?s2 = "emit Ack (disconnected_set_firewall_policy sample_world False s1)"
  have "same_settings s1 ?s2"
    by (simp add: disconnected_set_firewall_policy_def)
  with x(2-4) have same: "sv_table ?s2 = ''warren''" "sv_split_mode ?s2 = IncludeOnly" "sv_connectivity ?s2 = sv_connectivity s"
    by (simp_all add: same_settings_def)
  have "step sample_world (MRunning StDisconnected s ts) (LHandle (RCommand (Some (CmdSetSplitApps ?apps))))
      (machine_step sample_world True (RCommand (Some (CmdSetSplitApps ?apps))) StDisconnected s ts)"
    by (rule step.handle) simp
  moreover have "machine_step sample_world True (RCommand (Some (CmdSetSplitApps ?apps))) StDisconnected s ts =
      MRunning StDisconnected ?s2 ts"
    by (simp add: machine_step_def x(1))
  ultimately show ?thesis using same by auto
qed


end
